(* ===== verification/Vmi_Prelude.thy ===== *)
theory Vmi_Prelude
  imports Main "HOL-Library.Word" "HOL-Library.AList" "HOL-Library.List_Lexorder" "HOL-Library.Char_ord"
begin

text \<open>
  Shared vocabulary of the development: the machine integers of the Rust code
  (\<open>u8\<close> \dots \<open>u64\<close> as words, \<open>usize\<close> as the naturals below \<open>2 ^ 64\<close>, \<open>u128\<close> as
  naturals with the saturation written out), fallible computations as sums with the error on
  the left and \<open>and_then\<close> for the \<open>?\<close> operator, checked arithmetic as options,
  slice access as options, byte order conversions and the number formats of error messages.
\<close>

unbundle bit_operations_syntax

section \<open>Machine integers\<close>

type_synonym u8 = "8 word"
type_synonym u16 = "16 word"
type_synonym u32 = "32 word"
type_synonym u64 = "64 word"
type_synonym usize = nat
type_synonym u128 = nat

named_theorems checked_defs \<open>definitions of checked and saturating arithmetic\<close>
named_theorems mask_simps \<open>hexadecimal mask constants as terms of mask\<close>

definition usize_bound :: nat where
  "usize_bound = 2 ^ 64"

definition isize_max :: nat where
  "isize_max = 2 ^ 63 - 1"

definition u128_max :: nat where
  "u128_max = 2 ^ 128 - 1"

definition checked_add :: "'a::len word \<Rightarrow> 'a word \<Rightarrow> 'a word option" where
  [checked_defs]: "checked_add a b =
     (if unat a + unat b < 2 ^ LENGTH('a) then Some (a + b) else None)"

definition checked_sub :: "'a::len word \<Rightarrow> 'a word \<Rightarrow> 'a word option" where
  [checked_defs]: "checked_sub a b = (if b \<le> a then Some (a - b) else None)"

definition checked_mul :: "'a::len word \<Rightarrow> 'a word \<Rightarrow> 'a word option" where
  [checked_defs]: "checked_mul a b =
     (if unat a * unat b < 2 ^ LENGTH('a) then Some (a * b) else None)"

definition checked_shl :: "'a::len word \<Rightarrow> nat \<Rightarrow> 'a word option" where
  [checked_defs]: "checked_shl a n = (if n < LENGTH('a) then Some (push_bit n a) else None)"

definition usize_checked_add :: "usize \<Rightarrow> usize \<Rightarrow> usize option" where
  [checked_defs]: "usize_checked_add a b = (if a + b < usize_bound then Some (a + b) else None)"

definition usize_checked_sub :: "usize \<Rightarrow> usize \<Rightarrow> usize option" where
  [checked_defs]: "usize_checked_sub a b = (if b \<le> a then Some (a - b) else None)"

definition usize_checked_mul :: "usize \<Rightarrow> usize \<Rightarrow> usize option" where
  [checked_defs]: "usize_checked_mul a b = (if a * b < usize_bound then Some (a * b) else None)"

text \<open>\<open>u64::try_from(usize)\<close> and \<open>usize::try_from(u64)\<close> on a 64-bit host.\<close>

definition u64_of_usize :: "usize \<Rightarrow> u64 option" where
  [checked_defs]: "u64_of_usize n = (if n < 2 ^ 64 then Some (of_nat n) else None)"

definition usize_of_u64 :: "u64 \<Rightarrow> usize option" where
  [checked_defs]: "usize_of_u64 w = (if unat w < usize_bound then Some (unat w) else None)"

definition usize_of_u128 :: "u128 \<Rightarrow> usize option" where
  [checked_defs]: "usize_of_u128 n = (if n < usize_bound then Some n else None)"

definition sat_add_u128 :: "u128 \<Rightarrow> u128 \<Rightarrow> u128" where
  [checked_defs]: "sat_add_u128 a b = min (a + b) u128_max"

section \<open>Fallible computations\<close>

text \<open>Rust's \<open>?\<close>: stop at the first error, otherwise continue with the value.\<close>

definition and_then :: "'e + 'a \<Rightarrow> ('a \<Rightarrow> 'e + 'b) \<Rightarrow> 'e + 'b" where
  "and_then r f = (case r of Inl e \<Rightarrow> Inl e | Inr x \<Rightarrow> f x)"

definition ok_or :: "'a option \<Rightarrow> 'e \<Rightarrow> 'e + 'a" where
  "ok_or m e = (case m of None \<Rightarrow> Inl e | Some x \<Rightarrow> Inr x)"

definition map_err :: "('e \<Rightarrow> 'f) \<Rightarrow> 'e + 'a \<Rightarrow> 'f + 'a" where
  "map_err g r = (case r of Inl e \<Rightarrow> Inl (g e) | Inr x \<Rightarrow> Inr x)"

fun is_ok :: "'e + 'a \<Rightarrow> bool" where
  "is_ok (Inl e) = False"
| "is_ok (Inr x) = True"

section \<open>Slices\<close>

text \<open>\<open>data.get(a..b)\<close>, and the buffer after \<open>buf.get_mut(a..)\<close> received \<open>ys\<close>.\<close>

definition get_range :: "'a list \<Rightarrow> nat \<Rightarrow> nat \<Rightarrow> 'a list option" where
  "get_range xs a b =
     (if a \<le> b \<and> b \<le> length xs then Some (take (b - a) (drop a xs)) else None)"

definition get_at :: "'a list \<Rightarrow> nat \<Rightarrow> 'a option" where
  "get_at xs i = (if i < length xs then Some (xs ! i) else None)"

definition splice :: "'a list \<Rightarrow> nat \<Rightarrow> 'a list \<Rightarrow> 'a list" where
  "splice xs a ys = take a xs @ ys @ drop (a + length ys) xs"

definition starts_with :: "'a list \<Rightarrow> 'a list \<Rightarrow> bool" where
  "starts_with xs p = (take (length p) xs = p)"

text \<open>
  \<open>try_reserve_exact\<close> fails with a capacity overflow when more than \<open>isize::MAX\<close> bytes are
  requested; exhaustion of the host's memory below that bound is not modelled.
\<close>

definition reservable :: "nat \<Rightarrow> bool" where
  [checked_defs]: "reservable bytes = (bytes \<le> isize_max)"

definition capacity_overflow :: string where
  "capacity_overflow =
     ''memory allocation failed because the computed capacity exceeded the collection's maximum''"

text \<open>A fallible clone of a string: the message prefix names what could not be allocated.\<close>

definition try_clone_text :: "(string \<Rightarrow> 'e) \<Rightarrow> string \<Rightarrow> string \<Rightarrow> 'e + string" where
  "try_clone_text err what s =
     (if reservable (length s) then Inr s else Inl (err (what @ '': '' @ capacity_overflow)))"

section \<open>Maps and locks of the standard library\<close>

text \<open>
  A \<open>HashMap\<close> is an association list (its operations are \<open>AList.update\<close>, \<open>AList.delete\<close> and
  \<open>map_of\<close>); a \<open>BTreeMap\<close>, whose iteration order is observable, is one sorted by key.
\<close>

fun btree_insert :: "'k::linorder \<Rightarrow> 'v \<Rightarrow> ('k \<times> 'v) list \<Rightarrow> ('k \<times> 'v) list" where
  "btree_insert k v [] = [(k, v)]"
| "btree_insert k v ((k', v') # m) =
     (if k < k' then (k, v) # (k', v') # m
      else if k = k' then (k, v) # m
      else (k', v') # btree_insert k v m)"

definition btree_remove :: "'k \<Rightarrow> ('k \<times> 'v) list \<Rightarrow> ('k \<times> 'v) list" where
  "btree_remove k m = filter (\<lambda>e. fst e \<noteq> k) m"

definition btree_ok :: "('k::linorder \<times> 'v) list \<Rightarrow> bool" where
  "btree_ok m = sorted_wrt (<) (map fst m)"

text \<open>The message of a \<open>PoisonError\<close>: a thread panicked while it held the lock.\<close>

definition poisoned_lock :: string where
  "poisoned_lock = ''poisoned lock: another task failed inside''"

section \<open>Byte order\<close>

fun le_nat :: "u8 list \<Rightarrow> nat" where
  "le_nat [] = 0"
| "le_nat (b # bs) = unat b + 256 * le_nat bs"

definition from_le_bytes :: "u8 list \<Rightarrow> 'a::len word" where
  "from_le_bytes bs = of_nat (le_nat bs)"

definition from_be_bytes :: "u8 list \<Rightarrow> 'a::len word" where
  "from_be_bytes bs = of_nat (le_nat (rev bs))"

fun le_bytes :: "nat \<Rightarrow> nat \<Rightarrow> u8 list" where
  "le_bytes 0 v = []"
| "le_bytes (Suc n) v = of_nat (v mod 256) # le_bytes n (v div 256)"

definition to_le_bytes :: "'a::len word \<Rightarrow> u8 list" where
  "to_le_bytes w = le_bytes (LENGTH('a) div 8) (unat w)"

section \<open>Text\<close>

text \<open>ASCII byte strings of the source, and the number formats of \<open>format!\<close>.\<close>

definition bytes_of :: "string \<Rightarrow> u8 list" where
  "bytes_of s = map (\<lambda>c. of_nat (of_char c)) s"

definition digit_char :: "nat \<Rightarrow> char" where
  "digit_char d = (if d < 16 then ''0123456789abcdef'' ! d else CHR ''?'')"

fun fmt_radix :: "nat \<Rightarrow> nat \<Rightarrow> string" where
  "fmt_radix r n =
     (if r < 2 \<or> n < r then [digit_char n] else fmt_radix r (n div r) @ [digit_char (n mod r)])"

declare fmt_radix.simps [simp del]

definition dec :: "nat \<Rightarrow> string" where
  "dec n = fmt_radix 10 n"

definition hex0x :: "u64 \<Rightarrow> string" where
  "hex0x w = ''0x'' @ fmt_radix 16 (unat w)"

section \<open>Lemmas on fallible computations\<close>

lemma and_then_simps [simp]:
  "and_then (Inl e) f = Inl e"
  "and_then (Inr x) f = f x"
  by (simp_all add: and_then_def)

lemma and_then_eq_Inr [simp]:
  "and_then r f = Inr y \<longleftrightarrow> (\<exists>x. r = Inr x \<and> f x = Inr y)"
  by (cases r) auto

lemma and_then_eq_Inl:
  "and_then r f = Inl e \<longleftrightarrow> r = Inl e \<or> (\<exists>x. r = Inr x \<and> f x = Inl e)"
  by (cases r) auto

lemma and_then_cong [fundef_cong]:
  "r = r' \<Longrightarrow> (\<And>x. r' = Inr x \<Longrightarrow> f x = g x) \<Longrightarrow> and_then r f = and_then r' g"
  by (cases r') auto

lemma and_then_assoc: "and_then (and_then r f) g = and_then r (\<lambda>x. and_then (f x) g)"
  by (cases r) auto

lemma ok_or_simps [simp]:
  "ok_or None e = Inl e"
  "ok_or (Some x) e = Inr x"
  by (simp_all add: ok_or_def)

lemma ok_or_eq_Inr [simp]: "ok_or m e = Inr x \<longleftrightarrow> m = Some x"
  by (cases m) auto

lemma ok_or_eq_Inl: "ok_or m e = Inl e' \<longleftrightarrow> m = None \<and> e' = e"
  by (cases m) auto

lemma map_err_simps [simp]:
  "map_err g (Inl e) = Inl (g e)"
  "map_err g (Inr x) = Inr x"
  by (simp_all add: map_err_def)

lemma map_err_eq_Inr [simp]: "map_err g r = Inr x \<longleftrightarrow> r = Inr x"
  by (cases r) auto

lemma is_ok_iff: "is_ok r \<longleftrightarrow> (\<exists>x. r = Inr x)"
  by (cases r) auto

section \<open>Lemmas on checked arithmetic\<close>

lemma checked_add_Some:
  "checked_add a b = Some c \<longleftrightarrow> unat a + unat b < 2 ^ LENGTH('a) \<and> c = a + b"
  for a b c :: "'a::len word"
  by (auto simp: checked_add_def)

lemma checked_add_None:
  "checked_add a b = None \<longleftrightarrow> 2 ^ LENGTH('a) \<le> unat a + unat b"
  for a b :: "'a::len word"
  by (auto simp: checked_add_def)

lemma unat_checked_add:
  "checked_add a b = Some c \<Longrightarrow> unat c = unat a + unat b"
  for a b c :: "'a::len word"
  by (auto simp: checked_add_def unat_word_ariths split: if_splits)

lemma checked_sub_Some: "checked_sub a b = Some c \<longleftrightarrow> b \<le> a \<and> c = a - b"
  for a b c :: "'a::len word"
  by (auto simp: checked_sub_def)

lemma unat_checked_sub: "checked_sub a b = Some c \<Longrightarrow> unat c = unat a - unat b"
  for a b c :: "'a::len word"
  by (auto simp: checked_sub_def unat_sub split: if_splits)

lemma checked_mul_Some:
  "checked_mul a b = Some c \<longleftrightarrow> unat a * unat b < 2 ^ LENGTH('a) \<and> c = a * b"
  for a b c :: "'a::len word"
  by (auto simp: checked_mul_def)

lemma unat_checked_mul:
  "checked_mul a b = Some c \<Longrightarrow> unat c = unat a * unat b"
  for a b c :: "'a::len word"
  by (auto simp: checked_mul_def unat_word_ariths split: if_splits)

lemma u64_unat_bound [simp]: "unat (w :: u64) < 18446744073709551616"
  using unsigned_less [of w] by simp

lemma usize_of_u64_Some [simp]: "usize_of_u64 w = Some (unat w)"
  by (simp add: usize_of_u64_def usize_bound_def)

lemma sat_add_u128_u64 [simp]:
  "sat_add_u128 (unat (a :: u64)) (unat (b :: u64)) = unat a + unat b"
proof -
  have "u128_max = 340282366920938463463374607431768211455"
    by (simp add: u128_max_def)
  with u64_unat_bound [of a] u64_unat_bound [of b] have "unat a + unat b \<le> u128_max"
    by linarith
  then show ?thesis by (simp add: sat_add_u128_def)
qed

section \<open>Lemmas on slices\<close>

lemma get_range_Some:
  "get_range xs a b = Some ys \<longleftrightarrow> a \<le> b \<and> b \<le> length xs \<and> ys = take (b - a) (drop a xs)"
  by (auto simp: get_range_def)

lemma get_range_None: "get_range xs a b = None \<longleftrightarrow> \<not> (a \<le> b \<and> b \<le> length xs)"
  by (auto simp: get_range_def)

lemma length_get_range: "get_range xs a b = Some ys \<Longrightarrow> length ys = b - a"
  by (auto simp: get_range_def split: if_splits)

lemma nth_get_range: "get_range xs a b = Some ys \<Longrightarrow> i < b - a \<Longrightarrow> ys ! i = xs ! (a + i)"
  by (auto simp: get_range_def split: if_splits)

lemma length_splice [simp]: "a + length ys \<le> length xs \<Longrightarrow> length (splice xs a ys) = length xs"
  by (simp add: splice_def)

lemma nth_splice:
  assumes "a + length ys \<le> length xs" "i < length xs"
  shows "splice xs a ys ! i =
    (if a \<le> i \<and> i < a + length ys then ys ! (i - a) else xs ! i)"
  using assms by (auto simp: splice_def nth_append)

lemma splice_whole: "length ys = length xs \<Longrightarrow> splice xs 0 ys = ys"
  by (simp add: splice_def)

lemma take_eq_nth:
  "length xs = length ys \<Longrightarrow> n \<le> length ys \<Longrightarrow> take n xs = take n ys \<longleftrightarrow> (\<forall>i < n. xs ! i = ys ! i)"
  by (auto simp: list_eq_iff_nth_eq)

lemma take_splice:
  assumes "length bs = length xs" "a + length ys \<le> length xs"
  shows "take (a + length ys) bs = take (a + length ys) (splice xs a ys) \<longleftrightarrow>
    take a bs = take a xs \<and> (\<forall>i. a \<le> i \<and> i < a + length ys \<longrightarrow> bs ! i = ys ! (i - a))"
proof -
  have "take (a + length ys) bs = take (a + length ys) (splice xs a ys) \<longleftrightarrow>
      (\<forall>i < a + length ys. bs ! i = (if a \<le> i then ys ! (i - a) else xs ! i))"
    using assms by (simp add: take_eq_nth nth_splice)
  moreover have "take a bs = take a xs \<longleftrightarrow> (\<forall>i < a. bs ! i = xs ! i)"
    using assms by (simp add: take_eq_nth)
  ultimately show ?thesis
    by (metis (full_types) less_or_eq_imp_le not_less trans_less_add1)
qed

lemma all_between_split:
  "a \<le> n \<Longrightarrow> n \<le> b \<Longrightarrow>
    (\<forall>i. a \<le> i \<and> i < b \<longrightarrow> P i) \<longleftrightarrow> (\<forall>i. a \<le> i \<and> i < n \<longrightarrow> P i) \<and> (\<forall>i. n \<le> i \<and> i < b \<longrightarrow> P i)"
  for a b n :: nat
  by (metis le_trans not_le order_less_le_trans)

section \<open>Lemmas on ordered maps\<close>

lemma map_of_btree_insert [simp]: "map_of (btree_insert k v m) = (map_of m)(k \<mapsto> v)"
  by (induction k v m rule: btree_insert.induct) (auto simp: fun_eq_iff)

lemma keys_btree_insert [simp]: "fst ` set (btree_insert k v m) = insert k (fst ` set m)"
  by (induction k v m rule: btree_insert.induct) auto

lemma btree_ok_insert [simp]: "btree_ok m \<Longrightarrow> btree_ok (btree_insert k v m)"
proof (induction k v m rule: btree_insert.induct)
  case (2 k v k' v' m)
  then have "k' < x" if "x \<in> fst ` set m" for x
    using that by (auto simp: btree_ok_def)
  with 2 have "\<not> k < k' \<Longrightarrow> k \<noteq> k' \<Longrightarrow> \<forall>x \<in> fst ` set (btree_insert k v m). k' < x"
    by auto
  with 2 show ?case
    by (auto simp: btree_ok_def)
qed (simp add: btree_ok_def)

lemma btree_ok_remove [simp]: "btree_ok m \<Longrightarrow> btree_ok (btree_remove k m)"
  by (induction m) (auto simp: btree_ok_def btree_remove_def)

lemma btree_ok_distinct: "btree_ok m \<Longrightarrow> distinct (map fst m)"
  by (simp add: btree_ok_def strict_sorted_iff)

lemma map_of_btree_remove [simp]: "map_of (btree_remove k m) = (map_of m)(k := None)"
  by (induction m) (auto simp: btree_remove_def fun_eq_iff)

lemma btree_remove_insert_fresh:
  "map_of m k = None \<Longrightarrow> btree_remove k (btree_insert k v m) = m"
proof (induction k v m rule: btree_insert.induct)
  case (2 k v k' v' m)
  then have "k' \<noteq> k" "\<forall>e \<in> set m. fst e \<noteq> k"
    by (auto simp: map_of_eq_None_iff split: if_splits)
  with 2 show ?case
    by (auto simp: btree_remove_def filter_id_conv)
qed (simp add: btree_remove_def)

section \<open>Lemmas on byte order\<close>

lemma le_nat_bound: "le_nat bs < 256 ^ length bs"
proof (induction bs)
  case (Cons b bs)
  have "unat b < 256"
    using unsigned_less [of b] by simp
  with Cons show ?case by simp
qed simp

lemma length_le_bytes [simp]: "length (le_bytes n v) = n"
  by (induction n arbitrary: v) auto

lemma le_nat_le_bytes: "le_nat (le_bytes n v) = v mod 256 ^ n"
proof (induction n arbitrary: v)
  case (Suc n)
  have "unat (of_nat (v mod 256) :: u8) = v mod 256"
    by (simp add: unat_of_nat)
  moreover have "v mod 256 ^ Suc n = v mod 256 + 256 * (v div 256 mod 256 ^ n)"
    by (simp add: mod_mult2_eq)
  ultimately show ?case using Suc by simp
qed simp

lemma le_bytes_le_nat: "le_bytes (length bs) (le_nat bs) = bs"
proof (induction bs)
  case (Cons b bs)
  have b: "unat b < 256"
    using unsigned_less [of b] by simp
  then have "(unat b + 256 * le_nat bs) mod 256 = unat b"
    and "(unat b + 256 * le_nat bs) div 256 = le_nat bs"
    by simp_all
  with Cons show ?case by simp
qed simp

lemma length_to_le_bytes [simp]: "length (to_le_bytes (w :: 'a::len word)) = LENGTH('a) div 8"
  by (simp add: to_le_bytes_def)

lemma from_to_le_bytes_u64: "from_le_bytes (to_le_bytes (w :: u64)) = w"
proof -
  have "unat w mod 256 ^ 8 = unat w"
    using u64_unat_bound [of w] by simp
  then show ?thesis
    by (simp add: from_le_bytes_def to_le_bytes_def le_nat_le_bytes)
qed

lemma unat_from_le_bytes_u64:
  assumes "length bs = 8"
  shows "unat (from_le_bytes bs :: u64) = le_nat bs"
  using le_nat_bound [of bs] assms by (simp add: from_le_bytes_def unat_of_nat)

lemma to_from_le_bytes_u64:
  assumes "length bs = 8"
  shows "to_le_bytes (from_le_bytes bs :: u64) = bs"
  using le_bytes_le_nat [of bs] assms
  by (simp add: to_le_bytes_def unat_from_le_bytes_u64)

lemma from_to_le_bytes_u32: "from_le_bytes (to_le_bytes (w :: u32)) = w"
proof -
  have "unat w < 2 ^ 32"
    using unsigned_less [of w] by simp
  then have "unat w mod 256 ^ 4 = unat w"
    by simp
  then show ?thesis
    by (simp add: from_le_bytes_def to_le_bytes_def le_nat_le_bytes)
qed

lemma get_range_middle: "get_range (xs @ ys @ zs) (length xs) (length xs + length ys) = Some ys"
  by (simp add: get_range_def)

end
