(* ===== verification/Vmi_Types.thy ===== *)
theory Vmi_Types
  imports Vmi_Prelude
begin

text \<open>
  The crate \<open>vmi-types\<close>: address newtypes and memory ranges, capabilities and capability
  sets, the error type with its categories, scalar decoding, provider and target descriptors
  and attach requests. The set operations of the \<open>bitflags\<close> crate are a parameter
  \<open>flag_ops\<close>; \<open>flags_documented\<close> states its documented bitwise behaviour.
\<close>

section \<open>Addresses (address.rs)\<close>

datatype gpa = Gpa (gpa_raw: u64)

datatype gva = Gva (gva_raw: u64)

datatype translation_root = TranslationRoot (root_raw: u64)

record memory_range =
  range_start :: gpa
  range_length :: u64

definition range_new :: "gpa \<Rightarrow> u64 \<Rightarrow> memory_range" where
  "range_new s l = \<lparr>range_start = s, range_length = l\<rparr>"

definition range_end :: "memory_range \<Rightarrow> gpa option" where
  "range_end r = map_option Gpa (checked_add (gpa_raw (range_start r)) (range_length r))"

definition range_contains :: "memory_range \<Rightarrow> gpa \<Rightarrow> bool" where
  "range_contains r address =
     (let s = unat (gpa_raw (range_start r));
          e = sat_add_u128 s (unat (range_length r));
          v = unat (gpa_raw address)
      in v \<ge> s \<and> v < e)"

section \<open>Capabilities (capability.rs)\<close>

datatype capability =
    MemoryRead
  | MemoryWrite
  | RegisterRead
  | RegisterWrite
  | Control
  | Events
  | MemoryView
  | Acquisition
  | Lifecycle

datatype capability_set = CapabilitySet (cap_bits: u64)

text \<open>The operations of the \<open>bitflags\<close> crate that the workspace calls.\<close>

record flag_ops =
  fl_insert :: "u64 \<Rightarrow> u64 \<Rightarrow> u64"
  fl_contains :: "u64 \<Rightarrow> u64 \<Rightarrow> bool"
  fl_difference :: "u64 \<Rightarrow> u64 \<Rightarrow> u64"
  fl_intersects :: "u64 \<Rightarrow> u64 \<Rightarrow> bool"
  fl_is_empty :: "u64 \<Rightarrow> bool"
  fl_empty :: u64

definition flags_documented :: "flag_ops \<Rightarrow> bool" where
  "flags_documented fl \<longleftrightarrow>
     (\<forall>a b. fl_insert fl a b = a OR b) \<and>
     (\<forall>a b. fl_contains fl a b = (a AND b = b)) \<and>
     (\<forall>a b. fl_difference fl a b = a AND NOT b) \<and>
     (\<forall>a b. fl_intersects fl a b = (a AND b \<noteq> 0)) \<and>
     (\<forall>a. fl_is_empty fl a = (a = 0)) \<and>
     fl_empty fl = 0"

definition all_capabilities :: "capability list" where
  "all_capabilities = [MemoryRead, MemoryWrite, RegisterRead, RegisterWrite, Control, Events, MemoryView,
          Acquisition, Lifecycle]"

fun capability_bit :: "capability \<Rightarrow> capability_set" where
  "capability_bit MemoryRead = CapabilitySet (push_bit 0 1)"
| "capability_bit MemoryWrite = CapabilitySet (push_bit 1 1)"
| "capability_bit RegisterRead = CapabilitySet (push_bit 2 1)"
| "capability_bit RegisterWrite = CapabilitySet (push_bit 3 1)"
| "capability_bit Control = CapabilitySet (push_bit 4 1)"
| "capability_bit Events = CapabilitySet (push_bit 5 1)"
| "capability_bit MemoryView = CapabilitySet (push_bit 6 1)"
| "capability_bit Acquisition = CapabilitySet (push_bit 7 1)"
| "capability_bit Lifecycle = CapabilitySet (push_bit 8 1)"

fun as_str :: "capability \<Rightarrow> string" where
  "as_str MemoryRead = ''memory_read''"
| "as_str MemoryWrite = ''memory_write''"
| "as_str RegisterRead = ''register_read''"
| "as_str RegisterWrite = ''register_write''"
| "as_str Control = ''control''"
| "as_str Events = ''events''"
| "as_str MemoryView = ''memory_view''"
| "as_str Acquisition = ''acquisition''"
| "as_str Lifecycle = ''lifecycle''"

definition insert_capability :: "flag_ops \<Rightarrow> capability_set \<Rightarrow> capability \<Rightarrow> capability_set" where
  "insert_capability fl s c = CapabilitySet (fl_insert fl (cap_bits s) (cap_bits (capability_bit c)))"

fun from_caps_loop :: "flag_ops \<Rightarrow> capability_set \<Rightarrow> capability list \<Rightarrow> capability_set" where
  "from_caps_loop fl s [] = s"
| "from_caps_loop fl s (c # cs) = from_caps_loop fl (insert_capability fl s c) cs"

definition from_caps :: "flag_ops \<Rightarrow> capability list \<Rightarrow> capability_set" where
  "from_caps fl cs = from_caps_loop fl (CapabilitySet (fl_empty fl)) cs"

definition contains_capability :: "flag_ops \<Rightarrow> capability_set \<Rightarrow> capability \<Rightarrow> bool" where
  "contains_capability fl s c = fl_contains fl (cap_bits s) (cap_bits (capability_bit c))"

definition difference_of :: "flag_ops \<Rightarrow> capability_set \<Rightarrow> capability_set \<Rightarrow> capability_set" where
  "difference_of fl s t = CapabilitySet (fl_difference fl (cap_bits s) (cap_bits t))"

definition iter_capabilities :: "flag_ops \<Rightarrow> capability_set \<Rightarrow> capability list" where
  "iter_capabilities fl s = filter (contains_capability fl s) all_capabilities"

fun join_rest :: "capability list \<Rightarrow> string" where
  "join_rest [] = ''''"
| "join_rest (c # cs) = '','' @ as_str c @ join_rest cs"

definition fmt_capability_set :: "flag_ops \<Rightarrow> capability_set \<Rightarrow> string" where
  "fmt_capability_set fl s =
     (case iter_capabilities fl s of
        [] \<Rightarrow> ''<empty>''
      | c # cs \<Rightarrow> as_str c @ join_rest cs)"

section \<open>Errors (error.rs)\<close>

datatype scalar_decode_error = WrongWidth (wrong_expected: usize) (wrong_actual: usize)

datatype vmi_error_kind =
    KAttach | KCapability | KUnsupported | KRead | KTranslation | KDecode | KTimeout
  | KCancelled | KBackend

datatype vmi_error =
    AttachRejected string capability_set
  | CapabilityMissing string capability
  | UnsupportedOperation string string
  | ReadFailed u64 usize
  | NonCanonicalAddress u64 u8
  | PageNotPresent u64 u8
  | InvalidPageTableEntry u64 u8
  | ScalarDecode scalar_decode_error
  | Timeout string
  | Cancelled string
  | Backend string

fun error_kind :: "vmi_error \<Rightarrow> vmi_error_kind" where
  "error_kind (AttachRejected _ _) = KAttach"
| "error_kind (CapabilityMissing _ _) = KCapability"
| "error_kind (UnsupportedOperation _ _) = KUnsupported"
| "error_kind (ReadFailed _ _) = KRead"
| "error_kind (NonCanonicalAddress _ _) = KTranslation"
| "error_kind (PageNotPresent _ _) = KTranslation"
| "error_kind (InvalidPageTableEntry _ _) = KTranslation"
| "error_kind (ScalarDecode _) = KDecode"
| "error_kind (Timeout _) = KTimeout"
| "error_kind (Cancelled _) = KCancelled"
| "error_kind (Backend _) = KBackend"

type_synonym 'a result = "vmi_error + 'a"

section \<open>Scalars (primitive.rs)\<close>

datatype byte_order = LittleEndian | BigEndian

text \<open>
  \<open>Scalar::WIDTH\<close> and \<open>decode_scalar\<close>; the length check is the guard that keeps the
  trait methods' \<open>copy_from_slice\<close> from panicking.
\<close>

definition scalar_width :: "'a::len word itself \<Rightarrow> usize" where
  "scalar_width _ = LENGTH('a) div 8"

definition decode_scalar :: "u8 list \<Rightarrow> byte_order \<Rightarrow> scalar_decode_error + 'a::len word" where
  "decode_scalar bytes order =
     (if length bytes \<noteq> scalar_width TYPE('a word)
      then Inl (WrongWidth (scalar_width TYPE('a word)) (length bytes))
      else Inr (case order of
          LittleEndian \<Rightarrow> from_le_bytes bytes
        | BigEndian \<Rightarrow> from_be_bytes bytes))"

section \<open>Providers and targets (provider.rs, target.rs)\<close>

datatype provider_maturity = Supported | Preview | Experimental | CompileOnly

record provider_descriptor =
  provider_id :: string
  provider_display_name :: string
  provider_version :: "string option"
  provider_maturity_of :: provider_maturity
  provider_capabilities :: capability_set

definition provider_descriptor_new ::
  "string \<Rightarrow> string \<Rightarrow> provider_maturity \<Rightarrow> capability_set \<Rightarrow> provider_descriptor" where
  "provider_descriptor_new i d m c =
     \<lparr>provider_id = i, provider_display_name = d, provider_version = None,
      provider_maturity_of = m, provider_capabilities = c\<rparr>"

datatype target_selector = AnyTarget | NamedTarget string

record attach_request =
  request_selector :: target_selector
  required_capabilities :: capability_set

definition attach_any :: "capability_set \<Rightarrow> attach_request" where
  "attach_any c = \<lparr>request_selector = AnyTarget, required_capabilities = c\<rparr>"

definition attach_named :: "string \<Rightarrow> capability_set \<Rightarrow> attach_request" where
  "attach_named n c = \<lparr>request_selector = NamedTarget n, required_capabilities = c\<rparr>"

datatype guest_architecture = Amd64 | Aarch64 | UnknownArchitecture

datatype consistency_mode = LiveBestEffort | PausedTarget | ImmutableSnapshot

record target_descriptor =
  target_id :: string
  target_display_name :: "string option"
  target_architecture :: guest_architecture
  target_consistency :: consistency_mode

definition target_descriptor_new ::
  "string \<Rightarrow> string option \<Rightarrow> guest_architecture \<Rightarrow> consistency_mode \<Rightarrow> target_descriptor" where
  "target_descriptor_new i d a c =
     \<lparr>target_id = i, target_display_name = d, target_architecture = a, target_consistency = c\<rparr>"

section \<open>Memory ranges are half-open intervals\<close>

lemma range_contains_iff:
  "range_contains r a \<longleftrightarrow>
     unat (gpa_raw (range_start r)) \<le> unat (gpa_raw a) \<and>
     unat (gpa_raw a) < unat (gpa_raw (range_start r)) + unat (range_length r)"
  by (auto simp: range_contains_def Let_def)

lemma range_contains_checked_sub:
  "range_contains r a \<longleftrightarrow>
     (case checked_sub (gpa_raw a) (gpa_raw (range_start r)) of
        None \<Rightarrow> False
      | Some offset \<Rightarrow> offset < range_length r)"
  by (auto simp: range_contains_iff checked_sub_def word_le_nat_alt word_less_nat_alt unat_sub)

lemma range_contains_below_end:
  assumes "range_end r = Some e"
  shows "range_contains r a \<longleftrightarrow>
    gpa_raw (range_start r) \<le> gpa_raw a \<and> gpa_raw a < gpa_raw e"
  using assms
  by (auto simp: range_end_def range_contains_iff word_less_nat_alt word_le_nat_alt
      dest!: unat_checked_add)

section \<open>Capability sets behave as sets\<close>

lemma flag_laws:
  assumes "flags_documented fl"
  shows "fl_insert fl a b = a OR b" "fl_contains fl a b = (a AND b = b)"
    "fl_difference fl a b = a AND NOT b" "fl_intersects fl a b = (a AND b \<noteq> 0)"
    "fl_is_empty fl a = (a = 0)" "fl_empty fl = 0"
  using assms by (simp_all add: flags_documented_def)

text \<open>Each capability is one bit; \<open>capability_index\<close> is its position in the declaration.\<close>

fun capability_index :: "capability \<Rightarrow> nat" where
  "capability_index MemoryRead = 0"
| "capability_index MemoryWrite = 1"
| "capability_index RegisterRead = 2"
| "capability_index RegisterWrite = 3"
| "capability_index Control = 4"
| "capability_index Events = 5"
| "capability_index MemoryView = 6"
| "capability_index Acquisition = 7"
| "capability_index Lifecycle = 8"

lemma capability_bit_index: "cap_bits (capability_bit c) = push_bit (capability_index c) 1"
  by (cases c) simp_all

lemma capability_index_inject: "capability_index c = capability_index d \<longleftrightarrow> c = d"
  by (cases c; cases d) simp_all

lemma capability_index_less: "capability_index c < 64"
  by (cases c) simp_all

lemma and_one_bit:
  fixes w :: u64
  assumes "n < 64"
  shows "(w AND 2 ^ n = 2 ^ n) \<longleftrightarrow> bit w n"
proof -
  have *: "w AND 2 ^ n = (if bit w n then 2 ^ n else 0)"
    by (rule bit_word_eqI) (auto simp: bit_simps)
  have "bit (2 ^ n :: u64) n"
    using assms by (simp add: bit_simps)
  then have "(2 ^ n :: u64) \<noteq> 0"
    by (metis bit_0_eq bot_apply bot_bool_def)
  with * show ?thesis by auto
qed

lemma contains_capability_bit:
  assumes "flags_documented fl"
  shows "contains_capability fl s c \<longleftrightarrow> bit (cap_bits s) (capability_index c)"
  using capability_index_less [of c]
  by (simp add: contains_capability_def flag_laws [OF assms] capability_bit_index and_one_bit)

lemma bit_insert_capability:
  assumes "flags_documented fl"
  shows "bit (cap_bits (insert_capability fl s c)) n \<longleftrightarrow> bit (cap_bits s) n \<or> n = capability_index c"
  using capability_index_less [of c]
  by (auto simp: insert_capability_def flag_laws [OF assms] capability_bit_index bit_simps)

lemma contains_insert_capability:
  assumes "flags_documented fl"
  shows "contains_capability fl (insert_capability fl s c) d \<longleftrightarrow> contains_capability fl s d \<or> d = c"
  using assms
  by (auto simp: contains_capability_bit bit_insert_capability capability_index_inject)

lemma contains_from_caps_loop:
  assumes "flags_documented fl"
  shows "contains_capability fl (from_caps_loop fl s cs) d \<longleftrightarrow> contains_capability fl s d \<or> d \<in> set cs"
  by (induction cs arbitrary: s) (auto simp: contains_insert_capability [OF assms])

lemma contains_from_caps:
  assumes "flags_documented fl"
  shows "contains_capability fl (from_caps fl cs) d \<longleftrightarrow> d \<in> set cs"
  using contains_capability_bit [OF assms, of "CapabilitySet 0"]
  by (simp add: from_caps_def contains_from_caps_loop [OF assms] flag_laws [OF assms])

lemma contains_difference_of:
  assumes "flags_documented fl"
  shows "contains_capability fl (difference_of fl s t) d \<longleftrightarrow>
    contains_capability fl s d \<and> \<not> contains_capability fl t d"
  using capability_index_less [of d]
  by (auto simp: contains_capability_bit [OF assms] difference_of_def flag_laws [OF assms] bit_simps)

lemma difference_empty_imp_contains:
  assumes "flags_documented fl" "fl_is_empty fl (cap_bits (difference_of fl s t))"
    "contains_capability fl s d"
  shows "contains_capability fl t d"
proof -
  have "cap_bits (difference_of fl s t) = 0"
    using assms(1,2) by (simp add: flag_laws)
  then have "\<not> contains_capability fl (difference_of fl s t) d"
    using assms(1) by (simp add: contains_capability_bit)
  with assms(1,3) show ?thesis by (simp add: contains_difference_of)
qed

lemma set_all_capabilities: "set all_capabilities = UNIV"
proof -
  have "c \<in> set all_capabilities" for c by (cases c) (simp_all add: all_capabilities_def)
  then show ?thesis by blast
qed

lemma set_iter_capabilities: "set (iter_capabilities fl s) = {c. contains_capability fl s c}"
  by (simp add: iter_capabilities_def set_all_capabilities)

section \<open>Scalar decoding\<close>

lemma decode_scalar_u64_le [simp]:
  "length bytes = 8 \<Longrightarrow> decode_scalar bytes LittleEndian = Inr (from_le_bytes bytes :: u64)"
  by (simp add: decode_scalar_def scalar_width_def)

end
