(* ===== verification/Driver_Api.thy ===== *)
theory Driver_Api
  imports Vmi_Types
begin

text \<open>
  The crate \<open>vmi-driver-api\<close>: the provider-facing traits. A trait object is its operations
  over the implementation's state \<open>'s\<close>; \<open>&mut [u8]\<close> arguments are passed in and returned
  together with the result. \<open>session\<close> keeps every facet as an optional override, so the trait's
  default methods are the \<open>None\<close> case. The locale \<open>byte_memory\<close> is the contract that the
  readers below and the session layer rely on.
\<close>

section \<open>Access traits\<close>

type_synonym read_into = "gpa \<Rightarrow> u8 list \<Rightarrow> u8 list \<times> unit result"
type_synonym 's memory_access = "'s \<Rightarrow> read_into"
type_synonym 's memory_write_access = "'s \<Rightarrow> gpa \<Rightarrow> u8 list \<Rightarrow> 's \<times> unit result"

record 's cpu_access =
  read_register :: "'s \<Rightarrow> u32 \<Rightarrow> string \<Rightarrow> u64 result"
  write_register :: "'s \<Rightarrow> u32 \<Rightarrow> string \<Rightarrow> u64 \<Rightarrow> 's \<times> unit result"

datatype execution_state = Running | Paused | Shutdown | UnknownState

record 's control_access =
  execution_state_of :: "'s \<Rightarrow> execution_state result"
  pause :: "'s \<Rightarrow> 's \<times> unit result"
  resume :: "'s \<Rightarrow> 's \<times> unit result"

record vmi_event =
  event_kind :: string
  event_vcpu :: "u32 option"
  event_address :: "gpa option"

type_synonym 's event_access = "'s \<Rightarrow> 's \<times> vmi_event option result"

record 's view_access =
  active_view :: "'s \<Rightarrow> u16 result"
  switch_view :: "'s \<Rightarrow> u16 \<Rightarrow> 's \<times> unit result"

record 's acquisition_access =
  save_physical_range :: "'s \<Rightarrow> string \<Rightarrow> gpa \<Rightarrow> u64 \<Rightarrow> 's \<times> unit result"
  save_snapshot :: "'s \<Rightarrow> string \<Rightarrow> 's \<times> unit result"

datatype lifecycle_event =
    Reconnected u64
  | Rebooted u64
  | MemoryTopologyChanged u64
  | Destroyed u64

fun event_generation :: "lifecycle_event \<Rightarrow> u64" where
  "event_generation (Reconnected g) = g"
| "event_generation (Rebooted g) = g"
| "event_generation (MemoryTopologyChanged g) = g"
| "event_generation (Destroyed g) = g"

record 's lifecycle_access =
  generation :: "'s \<Rightarrow> u64"
  next_lifecycle_event :: "'s \<Rightarrow> 's \<times> lifecycle_event option result"

section \<open>Cooperative cancellation\<close>

text \<open>
  The token is a shared atomic flag that other threads may set at any time, so an operation that
  checks it twice takes the two observed values as arguments.
\<close>

definition cancellation_check :: "bool \<Rightarrow> string \<Rightarrow> unit result" where
  "cancellation_check is_cancelled operation =
     (if is_cancelled then Inl (Cancelled operation) else Inr ())"

definition read_into_cancellable ::
  "read_into \<Rightarrow> gpa \<Rightarrow> u8 list \<Rightarrow> bool \<Rightarrow> bool \<Rightarrow> u8 list \<times> unit result" where
  "read_into_cancellable read address buffer before after =
     (case cancellation_check before ''memory read'' of
        Inl e \<Rightarrow> (buffer, Inl e)
      | Inr _ \<Rightarrow>
          (case read address buffer of
             (buffer', Inl e) \<Rightarrow> (buffer', Inl e)
           | (buffer', Inr _) \<Rightarrow> (buffer', cancellation_check after ''memory read'')))"

definition next_event_cancellable ::
  "'s event_access \<Rightarrow> 's \<Rightarrow> bool \<Rightarrow> bool \<Rightarrow> 's \<times> vmi_event option result" where
  "next_event_cancellable next s before after =
     (case cancellation_check before ''event wait'' of
        Inl e \<Rightarrow> (s, Inl e)
      | Inr _ \<Rightarrow>
          (case next s of
             (s', Inl e) \<Rightarrow> (s', Inl e)
           | (s', Inr event) \<Rightarrow>
               (s', and_then (cancellation_check after ''event wait'') (\<lambda>_. Inr event))))"

text \<open>The two acquisition operations share the shape; \<open>save\<close> is the uncancelled operation.\<close>

definition save_cancellable ::
  "string \<Rightarrow> ('s \<Rightarrow> 's \<times> unit result) \<Rightarrow> 's \<Rightarrow> bool \<Rightarrow> bool \<Rightarrow> 's \<times> unit result" where
  "save_cancellable operation save s before after =
     (case cancellation_check before operation of
        Inl e \<Rightarrow> (s, Inl e)
      | Inr _ \<Rightarrow>
          (case save s of
             (s', Inl e) \<Rightarrow> (s', Inl e)
           | (s', Inr _) \<Rightarrow> (s', cancellation_check after operation)))"

definition save_physical_range_cancellable ::
  "'s acquisition_access \<Rightarrow> 's \<Rightarrow> string \<Rightarrow> gpa \<Rightarrow> u64 \<Rightarrow> bool \<Rightarrow> bool \<Rightarrow> 's \<times> unit result" where
  "save_physical_range_cancellable acq s path start len =
     save_cancellable ''physical range acquisition'' (\<lambda>s. save_physical_range acq s path start len) s"

definition save_snapshot_cancellable ::
  "'s acquisition_access \<Rightarrow> 's \<Rightarrow> string \<Rightarrow> bool \<Rightarrow> bool \<Rightarrow> 's \<times> unit result" where
  "save_snapshot_cancellable acq s path =
     save_cancellable ''snapshot acquisition'' (\<lambda>s. save_snapshot acq s path) s"

section \<open>Sessions\<close>

definition missing_capability :: "string \<Rightarrow> capability \<Rightarrow> vmi_error result" where
  "missing_capability id_text capability =
     and_then (try_clone_text Backend ''failed to allocate missing-capability provider ID'' id_text)
       (\<lambda>provider. Inr (CapabilityMissing provider capability))"

text \<open>\<open>Err(missing(..)?)\<close>: an error either way.\<close>

definition err_of :: "vmi_error result \<Rightarrow> 'a result" where
  "err_of r = (case r of Inl e \<Rightarrow> Inl e | Inr e \<Rightarrow> Inl e)"

record 's session =
  provider :: "'s \<Rightarrow> provider_descriptor"
  target :: "'s \<Rightarrow> target_descriptor"
  capabilities :: "'s \<Rightarrow> capability_set"
  memory_impl :: "('s \<Rightarrow> 's memory_access result) option"
  memory_write_impl :: "('s \<Rightarrow> 's memory_write_access result) option"
  cpu_impl :: "('s \<Rightarrow> 's cpu_access result) option"
  control_impl :: "('s \<Rightarrow> 's control_access result) option"
  events_impl :: "('s \<Rightarrow> 's event_access result) option"
  views_impl :: "('s \<Rightarrow> 's view_access result) option"
  acquisition_impl :: "('s \<Rightarrow> 's acquisition_access result) option"
  lifecycle_impl :: "('s \<Rightarrow> 's lifecycle_access result) option"

definition facet_or_missing ::
  "'s session \<Rightarrow> capability \<Rightarrow> ('s \<Rightarrow> 'f result) option \<Rightarrow> 's \<Rightarrow> 'f result" where
  "facet_or_missing ops capability impl s =
     (case impl of
        Some f \<Rightarrow> f s
      | None \<Rightarrow> err_of (missing_capability (provider_id (provider ops s)) capability))"

definition session_memory :: "'s session \<Rightarrow> 's \<Rightarrow> 's memory_access result" where
  "session_memory ops = facet_or_missing ops MemoryRead (memory_impl ops)"

definition session_memory_write :: "'s session \<Rightarrow> 's \<Rightarrow> 's memory_write_access result" where
  "session_memory_write ops = facet_or_missing ops MemoryWrite (memory_write_impl ops)"

definition session_cpu :: "'s session \<Rightarrow> 's \<Rightarrow> 's cpu_access result" where
  "session_cpu ops = facet_or_missing ops RegisterRead (cpu_impl ops)"

definition session_control :: "'s session \<Rightarrow> 's \<Rightarrow> 's control_access result" where
  "session_control ops = facet_or_missing ops Control (control_impl ops)"

definition session_events :: "'s session \<Rightarrow> 's \<Rightarrow> 's event_access result" where
  "session_events ops = facet_or_missing ops Events (events_impl ops)"

definition session_views :: "'s session \<Rightarrow> 's \<Rightarrow> 's view_access result" where
  "session_views ops = facet_or_missing ops MemoryView (views_impl ops)"

definition session_acquisition :: "'s session \<Rightarrow> 's \<Rightarrow> 's acquisition_access result" where
  "session_acquisition ops = facet_or_missing ops Acquisition (acquisition_impl ops)"

definition session_lifecycle :: "'s session \<Rightarrow> 's \<Rightarrow> 's lifecycle_access result" where
  "session_lifecycle ops = facet_or_missing ops Lifecycle (lifecycle_impl ops)"

section \<open>Reading through a memory facet\<close>

definition allocate_read_buffer :: "usize \<Rightarrow> u8 list result" where
  "allocate_read_buffer len =
     (if reservable len then Inr (replicate len 0)
      else Inl (Backend (''failed to allocate '' @ dec len @ ''-byte read buffer: ''
        @ capacity_overflow)))"

definition read_scalar :: "read_into \<Rightarrow> gpa \<Rightarrow> byte_order \<Rightarrow> 'a::len word result" where
  "read_scalar memory address order =
     and_then (allocate_read_buffer (scalar_width TYPE('a word))) (\<lambda>buffer.
       case memory address buffer of
         (buffer', r) \<Rightarrow>
           and_then r (\<lambda>_. map_err ScalarDecode (decode_scalar buffer' order)))"

definition read_bytes :: "read_into \<Rightarrow> gpa \<Rightarrow> usize \<Rightarrow> u8 list result" where
  "read_bytes memory address len =
     and_then (allocate_read_buffer len) (\<lambda>buffer.
       case memory address buffer of
         (buffer', r) \<Rightarrow> and_then r (\<lambda>_. Inr buffer'))"

definition write_bytes :: "'s memory_write_access \<Rightarrow> 's \<Rightarrow> gpa \<Rightarrow> u8 list \<Rightarrow> 's \<times> unit result" where
  "write_bytes memory s address data = memory s address data"

text \<open>A memory that holds 64-bit little-endian words at given addresses, as page-table fixtures do.\<close>

definition table_memory :: "(u64 \<times> u64) list \<Rightarrow> read_into" where
  "table_memory entries address buffer =
     (case map_of entries (gpa_raw address) of
        Some v \<Rightarrow>
          (if length buffer = 8 then (to_le_bytes v, Inr ())
           else (buffer, Inl (ReadFailed (gpa_raw address) (length buffer))))
      | None \<Rightarrow> (buffer, Inl (ReadFailed (gpa_raw address) (length buffer))))"

section \<open>Lemmas\<close>

lemma err_of_is_error [simp]: "err_of r \<noteq> Inr x"
  by (simp add: err_of_def split: sum.splits)

lemma reservable_8 [simp]: "reservable 8"
  by (simp add: reservable_def isize_max_def)

lemma reservable_mono: "reservable n \<Longrightarrow> m \<le> n \<Longrightarrow> reservable m"
  by (simp add: reservable_def)

lemma reservable_less: "reservable n \<Longrightarrow> n < 2 ^ 63"
  by (simp add: reservable_def isize_max_def)

lemma allocate_read_buffer_ok [simp]: "reservable n \<Longrightarrow> allocate_read_buffer n = Inr (replicate n 0)"
  by (simp add: allocate_read_buffer_def)

lemma read_scalar_u64:
  "read_scalar memory address LittleEndian =
     and_then (read_bytes memory address 8) (\<lambda>bytes.
       map_err ScalarDecode (decode_scalar bytes LittleEndian :: scalar_decode_error + u64))"
  by (simp add: read_scalar_def read_bytes_def scalar_width_def and_then_assoc split: prod.splits)

lemma read_table_memory:
  "read_scalar (table_memory entries) (Gpa a) LittleEndian =
     (case map_of entries a of Some v \<Rightarrow> Inr v | None \<Rightarrow> Inl (ReadFailed a 8))"
  by (simp add: read_scalar_u64 read_bytes_def table_memory_def from_to_le_bytes_u64
      split: option.splits)

text \<open>A cancelled operation never reports success, and an uncancelled one is the plain read.\<close>

lemma read_into_cancellable_ok:
  "snd (read_into_cancellable read a buf before after) = Inr () \<longleftrightarrow>
     \<not> before \<and> \<not> after \<and> snd (read a buf) = Inr ()"
  by (auto simp: read_into_cancellable_def cancellation_check_def split: prod.splits sum.splits)

lemma read_into_cancellable_before:
  "read_into_cancellable read a buf True after = (buf, Inl (Cancelled ''memory read''))"
  by (simp add: read_into_cancellable_def cancellation_check_def)

section \<open>The contract of physical memory access\<close>

text \<open>
  \<open>byte_at m n\<close> is the byte at physical address \<open>n\<close>, \<open>None\<close> where nothing is mapped. A read
  succeeds exactly when every requested byte is mapped, and then returns those bytes.
\<close>

definition reads_bytes :: "read_into \<Rightarrow> (nat \<Rightarrow> u8 option) \<Rightarrow> bool" where
  "reads_bytes rd bytes \<longleftrightarrow>
     (\<forall>a buf. length buf < usize_bound \<longrightarrow>
        length (fst (rd a buf)) = length buf \<and>
        (snd (rd a buf) = Inr () \<longleftrightarrow> (\<forall>i < length buf. bytes (unat (gpa_raw a) + i) \<noteq> None)) \<and>
        (snd (rd a buf) = Inr () \<longrightarrow>
           (\<forall>i < length buf. bytes (unat (gpa_raw a) + i) = Some (fst (rd a buf) ! i))))"

lemma reads_bytesD:
  assumes "reads_bytes rd bytes" "rd a buf = (buf', r)" "length buf < usize_bound"
  shows "length buf' = length buf"
    "r = Inr () \<longleftrightarrow> (\<forall>i < length buf. bytes (unat (gpa_raw a) + i) \<noteq> None)"
    "r = Inr () \<Longrightarrow> i < length buf \<Longrightarrow> bytes (unat (gpa_raw a) + i) = Some (buf' ! i)"
  using assms unfolding reads_bytes_def by (metis fst_conv snd_conv)+

lemma reservable_usize: "reservable n \<Longrightarrow> n < usize_bound"
  by (simp add: reservable_def isize_max_def usize_bound_def)

locale byte_memory =
  fixes read :: "'m \<Rightarrow> read_into"
    and byte_at :: "'m \<Rightarrow> nat \<Rightarrow> u8 option"
    and inv :: "'m \<Rightarrow> bool"
  assumes read_len: "inv m \<Longrightarrow> length buf < usize_bound \<Longrightarrow> length (fst (read m a buf)) = length buf"
    and read_succeeds: "inv m \<Longrightarrow> length buf < usize_bound \<Longrightarrow>
      snd (read m a buf) = Inr () \<longleftrightarrow>
      (\<forall>i < length buf. byte_at m (unat (gpa_raw a) + i) \<noteq> None)"
    and read_content: "inv m \<Longrightarrow> length buf < usize_bound \<Longrightarrow>
      snd (read m a buf) = Inr () \<Longrightarrow> i < length buf \<Longrightarrow>
      byte_at m (unat (gpa_raw a) + i) = Some (fst (read m a buf) ! i)"
begin

lemma memory_reads_bytes: "inv m \<Longrightarrow> reads_bytes (read m) (byte_at m)"
  by (simp add: reads_bytes_def read_len read_succeeds read_content)

lemma read_bytes_Inr:
  assumes "inv m" "reservable n"
  shows "read_bytes (read m) a n = Inr bs \<longleftrightarrow>
    length bs = n \<and> (\<forall>i < n. byte_at m (unat (gpa_raw a) + i) = Some (bs ! i))"
proof -
  obtain buf r where br: "read m a (replicate n 0) = (buf, r)"
    by fastforce
  have bound: "length (replicate n (0 :: u8)) < usize_bound"
    using reservable_usize [OF assms(2)] by simp
  have len: "length buf = n"
    using read_len [OF assms(1) bound, of a] br by simp
  have ok: "r = Inr () \<longleftrightarrow> (\<forall>i < n. byte_at m (unat (gpa_raw a) + i) \<noteq> None)"
    using read_succeeds [OF assms(1) bound, of a] br by simp
  have cont: "r = Inr () \<Longrightarrow> i < n \<Longrightarrow> byte_at m (unat (gpa_raw a) + i) = Some (buf ! i)" for i
    using read_content [OF assms(1) bound, of a i] br by simp
  show ?thesis
  proof (cases "r = Inr ()")
    case True
    then have "read_bytes (read m) a n = Inr buf"
      using br assms(2) by (simp add: read_bytes_def)
    with cont [OF True] len show ?thesis
      by (auto intro!: nth_equalityI)
  next
    case False
    then have "read_bytes (read m) a n \<noteq> Inr bs"
      using br assms(2) by (cases r) (simp_all add: read_bytes_def)
    with ok False show ?thesis by auto
  qed
qed

lemma read_u64_Inr:
  assumes "inv m"
  shows "read_scalar (read m) a LittleEndian = Inr (v :: u64) \<longleftrightarrow>
    (\<forall>i < 8. byte_at m (unat (gpa_raw a) + i) = Some (to_le_bytes v ! i))"
    (is "?l \<longleftrightarrow> ?r")
proof -
  have "?l \<longleftrightarrow> (\<exists>bs. length bs = 8 \<and>
      (\<forall>i < 8. byte_at m (unat (gpa_raw a) + i) = Some (bs ! i)) \<and> from_le_bytes bs = v)"
    by (auto simp: read_scalar_u64 read_bytes_Inr [OF assms])
  moreover have "length bs = 8 \<and> from_le_bytes bs = v \<longleftrightarrow> bs = to_le_bytes v" for bs
    using to_from_le_bytes_u64 [of bs] from_to_le_bytes_u64 [of v] by auto
  ultimately show ?thesis
    by (metis (no_types, lifting))
qed

end

text \<open>A flat memory that starts at address 0, the smallest memory that meets the contract.\<close>

definition flat_memory :: "u8 list \<Rightarrow> read_into" where
  "flat_memory data address buffer =
     (let a = unat (gpa_raw address) in
      if buffer = [] then (buffer, Inr ())
      else
        (case get_range data a (a + length buffer) of
           Some bytes \<Rightarrow> (bytes, Inr ())
         | None \<Rightarrow> (buffer, Inl (ReadFailed (gpa_raw address) (length buffer)))))"

definition flat_byte :: "u8 list \<Rightarrow> nat \<Rightarrow> u8 option" where
  "flat_byte data n = get_at data n"

interpretation flat: byte_memory flat_memory flat_byte "\<lambda>_. True"
proof
  fix data a and buf :: "u8 list" and i
  show "length (fst (flat_memory data a buf)) = length buf"
    by (auto simp: flat_memory_def Let_def get_range_def)
  show ok: "snd (flat_memory data a buf) = Inr () \<longleftrightarrow>
      (\<forall>i < length buf. flat_byte data (unat (gpa_raw a) + i) \<noteq> None)"
  proof (cases "unat (gpa_raw a) + length buf \<le> length data \<or> buf = []")
    case True
    then show ?thesis
      by (auto simp: flat_memory_def Let_def get_range_def flat_byte_def get_at_def)
  next
    case False
    then have "length buf - 1 < length buf" "flat_byte data (unat (gpa_raw a) + (length buf - 1)) = None"
      by (auto simp: flat_byte_def get_at_def)
    then have "\<exists>i < length buf. flat_byte data (unat (gpa_raw a) + i) = None"
      by blast
    with False show ?thesis
      by (auto simp: flat_memory_def Let_def get_range_def)
  qed
  assume "snd (flat_memory data a buf) = Inr ()" "i < length buf"
  then show "flat_byte data (unat (gpa_raw a) + i) = Some (fst (flat_memory data a buf) ! i)"
    by (auto simp: flat_memory_def Let_def flat_byte_def get_at_def get_range_def split: if_splits)
qed

end
