(* ===== verification/Arch_Api.thy ===== *)
theory Arch_Api
  imports Driver_Api
begin

text \<open>
  The crate \<open>vmi-arch-api\<close>: the result of a translation and the \<open>AddressTranslator\<close> trait.
  The locale \<open>page_translator\<close> states what the session's page cache relies on: within a 4 KiB
  page, a translation differs from the translation of the page's first address only by the
  offset. The bit lemmas of both page-table walkers are collected here.
\<close>

record translation =
  physical_address :: gpa
  page_size :: u64

definition translation_new :: "gpa \<Rightarrow> u64 \<Rightarrow> translation" where
  "translation_new p s = \<lparr>physical_address = p, page_size = s\<rparr>"

record address_translator =
  cache_tag :: u64
  translate :: "read_into \<Rightarrow> translation_root \<Rightarrow> gva \<Rightarrow> translation result"

section \<open>Bits of addresses\<close>

lemma mask_constants [mask_simps]:
  "(0xfff :: u64) = mask 12" "(0x1fffff :: u64) = mask 21" "(0x3fffffff :: u64) = mask 30"
  "(0x1ff :: u64) = mask 9"
  by (simp_all add: mask_eq_exp_minus_1)

lemma unat_and_mask: "unat (w AND mask k) = unat w mod 2 ^ k" for w :: "'a::len word"
  by (metis take_bit_eq_mask take_bit_eq_mod unsigned_take_bit_eq)

lemma unat_or_disjoint:
  "a AND b = 0 \<Longrightarrow> unat (a OR b) = unat a + unat b" for a b :: "'a::len word"
  by (metis disjunctive_add_eq_or unsigned_0 unsigned_and_eq unsigned_or_eq)

lemma and_not_mask_disjoint: "(w AND NOT (mask k)) AND (v AND mask k) = 0" for w v :: "'a::len word"
  by (rule bit_word_eqI) (auto simp: bit_simps)

lemma unat_and_not_mask: "unat (w AND NOT (mask k)) = unat w div 2 ^ k * 2 ^ k"
  for w :: "'a::len word"
proof -
  have "w = (w AND NOT (mask k)) OR (w AND mask k)"
    by (rule bit_word_eqI) (auto simp: bit_simps)
  then have "unat w = unat (w AND NOT (mask k)) + unat w mod 2 ^ k"
    by (metis and_not_mask_disjoint unat_and_mask unat_or_disjoint)
  then show ?thesis
    by (metis add_right_cancel div_mult_mod_eq)
qed

lemma unat_and_frame:
  "unat (w AND (mask m AND NOT (mask k))) = unat w mod 2 ^ m div 2 ^ k * 2 ^ k"
  for w :: "'a::len word"
  by (simp add: unat_and_not_mask unat_and_mask flip: and.assoc)

text \<open>The physical address of a leaf entry: frame bits of the entry, offset bits of the address.\<close>

lemma unat_leaf:
  "unat ((e AND (mask m AND NOT (mask k))) OR (v AND mask k)) =
     unat e mod 2 ^ m div 2 ^ k * 2 ^ k + unat v mod 2 ^ k" for e v :: "'a::len word"
proof -
  have "(e AND (mask m AND NOT (mask k))) AND (v AND mask k) = 0"
    by (rule bit_word_eqI) (auto simp: bit_simps)
  then show ?thesis
    by (simp only: unat_or_disjoint unat_and_frame unat_and_mask)
qed

lemma unat_entry_index: "unat (drop_bit n v AND mask k) = unat v div 2 ^ n mod 2 ^ k"
  for v :: "'a::len word"
  by (simp only: unat_and_mask unat_drop_bit_eq) (simp add: drop_bit_eq_div)

lemma push_bit_one_nonzero: "n < 64 \<Longrightarrow> (push_bit n 1 :: u64) \<noteq> 0"
proof -
  assume "n < 64"
  then have "bit (push_bit n 1 :: u64) n"
    by (simp add: bit_simps)
  then show ?thesis
    by (metis bit_0_eq bot_apply bot_bool_def)
qed

lemma bit_is_and_pow: "w AND push_bit n 1 = 0 \<longleftrightarrow> \<not> bit w n" for w :: u64
proof -
  have "w AND push_bit n 1 = (if bit w n then push_bit n 1 else 0)"
    by (rule bit_word_eqI) (auto simp: bit_simps)
  then show ?thesis
    using push_bit_one_nonzero [of n] bit_imp_le_length [of w n] by auto
qed

lemma checked_low_mask: "b < 64 \<Longrightarrow> checked_sub (push_bit b 1 :: u64) 1 = Some (mask b)"
proof -
  assume "b < 64"
  then have "(1 :: u64) \<le> push_bit b 1"
    using push_bit_one_nonzero [of b] by (metis not_less word_less_1)
  then show ?thesis
    by (simp add: checked_sub_def mask_eq_exp_minus_1 push_bit_eq_mult)
qed

lemma u64_eq_iff_bits: "v = w \<longleftrightarrow> (\<forall>n < 64. bit v n = bit w n)" for v w :: u64
  by (auto intro: bit_word_eqI)

text \<open>The mask test of both \<open>is_canonical\<close> functions: the upper bits repeat bit \<open>b - 1\<close>.\<close>

lemma canonical_mask_test:
  "a AND NOT (mask b) = (if a AND push_bit (b - Suc 0) 1 = 0 then 0 else NOT (mask b)) \<longleftrightarrow>
     (\<forall>n. b \<le> n \<and> n < 64 \<longrightarrow> bit a n = bit a (b - Suc 0))" for a :: u64
  unfolding u64_eq_iff_bits [of _ "if _ then _ else _"] bit_is_and_pow
  by (auto simp: bit_simps not_less)

lemma signed_take_bit_eq_self:
  fixes a :: u64
  assumes "0 < b"
  shows "signed_take_bit (b - Suc 0) a = a \<longleftrightarrow>
    (\<forall>n. b \<le> n \<and> n < 64 \<longrightarrow> bit a n = bit a (b - Suc 0))" (is "?l \<longleftrightarrow> ?r")
proof
  assume eq: ?l
  have "bit (signed_take_bit (b - Suc 0) a) n = bit a (b - Suc 0)" if "b \<le> n" "n < 64" for n
    using that by (simp add: bit_signed_take_bit_iff min_absorb2)
  then show ?r by (simp add: eq)
next
  assume r: ?r
  have "bit (signed_take_bit (b - Suc 0) a) n = bit a n" if n: "n < 64" for n
  proof (cases "b \<le> n")
    case True
    with n r show ?thesis by (simp add: bit_signed_take_bit_iff min_absorb2)
  next
    case False
    then have "min n (b - Suc 0) = n" by simp
    with n show ?thesis by (simp add: bit_signed_take_bit_iff)
  qed
  then show ?l by (intro bit_word_eqI) simp
qed

section \<open>The first address of a page\<close>

definition page_base :: "u64 \<Rightarrow> u64" where
  "page_base va = va AND NOT 0xfff"

lemma page_base_mask: "page_base va = va AND NOT (mask 12)"
  by (simp only: page_base_def mask_simps)

lemma bit_page_base: "12 \<le> n \<Longrightarrow> bit (page_base va) n = bit va n"
  by (auto simp: page_base_mask bit_simps dest: bit_imp_le_length)

lemma drop_bit_page_base: "12 \<le> n \<Longrightarrow> drop_bit n (page_base va) = drop_bit n va"
  by (rule bit_word_eqI) (simp add: bit_simps bit_page_base)

lemma unat_page_base: "unat (page_base va) = unat va div 4096 * 4096"
  unfolding page_base_mask unat_and_not_mask by simp

lemma page_base_idem [simp]: "page_base (page_base va) = page_base va"
  by (simp add: page_base_def and.assoc)

lemma page_offset_add:
  assumes "12 \<le> k"
  shows "unat (page_base va) mod 2 ^ k + unat va mod 4096 = unat va mod 2 ^ k"
proof -
  define n where "n = unat va"
  define j :: nat where "j = 2 ^ (k - 12)"
  have "(2::nat) ^ k = 4096 * j"
    using assms power_add [of "2::nat" 12 "k - 12"] by (simp add: j_def)
  moreover have "n div 4096 * 4096 mod (4096 * j) = 4096 * (n div 4096 mod j)"
    by (metis mult.commute mult_mod_right)
  ultimately have "n div 4096 * 4096 mod 2 ^ k + n mod 4096 = n mod 2 ^ k"
    by (simp add: mod_mult2_eq)
  then show ?thesis
    by (simp add: unat_page_base n_def)
qed

section \<open>Page-table entries\<close>

text \<open>What one entry decides: an error, the final translation, or the next table.\<close>

datatype level_outcome = Leaf translation | NextTable u64

definition reads_entry :: "read_into \<Rightarrow> nat \<Rightarrow> u64 \<Rightarrow> bool" where
  "reads_entry rd address entry \<longleftrightarrow> read_scalar rd (Gpa (of_nat address)) LittleEndian = Inr entry"

definition frame :: "nat \<Rightarrow> nat \<Rightarrow> u64 \<Rightarrow> nat" where
  "frame m k entry = unat entry mod 2 ^ m div 2 ^ k * 2 ^ k"

lemma outcome_continue:
  "(\<exists>x. r = Inr x \<and> (case x of Leaf t \<Rightarrow> Inr t | NextTable table \<Rightarrow> f table) = Inr t) \<longleftrightarrow>
     r = Inr (Leaf t) \<or> (\<exists>table. r = Inr (NextTable table) \<and> f table = Inr t)"
  by (auto split: level_outcome.splits) (metis level_outcome.exhaust)

section \<open>The contract of address translators\<close>

text \<open>
  \<open>page_shifted va r0 r\<close>: \<open>r\<close> is the outcome \<open>r0\<close> of the page base, moved by the page
  offset of \<open>va\<close>; failures agree in their category (the address they report may differ).
\<close>

definition page_shifted :: "u64 \<Rightarrow> translation result \<Rightarrow> translation result \<Rightarrow> bool" where
  "page_shifted va r0 r =
     (case r0 of
        Inl e \<Rightarrow> (case r of Inl e' \<Rightarrow> error_kind e' = error_kind e | Inr t \<Rightarrow> False)
      | Inr t0 \<Rightarrow>
          (case r of
             Inl e \<Rightarrow> False
           | Inr t \<Rightarrow> page_size t = page_size t0 \<and>
               unat (gpa_raw (physical_address t)) =
                 unat (gpa_raw (physical_address t0)) + unat va mod 4096))"

lemma page_shifted_Inl: "error_kind e' = error_kind e \<Longrightarrow> page_shifted va (Inl e) (Inl e')"
  by (simp add: page_shifted_def)

lemma page_shifted_and_then:
  assumes "r0 = r" "\<And>x. r = Inr x \<Longrightarrow> page_shifted va (f0 x) (f x)"
  shows "page_shifted va (and_then r0 f0) (and_then r f)"
  using assms by (cases r) (auto simp: page_shifted_Inl)

text \<open>Leaves: \<open>m\<close> physical address bits, pages of \<open>2 ^ k\<close> bytes.\<close>

definition leaf_translation :: "nat \<Rightarrow> nat \<Rightarrow> u64 \<Rightarrow> u64 \<Rightarrow> translation" where
  "leaf_translation m k entry va =
     translation_new (Gpa ((entry AND (mask m AND NOT (mask k))) OR (va AND mask k))) (push_bit k 1)"

lemma leaf_translation_simps:
  "page_size (leaf_translation m k entry va) = push_bit k 1"
  "unat (gpa_raw (physical_address (leaf_translation m k entry va))) =
     unat entry mod 2 ^ m div 2 ^ k * 2 ^ k + unat va mod 2 ^ k"
  unfolding leaf_translation_def translation_new_def by (simp_all add: unat_leaf)

lemma leaf_translation_page:
  "12 \<le> k \<Longrightarrow>
    page_shifted va (Inr (leaf_translation m k entry (page_base va))) (Inr (leaf_translation m k entry va))"
  using page_offset_add [of k va]
  by (simp add: page_shifted_def leaf_translation_simps)

lemma unat_push_bit_one: "k < 64 \<Longrightarrow> unat (push_bit k 1 :: u64) = 2 ^ k"
proof -
  assume "k < 64"
  then have "(2::nat) ^ k < 2 ^ 64"
    by (rule power_strict_increasing) simp
  then have "unat (of_nat (2 ^ k) :: u64) = 2 ^ k"
    unfolding unat_of_nat by simp
  then show ?thesis by simp
qed

lemma translation_eq_leaf:
  "k < 64 \<Longrightarrow> t = leaf_translation m k e va \<longleftrightarrow>
     unat (gpa_raw (physical_address t)) = frame m k e + unat va mod 2 ^ k \<and>
     unat (page_size t) = 2 ^ k"
proof -
  assume "k < 64"
  then have "unat (push_bit k 1 :: u64) = 2 ^ k"
    by (rule unat_push_bit_one)
  moreover have "t = t' \<longleftrightarrow> unat (gpa_raw (physical_address t)) = unat (gpa_raw (physical_address t')) \<and>
      unat (page_size t) = unat (page_size t')" for t'
    by (auto intro!: translation.equality gpa.expand simp: word_unat_eq_iff)
  ultimately show ?thesis
    by (simp add: leaf_translation_simps frame_def)
qed

lemma leaf_eq_translation:
  "k < 64 \<Longrightarrow> leaf_translation m k e va = t \<longleftrightarrow>
     unat (gpa_raw (physical_address t)) = frame m k e + unat va mod 2 ^ k \<and>
     unat (page_size t) = 2 ^ k"
  using translation_eq_leaf by metis

lemma frame_mod: "k \<le> m \<Longrightarrow> frame m k e + va mod 2 ^ k < 2 ^ m \<and> (frame m k e + va mod 2 ^ k) mod 2 ^ k = va mod 2 ^ k"
proof -
  assume "k \<le> m"
  define n where "n = unat e mod 2 ^ m div 2 ^ k"
  have split: "(2::nat) ^ m = 2 ^ (m - k) * 2 ^ k"
    using \<open>k \<le> m\<close> by (simp flip: power_add)
  have "unat e mod 2 ^ m < 2 ^ (m - k) * 2 ^ k"
    by (simp flip: split)
  then have "n < 2 ^ (m - k)"
    unfolding n_def by (rule less_mult_imp_div_less)
  then have "n + 1 \<le> 2 ^ (m - k)"
    by simp
  then have "(n + 1) * 2 ^ k \<le> 2 ^ m"
    unfolding split by (rule mult_le_mono1)
  moreover have "va mod 2 ^ k < 2 ^ k"
    by simp
  ultimately have "n * 2 ^ k + va mod 2 ^ k < 2 ^ m"
    unfolding add_mult_distrib by linarith
  moreover have "(n * 2 ^ k + va mod 2 ^ k) mod 2 ^ k = va mod 2 ^ k"
    by simp
  ultimately show ?thesis
    unfolding frame_def n_def by blast
qed

locale page_translator =
  fixes tr :: "read_into \<Rightarrow> translation_root \<Rightarrow> gva \<Rightarrow> translation result"
  assumes page_law: "page_shifted va (tr rd root (Gva (page_base va))) (tr rd root (Gva va))"
begin

lemma page_success:
  assumes "tr rd root (Gva (page_base va)) = Inr t0"
  shows "\<exists>t. tr rd root (Gva va) = Inr t \<and> page_size t = page_size t0 \<and>
    unat (gpa_raw (physical_address t)) =
      unat (gpa_raw (physical_address t0)) + unat va mod 4096"
  using page_law [of va rd root] assms by (simp add: page_shifted_def split: sum.splits)

lemma page_failure:
  assumes "tr rd root (Gva (page_base va)) = Inl e"
  shows "\<exists>e'. tr rd root (Gva va) = Inl e' \<and> error_kind e' = error_kind e"
  using page_law [of va rd root] assms by (simp add: page_shifted_def split: sum.splits)

lemma page_success_iff:
  "tr rd root (Gva va) = Inr t \<longleftrightarrow>
     (\<exists>t0. tr rd root (Gva (page_base va)) = Inr t0 \<and> page_size t = page_size t0 \<and>
        unat (gpa_raw (physical_address t)) =
          unat (gpa_raw (physical_address t0)) + unat va mod 4096)"
    (is "?l \<longleftrightarrow> ?r")
proof (cases "tr rd root (Gva (page_base va))")
  case (Inl e)
  with page_failure show ?thesis by fastforce
next
  case (Inr t0)
  then obtain t' where t': "tr rd root (Gva va) = Inr t'" "page_size t' = page_size t0"
    "unat (gpa_raw (physical_address t')) =
       unat (gpa_raw (physical_address t0)) + unat va mod 4096"
    using page_success by blast
  have "t = t'" if "page_size t = page_size t'"
    "unat (gpa_raw (physical_address t)) = unat (gpa_raw (physical_address t'))"
    using that by (auto intro!: translation.equality gpa.expand simp: word_unat_eq_iff)
  with t' Inr show ?thesis by auto
qed

lemma same_page_same_outcome:
  assumes "page_base va = page_base vb"
  shows "is_ok (tr rd root (Gva va)) = is_ok (tr rd root (Gva vb))"
proof (cases "tr rd root (Gva (page_base va))")
  case (Inl e)
  with assms page_failure [of rd root va e] page_failure [of rd root vb e] show ?thesis by auto
next
  case (Inr t0)
  with assms page_success [of rd root va t0] page_success [of rd root vb t0] show ?thesis by auto
qed

end

end
