(* ===== verification/Arch_Amd64.thy ===== *)
theory Arch_Amd64
  imports Arch_Api
begin

text \<open>
  The crate \<open>vmi-arch-amd64\<close>: canonical addresses and the four- and five-level page-table walk.
  The walk is modelled level by level over an arbitrary memory, then related to the relation
  \<open>amd64_maps\<close>, which describes present and large entries by arithmetic on addresses. The
  interpretations at the end discharge the page contract for both translators.
\<close>

section \<open>The walker (lib.rs)\<close>

definition PRESENT :: u64 where
  "PRESENT = 1"

definition LARGE :: u64 where
  "LARGE = push_bit 7 1"

definition ADDRESS_MASK :: u64 where
  "ADDRESS_MASK = 0x000ffffffffff000"

definition is_canonical :: "u64 \<Rightarrow> u8 \<Rightarrow> bool" where
  "is_canonical address bits =
     (case Option.bind (checked_shl 1 (unat bits)) (\<lambda>v. checked_sub v 1) of
        None \<Rightarrow> False
      | Some low_mask \<Rightarrow>
          (case checked_sub bits 1 of
             None \<Rightarrow> False
           | Some sign_shift \<Rightarrow>
               (case checked_shl 1 (unat sign_shift) of
                  None \<Rightarrow> False
                | Some sign_bit \<Rightarrow>
                    (let expected_upper = (if address AND sign_bit = 0 then 0 else NOT low_mask)
                     in address AND NOT low_mask = expected_upper))))"

definition entry_outcome :: "u64 \<Rightarrow> u8 \<Rightarrow> u64 \<Rightarrow> level_outcome result" where
  "entry_outcome va level entry =
     (if entry AND PRESENT = 0 then Inl (PageNotPresent va level)
      else if entry AND LARGE \<noteq> 0 \<and> level > 3 then Inl (InvalidPageTableEntry entry level)
      else if level = 3 \<and> entry AND LARGE \<noteq> 0 then
        Inr (Leaf (translation_new (Gpa ((entry AND 0x000fffffc0000000) OR (va AND 0x3fffffff)))
          (push_bit 30 1)))
      else if level = 2 \<and> entry AND LARGE \<noteq> 0 then
        Inr (Leaf (translation_new (Gpa ((entry AND 0x000fffffffe00000) OR (va AND 0x1fffff)))
          (push_bit 21 1)))
      else if level = 1 then
        (if entry AND LARGE \<noteq> 0 then Inl (InvalidPageTableEntry entry level)
         else Inr (Leaf (translation_new (Gpa ((entry AND ADDRESS_MASK) OR (va AND 0xfff)))
           (push_bit 12 1))))
      else Inr (NextTable (entry AND ADDRESS_MASK)))"

definition read_entry :: "read_into \<Rightarrow> u64 \<Rightarrow> u8 \<Rightarrow> u64 \<Rightarrow> u64 result" where
  "read_entry memory va shift table =
     (let index = drop_bit (unat shift) va AND 0x1ff in
      and_then (ok_or (checked_mul index 8) (Backend ''AMD64 page-table entry offset overflow''))
        (\<lambda>entry_offset.
      and_then (ok_or (checked_add table entry_offset)
        (Backend ''AMD64 page-table entry address overflow''))
        (\<lambda>entry_address. read_scalar memory (Gpa entry_address) LittleEndian)))"

fun translate_loop :: "read_into \<Rightarrow> u64 \<Rightarrow> usize \<Rightarrow> usize \<Rightarrow> u64 \<Rightarrow> u8 list \<Rightarrow> translation result" where
  "translate_loop memory va n position table [] =
     Inl (Backend ''AMD64 translation level list is empty'')"
| "translate_loop memory va n position table (shift # shifts) =
     and_then (ok_or (usize_checked_sub n position) (Backend ''AMD64 translation level underflow''))
       (\<lambda>remaining.
     and_then (ok_or (if remaining < 256 then Some (of_nat remaining) else None)
       (Backend ''AMD64 translation level overflow''))
       (\<lambda>level.
     and_then (read_entry memory va shift table) (\<lambda>entry.
     and_then (entry_outcome va level entry) (\<lambda>outcome.
       case outcome of
         Leaf t \<Rightarrow> Inr t
       | NextTable table' \<Rightarrow> translate_loop memory va n (position + 1) table' shifts))))"

definition translate_levels ::
  "read_into \<Rightarrow> translation_root \<Rightarrow> gva \<Rightarrow> u8 \<Rightarrow> u8 list \<Rightarrow> translation result" where
  "translate_levels memory root address address_bits shifts =
     (let va = gva_raw address in
      if \<not> is_canonical va address_bits then Inl (NonCanonicalAddress va address_bits)
      else translate_loop memory va (length shifts) 0 (root_raw root AND ADDRESS_MASK) shifts)"

definition amd64_translate :: "read_into \<Rightarrow> translation_root \<Rightarrow> gva \<Rightarrow> translation result" where
  "amd64_translate memory root address = translate_levels memory root address 48 [39, 30, 21, 12]"

definition la57_translate :: "read_into \<Rightarrow> translation_root \<Rightarrow> gva \<Rightarrow> translation result" where
  "la57_translate memory root address = translate_levels memory root address 57 [48, 39, 30, 21, 12]"

definition Amd64Translator :: address_translator where
  "Amd64Translator = \<lparr>cache_tag = 0x414d4436345f3438, translate = amd64_translate\<rparr>"

definition Amd64La57Translator :: address_translator where
  "Amd64La57Translator = \<lparr>cache_tag = 0x414d4436345f3537, translate = la57_translate\<rparr>"

section \<open>Masks and canonical addresses\<close>

lemma amd64_masks [mask_simps]:
  "ADDRESS_MASK = mask 52 AND NOT (mask 12)"
  "(0x000fffffc0000000 :: u64) = mask 52 AND NOT (mask 30)"
  "(0x000fffffffe00000 :: u64) = mask 52 AND NOT (mask 21)"
  by (simp_all add: ADDRESS_MASK_def mask_eq_exp_minus_1)

lemma is_canonical_bits:
  assumes "0 < unat bits" "unat bits < 64"
  shows "is_canonical a bits \<longleftrightarrow> (\<forall>n. unat bits \<le> n \<and> n < 64 \<longrightarrow> bit a n = bit a (unat bits - 1))"
proof -
  have "checked_sub bits 1 = Some (bits - 1)" "unat (bits - 1) = unat bits - Suc 0"
    using assms by (auto simp: checked_sub_def word_le_nat_alt unat_sub)
  moreover have "unat bits - Suc 0 < 64"
    using assms by simp
  ultimately show ?thesis
    using assms canonical_mask_test [of a "unat bits"] checked_low_mask [of "unat bits"]
    by (simp add: is_canonical_def checked_shl_def Let_def)
qed

lemma entry_bits:
  "entry AND PRESENT = 0 \<longleftrightarrow> \<not> bit entry 0"
  "entry AND LARGE = 0 \<longleftrightarrow> \<not> bit entry 7"
  using bit_is_and_pow [of entry 0] bit_is_and_pow [of entry 7]
  by (simp_all add: PRESENT_def LARGE_def)

lemma is_canonical_page_base:
  assumes "12 < unat bits" "unat bits < 64"
  shows "is_canonical (page_base va) bits = is_canonical va bits"
  using assms by (simp add: is_canonical_bits bit_page_base)

section \<open>Outcomes of single entries\<close>

lemma entry_outcome_leaf:
  "entry_outcome va level entry =
     (if \<not> bit entry 0 then Inl (PageNotPresent va level)
      else if bit entry 7 \<and> (level > 3 \<or> level = 1) then Inl (InvalidPageTableEntry entry level)
      else if level = 3 \<and> bit entry 7 then Inr (Leaf (leaf_translation 52 30 entry va))
      else if level = 2 \<and> bit entry 7 then Inr (Leaf (leaf_translation 52 21 entry va))
      else if level = 1 then Inr (Leaf (leaf_translation 52 12 entry va))
      else Inr (NextTable (entry AND (mask 52 AND NOT (mask 12)))))"
  by (simp add: entry_outcome_def entry_bits leaf_translation_def mask_simps)

lemma read_entry_page_base:
  "12 \<le> unat shift \<Longrightarrow> read_entry memory (page_base va) shift table = read_entry memory va shift table"
  by (simp add: read_entry_def drop_bit_page_base)

lemma entry_index_offset:
  "unat ((drop_bit n va AND 0x1ff) * 8) = 8 * (unat va div 2 ^ n mod 512)"
  "checked_mul (drop_bit n va AND 0x1ff) 8 = Some ((drop_bit n va AND 0x1ff) * 8)" for va :: u64
proof -
  have i: "unat (drop_bit n va AND 0x1ff) = unat va div 2 ^ n mod 512"
    unfolding mask_simps unat_entry_index by simp
  then have b: "unat (drop_bit n va AND 0x1ff) < 512" by simp
  show "checked_mul (drop_bit n va AND 0x1ff) 8 = Some ((drop_bit n va AND 0x1ff) * 8)"
    using b by (simp add: checked_mul_def)
  then show "unat ((drop_bit n va AND 0x1ff) * 8) = 8 * (unat va div 2 ^ n mod 512)"
    using unat_checked_mul [of "drop_bit n va AND 0x1ff" 8] i by simp
qed

text \<open>A table address below \<open>2 ^ 52 - 4096\<close> makes both overflow checks unreachable.\<close>

lemma read_entry_address:
  assumes "unat table + 4096 \<le> 2 ^ 52"
  shows "read_entry memory va shift table =
    read_scalar memory (Gpa (of_nat (unat table + 8 * (unat va div 2 ^ unat shift mod 512)))) LittleEndian"
proof -
  let ?off = "(drop_bit (unat shift) va AND 0x1ff) * 8 :: u64"
  have off: "unat ?off = 8 * (unat va div 2 ^ unat shift mod 512)"
    by (rule entry_index_offset)
  have "unat ?off < 4096"
    unfolding off using mod_less_divisor [of 512 "unat va div 2 ^ unat shift"] by simp
  with assms have "checked_add table ?off = Some (table + ?off)"
    by (simp add: checked_add_def)
  moreover have "of_nat (unat table + unat ?off) = table + ?off"
    by simp
  ultimately show ?thesis
    by (simp only: read_entry_def Let_def entry_index_offset ok_or_simps and_then_simps off)
qed

lemma unat_next_table: "unat (entry AND (mask 52 AND NOT (mask 12)) :: u64) + 4096 \<le> 2 ^ 52"
proof -
  define n where "n = unat entry mod 2 ^ 52"
  have "n < 2 ^ 52" by (simp add: n_def)
  then have "n div 4096 * 4096 + 4096 \<le> 2 ^ 52" by simp
  then show ?thesis
    unfolding unat_and_frame n_def by simp
qed

section \<open>The walk is uniform on a page\<close>

lemma entry_outcome_page:
  assumes "\<And>table. page_shifted va (f0 table) (f table)"
  shows "page_shifted va
    (and_then (entry_outcome (page_base va) level entry)
      (\<lambda>outcome. case outcome of Leaf t \<Rightarrow> Inr t | NextTable table \<Rightarrow> f0 table))
    (and_then (entry_outcome va level entry)
      (\<lambda>outcome. case outcome of Leaf t \<Rightarrow> Inr t | NextTable table \<Rightarrow> f table))"
  using assms by (simp add: entry_outcome_leaf leaf_translation_page page_shifted_Inl)

lemma translate_loop_page:
  assumes "\<forall>s \<in> set shifts. 12 \<le> unat s"
  shows "page_shifted va (translate_loop memory (page_base va) n position table shifts)
    (translate_loop memory va n position table shifts)"
  using assms
proof (induction shifts arbitrary: position table)
  case Nil
  then show ?case by (simp add: page_shifted_Inl)
next
  case (Cons shift shifts)
  then have "page_shifted va (translate_loop memory (page_base va) n (position + 1) table' shifts)
      (translate_loop memory va n (position + 1) table' shifts)" for table'
    by simp
  with Cons.prems show ?case
    by (auto simp: read_entry_page_base intro!: page_shifted_and_then entry_outcome_page)
qed

lemma translate_levels_page:
  assumes "12 < unat bits" "unat bits < 64" "\<forall>s \<in> set shifts. 12 \<le> unat s"
  shows "page_shifted va (translate_levels memory root (Gva (page_base va)) bits shifts)
    (translate_levels memory root (Gva va) bits shifts)"
  using assms translate_loop_page [OF assms(3)]
  by (simp add: translate_levels_def Let_def is_canonical_page_base page_shifted_Inl)

interpretation amd64: page_translator amd64_translate
  by unfold_locales (simp add: amd64_translate_def translate_levels_page)

interpretation la57: page_translator la57_translate
  by unfold_locales (simp add: la57_translate_def translate_levels_page)

section \<open>The walk implements the paging relation\<close>

text \<open>
  \<open>amd64_maps rd va L table p s\<close>: from the level-\<open>L\<close> table at physical address \<open>table\<close>, the
  virtual address \<open>va\<close> is mapped to \<open>p\<close> by a page of \<open>s\<close> bytes. Everything is arithmetic on
  natural numbers: nine index bits per level, the page frame as a multiple of the page size.
\<close>

definition table_index :: "nat \<Rightarrow> nat \<Rightarrow> nat" where
  "table_index L va = va div 2 ^ (12 + 9 * (L - 1)) mod 512"

inductive amd64_maps :: "read_into \<Rightarrow> nat \<Rightarrow> nat \<Rightarrow> nat \<Rightarrow> nat \<Rightarrow> nat \<Rightarrow> bool" for rd va where
  page_4k: "reads_entry rd (table + 8 * table_index 1 va) e \<Longrightarrow> bit e 0 \<Longrightarrow> \<not> bit e 7 \<Longrightarrow>
    amd64_maps rd va 1 table (frame 52 12 e + va mod 2 ^ 12) (2 ^ 12)"
| page_2m: "reads_entry rd (table + 8 * table_index 2 va) e \<Longrightarrow> bit e 0 \<Longrightarrow> bit e 7 \<Longrightarrow>
    amd64_maps rd va 2 table (frame 52 21 e + va mod 2 ^ 21) (2 ^ 21)"
| page_1g: "reads_entry rd (table + 8 * table_index 3 va) e \<Longrightarrow> bit e 0 \<Longrightarrow> bit e 7 \<Longrightarrow>
    amd64_maps rd va 3 table (frame 52 30 e + va mod 2 ^ 30) (2 ^ 30)"
| next_level: "reads_entry rd (table + 8 * table_index L va) e \<Longrightarrow> bit e 0 \<Longrightarrow> \<not> bit e 7 \<Longrightarrow>
    1 < L \<Longrightarrow> amd64_maps rd va (L - 1) (frame 52 12 e) p s \<Longrightarrow> amd64_maps rd va L table p s"

inductive_simps amd64_maps_iff: "amd64_maps rd va L table p s"

fun level_shifts :: "nat \<Rightarrow> u8 list" where
  "level_shifts 0 = []"
| "level_shifts (Suc L) = of_nat (12 + 9 * L) # level_shifts L"

lemma level_u8:
  assumes "L < 256"
  shows "(of_nat L :: u8) > 3 \<longleftrightarrow> L > 3" "(of_nat L :: u8) = 3 \<longleftrightarrow> L = 3"
    "(of_nat L :: u8) = 2 \<longleftrightarrow> L = 2" "(of_nat L :: u8) = 1 \<longleftrightarrow> L = 1"
  using assms by (simp_all add: word_less_nat_alt word_unat_eq_iff unat_of_nat)

lemma entry_outcome_Inr:
  assumes "0 < L" "L < 256"
  shows "entry_outcome va (of_nat L) e = Inr (Leaf t) \<longleftrightarrow> bit e 0 \<and>
      (L = 3 \<and> bit e 7 \<and> t = leaf_translation 52 30 e va \<or>
       L = 2 \<and> bit e 7 \<and> t = leaf_translation 52 21 e va \<or>
       L = 1 \<and> \<not> bit e 7 \<and> t = leaf_translation 52 12 e va)"
    and "entry_outcome va (of_nat L) e = Inr (NextTable table) \<longleftrightarrow>
      bit e 0 \<and> \<not> bit e 7 \<and> L \<noteq> 1 \<and> table = e AND (mask 52 AND NOT (mask 12))"
  using assms by (auto simp: entry_outcome_leaf level_u8 split: if_splits)

lemma amd64_maps_Suc:
  "amd64_maps rd va (Suc L) table p s \<longleftrightarrow>
    (\<exists>e. reads_entry rd (table + 8 * table_index (Suc L) va) e \<and> bit e 0 \<and>
      (L = 2 \<and> bit e 7 \<and> p = frame 52 30 e + va mod 2 ^ 30 \<and> s = 2 ^ 30 \<or>
       L = 1 \<and> bit e 7 \<and> p = frame 52 21 e + va mod 2 ^ 21 \<and> s = 2 ^ 21 \<or>
       L = 0 \<and> \<not> bit e 7 \<and> p = frame 52 12 e + va mod 2 ^ 12 \<and> s = 2 ^ 12 \<or>
       0 < L \<and> \<not> bit e 7 \<and> amd64_maps rd va L (frame 52 12 e) p s))"
  (is "?l \<longleftrightarrow> (\<exists>e. ?r e)")
proof
  assume ?l
  then show "\<exists>e. ?r e"
    by (cases rule: amd64_maps.cases) (auto simp: numeral_2_eq_2 numeral_3_eq_3)
next
  assume "\<exists>e. ?r e"
  then obtain e where "?r e" ..
  then show ?l
    using amd64_maps.page_4k [of rd table va e] amd64_maps.page_2m [of rd table va e]
      amd64_maps.page_1g [of rd table va e] amd64_maps.next_level [of rd table "Suc L" va e p s]
    by (auto simp: numeral_2_eq_2 numeral_3_eq_3)
qed

lemma translate_loop_unfold:
  assumes "Suc L \<le> 5" "n = position + Suc L"
  shows "translate_loop rd va n position table (level_shifts (Suc L)) =
    and_then (read_entry rd va (of_nat (12 + 9 * L)) table) (\<lambda>entry.
    and_then (entry_outcome va (of_nat (Suc L)) entry) (\<lambda>outcome.
      case outcome of
        Leaf t \<Rightarrow> Inr t
      | NextTable table' \<Rightarrow> translate_loop rd va n (Suc position) table' (level_shifts L)))"
proof -
  have "usize_checked_sub n position = Some (Suc L)"
    using assms(2) by (simp add: usize_checked_sub_def)
  then show ?thesis
    using assms(1) by (simp del: of_nat_Suc of_nat_add of_nat_mult)
qed

lemma translate_loop_step:
  assumes "Suc L \<le> 5" "n = position + Suc L" "unat table + 4096 \<le> 2 ^ 52"
  shows "translate_loop rd va n position table (level_shifts (Suc L)) = Inr t \<longleftrightarrow>
    (\<exists>e. reads_entry rd (unat table + 8 * table_index (Suc L) (unat va)) e \<and>
      (entry_outcome va (of_nat (Suc L)) e = Inr (Leaf t) \<or>
       (\<exists>table'. entry_outcome va (of_nat (Suc L)) e = Inr (NextTable table') \<and>
          translate_loop rd va n (Suc position) table' (level_shifts L) = Inr t)))"
proof -
  have "unat (of_nat (12 + 9 * L) :: u8) = 12 + 9 * L"
    using assms(1) by (subst unat_of_nat) simp
  then have "read_entry rd va (of_nat (12 + 9 * L)) table = Inr e \<longleftrightarrow>
      reads_entry rd (unat table + 8 * table_index (Suc L) (unat va)) e" for e
    unfolding reads_entry_def read_entry_address [OF assms(3)] table_index_def by simp
  then show ?thesis
    unfolding translate_loop_unfold [OF assms(1,2)] by (simp add: outcome_continue del: of_nat_Suc)
qed

theorem translate_loop_maps:
  assumes "L \<le> 5" "n = position + L" "unat table + 4096 \<le> 2 ^ 52"
  shows "translate_loop rd va n position table (level_shifts L) = Inr t \<longleftrightarrow>
    amd64_maps rd (unat va) L (unat table) (unat (gpa_raw (physical_address t))) (unat (page_size t))"
  using assms
proof (induction L arbitrary: position table)
  case 0
  then show ?case by (auto elim: amd64_maps.cases)
next
  case (Suc L)
  have next_table: "unat (e AND (mask 52 AND NOT (mask 12)) :: u64) = frame 52 12 e" for e
    by (simp add: unat_and_frame frame_def)
  have IH: "translate_loop rd va n (Suc position) (e AND (mask 52 AND NOT (mask 12))) (level_shifts L) = Inr t
      \<longleftrightarrow> amd64_maps rd (unat va) L (frame 52 12 e)
        (unat (gpa_raw (physical_address t))) (unat (page_size t))" for e
    using Suc.IH [of "position + 1" "e AND (mask 52 AND NOT (mask 12))"] Suc.prems
      unat_next_table [of e] by (simp add: next_table)
  show ?case
    unfolding translate_loop_step [OF Suc.prems] amd64_maps_Suc
    using Suc.prems(1) entry_outcome_Inr [of "Suc L"]
    by (intro ex_cong1) (auto simp: translation_eq_leaf IH simp del: of_nat_Suc)
qed

section \<open>What a mapping guarantees\<close>

lemma amd64_maps_bounds:
  "amd64_maps rd va L table p s \<Longrightarrow> p < 2 ^ 52 \<and> p mod s = va mod s \<and> s \<in> {2 ^ 12, 2 ^ 21, 2 ^ 30}"
proof (induction rule: amd64_maps.induct)
  case (page_4k table e)
  show ?case using frame_mod [of 12 52 e va] by simp
next
  case (page_2m table e)
  show ?case using frame_mod [of 21 52 e va] by simp
next
  case (page_1g table e)
  show ?case using frame_mod [of 30 52 e va] by simp
next
  case (next_level table L e p s)
  then show ?case by simp
qed

lemma shift_lists: "[39, 30, 21, 12] = level_shifts 4" "[48, 39, 30, 21, 12] = level_shifts 5"
  by (simp_all add: numeral_eq_Suc)

lemma root_table: "unat (root AND ADDRESS_MASK) = frame 52 12 root" "unat (root AND ADDRESS_MASK) + 4096 \<le> 2 ^ 52"
  using unat_next_table [of root] unfolding mask_simps by (simp_all add: unat_and_frame frame_def)

lemma translators_unfold:
  "amd64_translate rd (TranslationRoot root) (Gva va) =
     (if is_canonical va 48 then translate_loop rd va 4 0 (root AND ADDRESS_MASK) (level_shifts 4)
      else Inl (NonCanonicalAddress va 48))"
  "la57_translate rd (TranslationRoot root) (Gva va) =
     (if is_canonical va 57 then translate_loop rd va 5 0 (root AND ADDRESS_MASK) (level_shifts 5)
      else Inl (NonCanonicalAddress va 57))"
  unfolding amd64_translate_def la57_translate_def translate_levels_def shift_lists [symmetric]
  by (simp_all del: translate_loop.simps add: eval_nat_numeral)

text \<open>Every error of the walk is an error of an entry or an error of the memory underneath.\<close>

lemma translate_loop_errors:
  assumes "L \<le> 5" "0 < L" "n = position + L" "unat table + 4096 \<le> 2 ^ 52"
    "translate_loop rd va n position table (level_shifts L) = Inl e"
  shows "(\<exists>level. e = PageNotPresent va level) \<or> (\<exists>entry level. e = InvalidPageTableEntry entry level) \<or>
    (\<exists>address. (read_scalar rd address LittleEndian :: u64 result) = Inl e)"
  using assms
proof (induction L arbitrary: position table)
  case 0
  then show ?case by simp
next
  case (Suc L)
  note unfold = translate_loop_unfold [OF Suc.prems(1,3), of rd va table]
  show ?case
  proof (cases "read_entry rd va (of_nat (12 + 9 * L)) table")
    case (Inl e')
    then have "e = e'"
      using Suc.prems(5) unfolding unfold by simp
    with Inl show ?thesis
      unfolding read_entry_address [OF Suc.prems(4)] by blast
  next
    case (Inr entry)
    note step = Suc.prems(5) [unfolded unfold Inr and_then_simps]
    show ?thesis
    proof (cases "entry_outcome va (of_nat (Suc L)) entry")
      case (Inl e')
      with step show ?thesis
        by (auto simp: entry_outcome_leaf split: if_splits)
    next
      case (Inr outcome)
      with step obtain table' where out: "outcome = NextTable table'"
        "translate_loop rd va n (Suc position) table' (level_shifts L) = Inl e"
        by (cases outcome) auto
      with Inr have "0 < L" "unat table' + 4096 \<le> 2 ^ 52"
        using entry_outcome_Inr(2) [of "Suc L" va entry table'] Suc.prems(1) unat_next_table [of entry]
        by auto
      with Suc.IH [of "Suc position" table'] Suc.prems out show ?thesis by simp
    qed
  qed
qed

lemmas walk_eval = amd64_translate_def translate_levels_def is_canonical_def checked_shl_def
  checked_sub_def usize_checked_sub_def checked_add_def checked_mul_def read_entry_def
  entry_outcome_def PRESENT_def LARGE_def ADDRESS_MASK_def translation_new_def read_table_memory

section \<open>Properties\<close>

text \<open>
  C1: the four- and five-level translators implement the AMD64 paging relation: a translation
  succeeds with a physical address and page size exactly when the virtual address is canonical
  and the tables, read as arithmetic over page frames, map it there.
\<close>

theorem amd64_translate_correct:
  "(amd64_translate rd (TranslationRoot root) (Gva va) = Inr t \<longleftrightarrow>
      is_canonical va 48 \<and>
      amd64_maps rd (unat va) 4 (frame 52 12 root)
        (unat (gpa_raw (physical_address t))) (unat (page_size t))) \<and>
   (la57_translate rd (TranslationRoot root) (Gva va) = Inr t \<longleftrightarrow>
      is_canonical va 57 \<and>
      amd64_maps rd (unat va) 5 (frame 52 12 root)
        (unat (gpa_raw (physical_address t))) (unat (page_size t)))"
  using root_table [of root] translate_loop_maps [of 4 4 0 "root AND ADDRESS_MASK" rd va t]
    translate_loop_maps [of 5 5 0 "root AND ADDRESS_MASK" rd va t]
  by (simp add: translators_unfold)

text \<open>
  C2: a physical address produced by the AMD64 translators lies below \<open>2 ^ 52\<close>, agrees with the
  virtual address modulo the page size, and the page size is 4 KiB, 2 MiB or 1 GiB.
\<close>

theorem amd64_translate_bounds:
  assumes "amd64_translate rd (TranslationRoot root) (Gva va) = Inr t \<or>
    la57_translate rd (TranslationRoot root) (Gva va) = Inr t"
  shows "unat (gpa_raw (physical_address t)) < 2 ^ 52 \<and>
    unat (gpa_raw (physical_address t)) mod unat (page_size t) = unat va mod unat (page_size t) \<and>
    unat (page_size t) \<in> {2 ^ 12, 2 ^ 21, 2 ^ 30}"
proof -
  have "translate_loop rd va 4 0 (root AND ADDRESS_MASK) (level_shifts 4) = Inr t \<or>
    translate_loop rd va 5 0 (root AND ADDRESS_MASK) (level_shifts 5) = Inr t"
    using assms by (auto simp: translators_unfold split: if_splits)
  then obtain L where "amd64_maps rd (unat va) L (frame 52 12 root)
      (unat (gpa_raw (physical_address t))) (unat (page_size t))"
    using root_table [of root] translate_loop_maps [of 4 4 0 "root AND ADDRESS_MASK" rd va t]
      translate_loop_maps [of 5 5 0 "root AND ADDRESS_MASK" rd va t] by auto
  then show ?thesis by (rule amd64_maps_bounds)
qed

theorem amd64_translate_bounds_witness:
  "\<exists>t. amd64_translate (table_memory [(0x1000, 0x2001), (0x2008, 0x80000081)])
      (TranslationRoot 0x1000) (Gva 0x40001234) = Inr t \<and>
    unat (gpa_raw (physical_address t)) < 2 ^ 52 \<and>
    unat (gpa_raw (physical_address t)) mod unat (page_size t) = unat (0x40001234 :: u64) mod unat (page_size t) \<and>
    unat (page_size t) \<in> {2 ^ 12, 2 ^ 21, 2 ^ 30}"
proof -
  have "amd64_translate (table_memory [(0x1000, 0x2001), (0x2008, 0x80000081)])
      (TranslationRoot 0x1000) (Gva 0x40001234) = Inr (translation_new (Gpa 0x80001234) (push_bit 30 1))"
    by (simp add: walk_eval)
  with amd64_translate_bounds show ?thesis by blast
qed

text \<open>
  The canonical-address test accepts exactly the addresses that equal their sign extension
  from the top translated bit, and rejects every width outside 1 to 63.
\<close>

lemma is_canonical_sign_extension:
  "is_canonical a bits \<longleftrightarrow>
     0 < unat bits \<and> unat bits < 64 \<and> signed_take_bit (unat bits - 1) a = a"
proof (cases "0 < unat bits \<and> unat bits < 64")
  case True
  then show ?thesis by (simp add: is_canonical_bits signed_take_bit_eq_self)
next
  case False
  then show ?thesis
    by (auto simp: is_canonical_def checked_shl_def checked_sub_def word_le_nat_alt split: option.splits)
qed

text \<open>
  the AMD64 translators never fail for an internal reason: every error is the
  non-canonical address, an absent or malformed entry, or an error of the memory that was read.
\<close>

lemma amd64_translate_errors:
  assumes "amd64_translate rd (TranslationRoot root) (Gva va) = Inl e"
  shows "e = NonCanonicalAddress va 48 \<and> \<not> is_canonical va 48 \<or>
    (\<exists>level. e = PageNotPresent va level) \<or> (\<exists>entry level. e = InvalidPageTableEntry entry level) \<or>
    (\<exists>address. (read_scalar rd address LittleEndian :: u64 result) = Inl e)"
proof (cases "is_canonical va 48")
  case True
  then have "translate_loop rd va 4 0 (root AND ADDRESS_MASK) (level_shifts 4) = Inl e"
    using assms by (simp add: translators_unfold)
  then show ?thesis
    using translate_loop_errors [of 4 4 0 "root AND ADDRESS_MASK" rd va e] root_table [of root]
    by simp
next
  case False
  with assms show ?thesis
    by (simp add: translators_unfold)
qed

end
