(* ===== verification/Arch_Aarch64.thy ===== *)
theory Arch_Aarch64
  imports Arch_Api
begin

text \<open>
  The crate \<open>vmi-arch-aarch64\<close>: stage-1 page tables with 4, 16 and 64 KiB granules. The walk
  computes its level count and masks with checked arithmetic; the lemmas show that none of these
  checks can fail for a translator built by \<open>new\<close>, and relate the walk to the relation
  \<open>aarch64_maps\<close> on plain numbers.
\<close>

section \<open>The translator (lib.rs)\<close>

definition VALID :: u64 where
  "VALID = 1"

definition TABLE_OR_PAGE :: u64 where
  "TABLE_OR_PAGE = push_bit 1 1"

definition PHYSICAL_ADDRESS_MASK :: u64 where
  "PHYSICAL_ADDRESS_MASK = 0x0000ffffffffffff"

definition low_mask :: "u8 \<Rightarrow> u64 option" where
  "low_mask bits = Option.bind (checked_shl 1 (unat bits)) (\<lambda>v. checked_sub v 1)"

definition aarch64_is_canonical :: "u64 \<Rightarrow> u8 \<Rightarrow> bool" where
  "aarch64_is_canonical address bits =
     (case low_mask bits of
        None \<Rightarrow> False
      | Some low \<Rightarrow>
          (case checked_sub bits 1 of
             None \<Rightarrow> False
           | Some sign_shift \<Rightarrow>
               (case checked_shl 1 (unat sign_shift) of
                  None \<Rightarrow> False
                | Some sign_bit \<Rightarrow>
                    (let expected_upper = (if address AND sign_bit = 0 then 0 else NOT low)
                     in address AND NOT low = expected_upper))))"

datatype translation_granule = KiB4 | KiB16 | KiB64

fun page_shift :: "translation_granule \<Rightarrow> u8" where
  "page_shift KiB4 = 12"
| "page_shift KiB16 = 14"
| "page_shift KiB64 = 16"

fun index_bits :: "translation_granule \<Rightarrow> u8" where
  "index_bits KiB4 = 9"
| "index_bits KiB16 = 11"
| "index_bits KiB64 = 13"

fun maximum_levels :: "translation_granule \<Rightarrow> u8" where
  "maximum_levels KiB4 = 4"
| "maximum_levels KiB16 = 4"
| "maximum_levels KiB64 = 3"

record aarch64_translator =
  granule :: translation_granule
  address_bits :: u8

definition aarch64_default :: aarch64_translator where
  "aarch64_default = \<lparr>granule = KiB4, address_bits = 48\<rparr>"

fun granule_debug :: "translation_granule \<Rightarrow> string" where
  "granule_debug KiB4 = ''KiB4''"
| "granule_debug KiB16 = ''KiB16''"
| "granule_debug KiB64 = ''KiB64''"

definition aarch64_new :: "translation_granule \<Rightarrow> u8 \<Rightarrow> aarch64_translator result" where
  "aarch64_new g bits =
     and_then (ok_or
       (Option.bind (checked_mul (index_bits g) (maximum_levels g)) (\<lambda>b. checked_add (page_shift g) b))
       (Backend ''AArch64 maximum address size overflow''))
       (\<lambda>maximum_bits.
         if bits \<le> page_shift g \<or> bits > maximum_bits \<or> bits > 48 then
           Inl (Backend (''invalid AArch64 address size '' @ dec (unat bits) @ '' for '' @
             granule_debug g @ '' granule''))
         else Inr \<lparr>granule = g, address_bits = bits\<rparr>)"

definition aarch64_cache_tag :: "aarch64_translator \<Rightarrow> u64" where
  "aarch64_cache_tag t =
     (let g = (case granule t of KiB4 \<Rightarrow> 4 | KiB16 \<Rightarrow> 16 | KiB64 \<Rightarrow> 64) in
      0x4136340000000000 OR push_bit 8 g OR ucast (address_bits t))"

definition div_ceil :: "u8 \<Rightarrow> u8 \<Rightarrow> u8" where
  "div_ceil a b = (if a mod b > 0 then a div b + 1 else a div b)"

definition entry_shift_of :: "u8 \<Rightarrow> u8 \<Rightarrow> u8 \<Rightarrow> u8 \<Rightarrow> u8 result" where
  "entry_shift_of shift ibits level_count ordinal =
     and_then (ok_or (Option.bind (checked_sub level_count ordinal) (\<lambda>remaining. checked_sub remaining 1))
       (Backend ''AArch64 remaining level underflow'')) (\<lambda>remaining_levels.
     ok_or (Option.bind (checked_mul remaining_levels ibits) (\<lambda>s. checked_add shift s))
       (Backend ''AArch64 entry shift overflow''))"

definition aarch64_read_entry :: "read_into \<Rightarrow> u64 \<Rightarrow> u8 \<Rightarrow> u64 \<Rightarrow> u64 \<Rightarrow> u64 result" where
  "aarch64_read_entry memory va entry_shift index_mask table =
     (let index = drop_bit (unat entry_shift) va AND index_mask in
      and_then (ok_or (checked_mul index 8) (Backend ''AArch64 page-table entry offset overflow''))
        (\<lambda>entry_offset.
      and_then (ok_or (checked_add table entry_offset)
        (Backend ''AArch64 page-table entry address overflow''))
        (\<lambda>entry_address. read_scalar memory (Gpa entry_address) LittleEndian)))"

definition sized_leaf :: "u64 \<Rightarrow> u64 \<Rightarrow> u8 \<Rightarrow> string \<Rightarrow> string \<Rightarrow> level_outcome result" where
  "sized_leaf va entry shift overflow underflow =
     and_then (ok_or (checked_shl 1 (unat shift)) (Backend overflow)) (\<lambda>size.
     and_then (ok_or (checked_sub size 1) (Backend underflow)) (\<lambda>offset_mask.
       Inr (Leaf (translation_new
         (Gpa ((entry AND PHYSICAL_ADDRESS_MASK AND NOT offset_mask) OR (va AND offset_mask))) size))))"

definition aarch64_entry_outcome ::
  "u64 \<Rightarrow> u8 \<Rightarrow> u64 \<Rightarrow> u8 \<Rightarrow> u8 \<Rightarrow> u8 \<Rightarrow> u8 \<Rightarrow> u64 \<Rightarrow> level_outcome result" where
  "aarch64_entry_outcome va shift page_mask level_count ordinal level entry_shift entry =
     (if entry AND VALID = 0 then Inl (PageNotPresent va level)
      else
        (let table_or_page = (entry AND TABLE_OR_PAGE \<noteq> 0) in
         if checked_add ordinal 1 = Some level_count then
           (if \<not> table_or_page then Inl (InvalidPageTableEntry entry level)
            else sized_leaf va entry shift ''AArch64 page size overflow'' ''AArch64 page mask underflow'')
         else if table_or_page then Inr (NextTable (entry AND PHYSICAL_ADDRESS_MASK AND NOT page_mask))
         else if level = 0 then Inl (InvalidPageTableEntry entry level)
         else sized_leaf va entry entry_shift ''AArch64 block size overflow'' ''AArch64 block mask underflow''))"

fun aarch64_loop ::
  "read_into \<Rightarrow> u64 \<Rightarrow> u8 \<Rightarrow> u8 \<Rightarrow> u64 \<Rightarrow> u64 \<Rightarrow> u8 \<Rightarrow> u8 \<Rightarrow> u64 \<Rightarrow> u8 list \<Rightarrow> translation result" where
  "aarch64_loop memory va shift ibits index_mask page_mask first_level level_count table [] =
     Inl (Backend ''AArch64 translation completed without a page or block'')"
| "aarch64_loop memory va shift ibits index_mask page_mask first_level level_count table (ordinal # ordinals) =
     and_then (ok_or (checked_add first_level ordinal) (Backend ''AArch64 translation level overflow''))
       (\<lambda>level.
     and_then (entry_shift_of shift ibits level_count ordinal) (\<lambda>entry_shift.
     and_then (aarch64_read_entry memory va entry_shift index_mask table) (\<lambda>entry.
     and_then (aarch64_entry_outcome va shift page_mask level_count ordinal level entry_shift entry)
       (\<lambda>outcome.
         case outcome of
           Leaf t \<Rightarrow> Inr t
         | NextTable table' \<Rightarrow>
             aarch64_loop memory va shift ibits index_mask page_mask first_level level_count table' ordinals))))"

definition aarch64_translate ::
  "aarch64_translator \<Rightarrow> read_into \<Rightarrow> translation_root \<Rightarrow> gva \<Rightarrow> translation result" where
  "aarch64_translate t memory root address =
     (let va = gva_raw address in
      if \<not> aarch64_is_canonical va (address_bits t) then
        Inl (NonCanonicalAddress va (address_bits t))
      else
        (let shift = page_shift (granule t); ibits = index_bits (granule t) in
         and_then (ok_or (checked_sub (address_bits t) shift) (Backend ''AArch64 address size underflow''))
           (\<lambda>translated_bits.
             let level_count = div_ceil translated_bits ibits in
         and_then (ok_or (checked_sub 4 level_count) (Backend ''AArch64 translation level underflow''))
           (\<lambda>first_level.
         and_then (ok_or (low_mask ibits) (Backend ''AArch64 index mask overflow'')) (\<lambda>index_mask.
         and_then (ok_or (low_mask shift) (Backend ''AArch64 page mask overflow'')) (\<lambda>page_mask.
           aarch64_loop memory va shift ibits index_mask page_mask first_level level_count
             (root_raw root AND PHYSICAL_ADDRESS_MASK AND NOT page_mask)
             (map of_nat [0 ..< unat level_count])))))))"

definition aarch64_as_translator :: "aarch64_translator \<Rightarrow> address_translator" where
  "aarch64_as_translator t = \<lparr>cache_tag = aarch64_cache_tag t, translate = aarch64_translate t\<rparr>"

section \<open>Constructed translators\<close>

definition level_total :: "translation_granule \<Rightarrow> nat \<Rightarrow> nat" where
  "level_total g bits = (bits - unat (page_shift g) + unat (index_bits g) - 1) div unat (index_bits g)"

lemma aarch64_new_iff:
  "aarch64_new g bits = Inr t \<longleftrightarrow>
     t = \<lparr>granule = g, address_bits = bits\<rparr> \<and> unat (page_shift g) < unat bits \<and> unat bits \<le> 48"
  by (cases g) (auto simp: aarch64_new_def checked_mul_def checked_add_def word_less_nat_alt
      word_le_nat_alt not_le not_less)

lemma granule_consts [simp]:
  "unat (page_shift g) \<in> {12, 14, 16}" "unat (page_shift g) < 64" "unat (index_bits g) < 64"
  "12 \<le> unat (page_shift g)" "0 < unat (index_bits g)" "unat (page_shift g) \<le> 48"
  by (cases g; simp)+

lemma low_mask_eq: "unat b < 64 \<Longrightarrow> low_mask b = Some (mask (unat b))"
  using checked_low_mask [of "unat b"] by (simp add: low_mask_def checked_shl_def)

lemma nat_div_ceil: "0 < b \<Longrightarrow> (a + b - 1) div b = (if a mod b > 0 then a div b + 1 else a div b)"
  for a b :: nat
proof -
  assume b: "0 < b"
  have a: "a = a mod b + b * (a div b)" by simp
  show ?thesis
  proof (cases "a mod b > 0")
    case True
    then have "a + b - 1 = (a mod b - 1) + b * (a div b + 1)"
      using a b unfolding distrib_left mult_1_right by linarith
    then have "(a + b - 1) div b = (a mod b - 1) div b + (a div b + 1)"
      using b div_mult_self2 [of b "a mod b - 1" "a div b + 1"] by simp
    moreover have "a mod b - 1 < b"
      using b mod_less_divisor [of b a] by linarith
    ultimately show ?thesis using True by simp
  next
    case False
    then have "a + b - 1 = (b - 1) + b * (a div b)"
      using a b by linarith
    then have "(a + b - 1) div b = (b - 1) div b + a div b"
      using b div_mult_self2 [of b "b - 1" "a div b"] by simp
    then show ?thesis using False b by simp
  qed
qed

lemma unat_div_ceil:
  assumes "0 < unat w" "unat v < 64"
  shows "unat (div_ceil v w) = (unat v + unat w - 1) div unat w"
proof -
  have "unat v div unat w < 64"
    using assms(2) by (meson div_le_dividend le_less_trans)
  then have "unat (v div w + 1) = unat v div unat w + 1"
    by (simp add: unat_div_distrib unat_word_ariths(1))
  then show ?thesis
    using assms(1) nat_div_ceil [of "unat w" "unat v"]
    by (simp add: div_ceil_def word_less_nat_alt unat_mod_distrib unat_div_distrib)
qed

lemma div_ceil_levels:
  assumes "unat (page_shift g) < unat bits" "unat bits \<le> 48"
  shows "unat (div_ceil (bits - page_shift g) (index_bits g)) = level_total g (unat bits)"
    "0 < level_total g (unat bits)" "level_total g (unat bits) \<le> 4"
proof -
  have "unat (bits - page_shift g) = unat bits - unat (page_shift g)"
    using assms by (simp add: unat_sub word_le_nat_alt)
  then show "unat (div_ceil (bits - page_shift g) (index_bits g)) = level_total g (unat bits)"
    using assms(2) by (simp add: unat_div_ceil level_total_def)
  show "0 < level_total g (unat bits)" "level_total g (unat bits) \<le> 4"
    using assms by (cases g; simp add: level_total_def)+
qed

section \<open>The walk without its arithmetic checks\<close>

text \<open>
  \<open>aarch64_walk g rd va L table\<close> is the walk with \<open>L\<close> levels left, with the shifts and masks
  in closed form; the level number the code reports is \<open>4 - L\<close>.
\<close>

abbreviation table_mask :: "translation_granule \<Rightarrow> u64" where
  "table_mask g \<equiv> mask 48 AND NOT (mask (unat (page_shift g)))"

definition granule_shift :: "translation_granule \<Rightarrow> nat \<Rightarrow> nat" where
  "granule_shift g L = unat (page_shift g) + unat (index_bits g) * L"

definition granule_index :: "translation_granule \<Rightarrow> nat \<Rightarrow> nat \<Rightarrow> nat" where
  "granule_index g L va = va div 2 ^ granule_shift g L mod 2 ^ unat (index_bits g)"

fun aarch64_walk :: "translation_granule \<Rightarrow> read_into \<Rightarrow> u64 \<Rightarrow> nat \<Rightarrow> u64 \<Rightarrow> translation result" where
  "aarch64_walk g rd va 0 table = Inl (Backend ''AArch64 translation completed without a page or block'')"
| "aarch64_walk g rd va (Suc L) table =
     and_then (read_scalar rd (Gpa (of_nat (unat table + 8 * granule_index g L (unat va)))) LittleEndian) (\<lambda>e.
       if \<not> bit e 0 then Inl (PageNotPresent va (of_nat (3 - L)))
       else if L = 0 then
         (if bit e 1 then Inr (leaf_translation 48 (unat (page_shift g)) e va)
          else Inl (InvalidPageTableEntry e 3))
       else if bit e 1 then aarch64_walk g rd va L (e AND table_mask g)
       else if L = 3 then Inl (InvalidPageTableEntry e 0)
       else Inr (leaf_translation 48 (granule_shift g L) e va))"

lemma small_levels: "L < n \<Longrightarrow> n \<le> 4 \<Longrightarrow>
    (n, L) \<in> {(1, 0), (2, 0), (2, 1), (3, 0), (3, 1), (3, 2), (4, 0), (4, 1), (4, 2), (4, 3)}"
  for n L :: nat
  unfolding insert_iff prod.inject empty_iff by presburger

lemma entry_shift_eq:
  assumes "L < n" "n \<le> 4"
  shows "entry_shift_of (page_shift g) (index_bits g) (of_nat n) (of_nat (n - Suc L)) =
    Inr (of_nat (granule_shift g L))"
  using small_levels [OF assms]
  by (cases g) (elim insertE emptyE; simp add: entry_shift_of_def granule_shift_def checked_sub_def
      checked_mul_def checked_add_def)+

lemma level_number:
  assumes "L < n" "n \<le> 4"
  shows "checked_add (4 - of_nat n) (of_nat (n - Suc L) :: u8) = Some (of_nat (3 - L))"
    "checked_add (of_nat (n - Suc L) :: u8) 1 = Some (of_nat n) \<longleftrightarrow> L = 0"
    "(of_nat (3 - L) :: u8) = 0 \<longleftrightarrow> L = 3"
  using small_levels [OF assms]
  by (elim insertE emptyE; simp add: checked_add_def)+

lemma granule_shift_bounds:
  assumes "L < 3"
  shows "granule_shift g L \<le> 48"
  using assms by (cases g) (simp_all add: granule_shift_def)

lemma granule_shift_ge: "12 \<le> granule_shift g L"
  by (cases g) (simp_all add: granule_shift_def)

lemma unat_granule_shift: "L < 4 \<Longrightarrow> unat (of_nat (granule_shift g L) :: u8) = granule_shift g L"
  unfolding granule_shift_def unat_of_nat by (cases g) simp_all

lemma aarch64_masks:
  "PHYSICAL_ADDRESS_MASK = mask 48"
  "entry AND VALID = 0 \<longleftrightarrow> \<not> bit entry 0"
  "entry AND TABLE_OR_PAGE = 0 \<longleftrightarrow> \<not> bit entry 1"
  using bit_is_and_pow [of entry 0] bit_is_and_pow [of entry 1]
  by (simp_all add: PHYSICAL_ADDRESS_MASK_def VALID_def TABLE_OR_PAGE_def mask_eq_exp_minus_1)

lemma sized_leaf_eq:
  "unat shift < 64 \<Longrightarrow> sized_leaf va entry shift text1 text2 = Inr (Leaf (leaf_translation 48 (unat shift) entry va))"
  using checked_low_mask [of "unat shift"]
  by (simp add: sized_leaf_def checked_shl_def leaf_translation_def aarch64_masks and.assoc)

lemma unat_table_mask: "unat (e AND table_mask g) = frame 48 (unat (page_shift g)) e"
    "unat (e AND table_mask g) < 2 ^ 48"
  using frame_mod [of "unat (page_shift g)" 48 e 0] by (simp_all add: unat_and_frame frame_def)

lemma aarch64_read_entry_address:
  assumes "L < 4" "unat table < 2 ^ 48"
  shows "aarch64_read_entry rd va (of_nat (granule_shift g L)) (mask (unat (index_bits g))) table =
    read_scalar rd (Gpa (of_nat (unat table + 8 * granule_index g L (unat va)))) LittleEndian"
proof -
  let ?i = "drop_bit (granule_shift g L) va AND mask (unat (index_bits g)) :: u64"
  have i: "unat ?i = granule_index g L (unat va)"
    unfolding granule_index_def by (rule unat_entry_index)
  have "granule_index g L (unat va) < 2 ^ unat (index_bits g)"
    unfolding granule_index_def by simp
  then have b: "granule_index g L (unat va) < 2 ^ 13"
    by (cases g) simp_all
  then have mul: "checked_mul ?i 8 = Some (?i * 8)"
    using i by (simp add: checked_mul_def)
  then have off: "unat (?i * 8) = 8 * granule_index g L (unat va)"
    using unat_checked_mul [of ?i 8] i by simp
  then have "checked_add table (?i * 8) = Some (table + ?i * 8)"
    using assms(2) b by (simp add: checked_add_def)
  moreover have "of_nat (unat table + unat (?i * 8)) = table + ?i * 8"
    by simp
  ultimately show ?thesis
    by (simp only: aarch64_read_entry_def Let_def unat_granule_shift [OF assms(1)] mul ok_or_simps
        and_then_simps off)
qed

lemma aarch64_entry_outcome_eq:
  assumes "L < n" "n \<le> 4"
  shows "aarch64_entry_outcome va (page_shift g) (mask (unat (page_shift g))) (of_nat n)
      (of_nat (n - Suc L)) (of_nat (3 - L)) (of_nat (granule_shift g L)) e =
    (if \<not> bit e 0 then Inl (PageNotPresent va (of_nat (3 - L)))
     else if L = 0 then
       (if bit e 1 then Inr (Leaf (leaf_translation 48 (unat (page_shift g)) e va))
        else Inl (InvalidPageTableEntry e 3))
     else if bit e 1 then Inr (NextTable (e AND table_mask g))
     else if L = 3 then Inl (InvalidPageTableEntry e 0)
     else Inr (Leaf (leaf_translation 48 (granule_shift g L) e va)))"
proof -
  have "unat (of_nat (granule_shift g L) :: u8) = granule_shift g L"
    using assms by (intro unat_granule_shift) simp
  moreover from this have "unat (of_nat (granule_shift g L) :: u8) < 64" if "L \<noteq> 3"
    using granule_shift_bounds [of L g] assms that by simp
  ultimately show ?thesis
    using granule_consts(2) [of g]
    unfolding aarch64_entry_outcome_def level_number [OF assms] aarch64_masks Let_def
    by (simp add: sized_leaf_eq and.assoc del: of_nat_diff)
qed

lemma aarch64_loop_walk:
  assumes "L \<le> n" "n \<le> 4" "unat table < 2 ^ 48"
  shows "aarch64_loop rd va (page_shift g) (index_bits g) (mask (unat (index_bits g)))
      (mask (unat (page_shift g))) (4 - of_nat n) (of_nat n) table (map of_nat [n - L ..< n]) =
    aarch64_walk g rd va L table"
  using assms
proof (induction L arbitrary: table)
  case 0
  then show ?case by simp
next
  case (Suc L)
  then have L: "L < n" "L < 4" by simp_all
  then have upt: "[n - Suc L ..< n] = (n - Suc L) # [n - L ..< n]"
    using upt_conv_Cons [of "n - Suc L" n] Suc_diff_Suc [of L n] by simp
  have IH: "aarch64_loop rd va (page_shift g) (index_bits g) (mask (unat (index_bits g)))
      (mask (unat (page_shift g))) (4 - of_nat n) (of_nat n) (e AND table_mask g)
      (map of_nat [n - L ..< n]) = aarch64_walk g rd va L (e AND table_mask g)" for e
    using Suc L unat_table_mask(2) [of e g] by simp
  show ?case
    unfolding upt list.map aarch64_loop.simps level_number [OF L(1) Suc.prems(2)]
      entry_shift_eq [OF L(1) Suc.prems(2)] aarch64_read_entry_address [OF L(2) Suc.prems(3)]
      aarch64_entry_outcome_eq [OF L(1) Suc.prems(2)] ok_or_simps and_then_simps aarch64_walk.simps
    by (rule and_then_cong) (simp_all add: IH del: of_nat_diff)
qed

lemma aarch64_translate_walk:
  assumes "aarch64_new g bits = Inr t"
  shows "aarch64_translate t rd (TranslationRoot root) (Gva va) =
    (if aarch64_is_canonical va bits
     then aarch64_walk g rd va (level_total g (unat bits)) (root AND table_mask g)
     else Inl (NonCanonicalAddress va bits))"
proof -
  define n where "n = level_total g (unat bits)"
  have t: "t = \<lparr>granule = g, address_bits = bits\<rparr>" "unat (page_shift g) < unat bits" "unat bits \<le> 48"
    using assms by (simp_all add: aarch64_new_iff)
  have n: "unat (div_ceil (bits - page_shift g) (index_bits g)) = n" "0 < n" "n \<le> 4"
    using div_ceil_levels [OF t(2,3)] by (simp_all add: n_def)
  have count: "div_ceil (bits - page_shift g) (index_bits g) = of_nat n"
    by (simp flip: n(1))
  have sub: "checked_sub bits (page_shift g) = Some (bits - page_shift g)"
    "checked_sub 4 (div_ceil (bits - page_shift g) (index_bits g)) =
      Some (4 - div_ceil (bits - page_shift g) (index_bits g))"
    using t(2) n by (simp_all add: checked_sub_def word_le_nat_alt)
  show ?thesis
    using aarch64_loop_walk [of n n "root AND table_mask g" rd va g] n(3) unat_table_mask(2) [of root g]
    by (simp add: aarch64_translate_def t(1) sub low_mask_eq Let_def n_def [symmetric]
        aarch64_masks and.assoc flip: count n(1))
qed

section \<open>Canonical addresses\<close>

lemma aarch64_is_canonical_bits:
  assumes "0 < unat bits" "unat bits < 64"
  shows "aarch64_is_canonical a bits \<longleftrightarrow>
    (\<forall>n. unat bits \<le> n \<and> n < 64 \<longrightarrow> bit a n = bit a (unat bits - 1))"
proof -
  have "checked_sub bits 1 = Some (bits - 1)" "unat (bits - 1) = unat bits - Suc 0"
    using assms by (auto simp: checked_sub_def word_le_nat_alt unat_sub)
  moreover have "unat bits - Suc 0 < 64"
    using assms by simp
  ultimately show ?thesis
    using assms canonical_mask_test [of a "unat bits"]
    by (simp add: aarch64_is_canonical_def low_mask_eq checked_shl_def Let_def)
qed

lemma aarch64_is_canonical_page_base:
  assumes "12 < unat bits" "unat bits < 64"
  shows "aarch64_is_canonical (page_base va) bits = aarch64_is_canonical va bits"
  using assms by (simp add: aarch64_is_canonical_bits bit_page_base)

section \<open>The page contract\<close>

lemma granule_index_page_base: "granule_index g L (unat (page_base va)) = granule_index g L (unat va)"
  unfolding granule_index_def unat_entry_index [symmetric]
  by (simp only: drop_bit_page_base [OF granule_shift_ge])

lemma aarch64_walk_page:
  "L \<le> 4 \<Longrightarrow> page_shifted va (aarch64_walk g rd (page_base va) L table) (aarch64_walk g rd va L table)"
proof (induction L arbitrary: table)
  case 0
  then show ?case by (simp add: page_shifted_Inl)
next
  case (Suc L)
  then show ?case
    unfolding aarch64_walk.simps granule_index_page_base
    by (intro page_shifted_and_then refl) (simp add: granule_shift_ge leaf_translation_page page_shifted_Inl)
qed

definition aarch64_translate_with ::
  "translation_granule \<Rightarrow> u8 \<Rightarrow> read_into \<Rightarrow> translation_root \<Rightarrow> gva \<Rightarrow> translation result" where
  "aarch64_translate_with g bits rd root va =
     and_then (aarch64_new g bits) (\<lambda>t. aarch64_translate t rd root va)"

lemma aarch64_page_law:
  "page_shifted va (aarch64_translate_with g bits rd root (Gva (page_base va)))
    (aarch64_translate_with g bits rd root (Gva va))"
proof (cases "aarch64_new g bits")
  case (Inl e)
  then show ?thesis by (simp add: aarch64_translate_with_def page_shifted_Inl)
next
  case (Inr t)
  obtain r where r: "root = TranslationRoot r" by (cases root)
  have "unat (page_shift g) < unat bits" "unat bits \<le> 48"
    using Inr by (simp_all add: aarch64_new_iff)
  then have "12 < unat bits" "unat bits < 64" "level_total g (unat bits) \<le> 4"
    using granule_consts(4) [of g] div_ceil_levels(3) [of g bits] by linarith+
  then show ?thesis
    by (simp add: aarch64_translate_with_def Inr r aarch64_translate_walk [OF Inr]
        aarch64_is_canonical_page_base aarch64_walk_page page_shifted_Inl)
qed

interpretation aarch64: page_translator "aarch64_translate_with g bits" for g bits
  by unfold_locales (rule aarch64_page_law)

section \<open>The walk implements the paging relation\<close>

inductive aarch64_maps ::
  "translation_granule \<Rightarrow> read_into \<Rightarrow> nat \<Rightarrow> nat \<Rightarrow> nat \<Rightarrow> nat \<Rightarrow> nat \<Rightarrow> bool" for g rd va where
  page: "reads_entry rd (table + 8 * granule_index g 0 va) e \<Longrightarrow> bit e 0 \<Longrightarrow> bit e 1 \<Longrightarrow>
    k = unat (page_shift g) \<Longrightarrow> aarch64_maps g rd va 1 table (frame 48 k e + va mod 2 ^ k) (2 ^ k)"
| block: "reads_entry rd (table + 8 * granule_index g L va) e \<Longrightarrow> bit e 0 \<Longrightarrow> \<not> bit e 1 \<Longrightarrow>
    0 < L \<Longrightarrow> L < 3 \<Longrightarrow> k = granule_shift g L \<Longrightarrow>
    aarch64_maps g rd va (Suc L) table (frame 48 k e + va mod 2 ^ k) (2 ^ k)"
| descend: "reads_entry rd (table + 8 * granule_index g L va) e \<Longrightarrow> bit e 0 \<Longrightarrow> bit e 1 \<Longrightarrow>
    0 < L \<Longrightarrow> aarch64_maps g rd va L (frame 48 (unat (page_shift g)) e) p s \<Longrightarrow>
    aarch64_maps g rd va (Suc L) table p s"

inductive_cases aarch64_maps_0: "aarch64_maps g rd va 0 table p s"

lemma aarch64_maps_Suc:
  "aarch64_maps g rd va (Suc L) table p s \<longleftrightarrow>
    (\<exists>e. reads_entry rd (table + 8 * granule_index g L va) e \<and> bit e 0 \<and>
      (L = 0 \<and> bit e 1 \<and> p = frame 48 (unat (page_shift g)) e + va mod 2 ^ unat (page_shift g) \<and>
         s = 2 ^ unat (page_shift g) \<or>
       0 < L \<and> L < 3 \<and> \<not> bit e 1 \<and>
         p = frame 48 (granule_shift g L) e + va mod 2 ^ granule_shift g L \<and> s = 2 ^ granule_shift g L \<or>
       0 < L \<and> bit e 1 \<and> aarch64_maps g rd va L (frame 48 (unat (page_shift g)) e) p s))"
  (is "?l \<longleftrightarrow> (\<exists>e. ?r e)")
proof
  assume ?l
  then show "\<exists>e. ?r e"
    by (cases rule: aarch64_maps.cases) auto
next
  assume "\<exists>e. ?r e"
  then obtain e where "?r e" ..
  then show ?l
    using aarch64_maps.page [of rd table g va e] aarch64_maps.block [of rd table g L va e]
      aarch64_maps.descend [of rd table g L va e p s]
    by auto
qed

lemma aarch64_walk_maps:
  assumes "L \<le> 4"
  shows "aarch64_walk g rd va L table = Inr t \<longleftrightarrow>
    aarch64_maps g rd (unat va) L (unat table) (unat (gpa_raw (physical_address t))) (unat (page_size t))"
  using assms
proof (induction L arbitrary: table)
  case 0
  then show ?case by (auto elim: aarch64_maps_0)
next
  case (Suc L)
  then have IH: "aarch64_walk g rd va L (e AND table_mask g) = Inr t \<longleftrightarrow>
      aarch64_maps g rd (unat va) L (frame 48 (unat (page_shift g)) e)
        (unat (gpa_raw (physical_address t))) (unat (page_size t))" for e
    by (simp add: unat_table_mask)
  have "unat (page_shift g) < 64" "L < 3 \<Longrightarrow> granule_shift g L < 64" "L < 3 \<longleftrightarrow> L \<noteq> 3"
    using granule_shift_bounds [of L g] Suc.prems by auto
  then show ?case
    unfolding aarch64_maps_Suc aarch64_walk.simps and_then_eq_Inr reads_entry_def
    by (intro ex_cong1) (auto simp: IH leaf_eq_translation split: if_splits)
qed

lemma aarch64_maps_bounds:
  "aarch64_maps g rd va L table p s \<Longrightarrow>
    p < 2 ^ 48 \<and> p mod s = va mod s \<and> s \<in> {2 ^ granule_shift g 0, 2 ^ granule_shift g 1, 2 ^ granule_shift g 2}"
proof (induction rule: aarch64_maps.induct)
  case (page table e k)
  then show ?case
    using frame_mod [of k 48 e va] by (simp add: granule_shift_def)
next
  case (block table L e k)
  then have "L = 1 \<or> L = 2" by auto
  with block show ?case
    using frame_mod [of k 48 e va] granule_shift_bounds [of L g] by auto
qed simp

lemma aarch64_walk_errors:
  assumes "aarch64_walk g rd va L table = Inl e" "0 < L"
  shows "(\<exists>level. e = PageNotPresent va level) \<or> (\<exists>entry level. e = InvalidPageTableEntry entry level) \<or>
    (\<exists>address. (read_scalar rd address LittleEndian :: u64 result) = Inl e)"
  using assms
proof (induction L arbitrary: table)
  case 0
  then show ?case by simp
next
  case (Suc L)
  from Suc.prems(1) show ?case
    unfolding aarch64_walk.simps and_then_eq_Inl
    by (auto simp del: of_nat_add split: if_splits dest!: Suc.IH)
qed

lemma ordinal_lists: "[0 ..< 2] = [0, 1]" "[0 ..< 3] = [0, 1, 2]"
  by (simp_all add: upt_rec)

lemmas aarch64_eval = ordinal_lists aarch64_translate_def aarch64_new_def aarch64_is_canonical_def low_mask_def
  checked_shl_def checked_sub_def checked_add_def checked_mul_def div_ceil_def entry_shift_of_def
  aarch64_read_entry_def aarch64_entry_outcome_def sized_leaf_def VALID_def TABLE_OR_PAGE_def
  PHYSICAL_ADDRESS_MASK_def translation_new_def read_table_memory

section \<open>Properties\<close>

text \<open>
  C3: a translator built by \<open>new\<close> succeeds exactly when the address is canonical and the page
  tables, read as arithmetic over page frames of its granule, map it, and it reports the mapped
  physical address and the size of the page or block.
\<close>

theorem aarch64_translate_correct:
  assumes "aarch64_new g bits = Inr t"
  shows "aarch64_translate t rd (TranslationRoot root) (Gva va) = Inr tr \<longleftrightarrow>
    aarch64_is_canonical va bits \<and>
    aarch64_maps g rd (unat va) (level_total g (unat bits)) (frame 48 (unat (page_shift g)) root)
      (unat (gpa_raw (physical_address tr))) (unat (page_size tr))"
proof -
  have "level_total g (unat bits) \<le> 4"
    using assms div_ceil_levels(3) [of g bits] by (simp add: aarch64_new_iff)
  then show ?thesis
    using aarch64_walk_maps [of "level_total g (unat bits)" g rd va "root AND table_mask g" tr]
    by (simp add: aarch64_translate_walk [OF assms] unat_table_mask)
qed

theorem aarch64_translate_correct_witness:
  "\<exists>t tr. aarch64_new KiB16 36 = Inr t \<and>
    aarch64_translate t (table_memory [(0x4008, 0x8003), (0x8000, 0xc003)])
      (TranslationRoot 0x4000) (Gva 0x2001234) = Inr tr \<and>
    aarch64_maps KiB16 (table_memory [(0x4008, 0x8003), (0x8000, 0xc003)])
      (unat (0x2001234 :: u64)) (level_total KiB16 36) (frame 48 14 0x4000)
      (unat (gpa_raw (physical_address tr))) (unat (page_size tr))"
proof -
  let ?m = "table_memory [(0x4008, 0x8003), (0x8000, 0xc003)]"
  let ?t = "\<lparr>granule = KiB16, address_bits = 36\<rparr>"
  have new: "aarch64_new KiB16 36 = Inr ?t"
    by (simp add: aarch64_new_iff)
  have "aarch64_translate ?t ?m (TranslationRoot 0x4000) (Gva 0x2001234) =
      Inr (translation_new (Gpa 0xd234) (push_bit 14 1))"
    by (simp add: aarch64_eval)
  with aarch64_translate_correct [OF new, where rd = ?m and root = "0x4000" and va = "0x2001234"] new show ?thesis
    by auto
qed

text \<open>
  a physical address produced by a constructed AArch64 translator lies below \<open>2 ^ 48\<close>, agrees
  with the virtual address modulo the page or block size, and that size is one of the granule's
  three leaf sizes.
\<close>

lemma aarch64_translate_bounds:
  assumes "aarch64_new g bits = Inr t" "aarch64_translate t rd (TranslationRoot root) (Gva va) = Inr tr"
  shows "unat (gpa_raw (physical_address tr)) < 2 ^ 48 \<and>
    unat (gpa_raw (physical_address tr)) mod unat (page_size tr) = unat va mod unat (page_size tr) \<and>
    unat (page_size tr) \<in> {2 ^ granule_shift g 0, 2 ^ granule_shift g 1, 2 ^ granule_shift g 2}"
proof -
  have "level_total g (unat bits) \<le> 4"
    using assms(1) div_ceil_levels(3) [of g bits] by (simp add: aarch64_new_iff)
  then show ?thesis
    using assms(2) aarch64_walk_maps [of "level_total g (unat bits)" g rd va "root AND table_mask g" tr]
    by (intro aarch64_maps_bounds) (auto simp: aarch64_translate_walk [OF assms(1)] split: if_splits)
qed

text \<open>
  The constructor accepts exactly the address sizes above the page shift and up to 48 bits, and
  for every translator it builds none of the overflow and underflow errors of the walk can occur:
  a failure is a non-canonical address, an absent or malformed entry, or a failed memory read.
\<close>

lemma aarch64_constructed_errors:
  "(is_ok (aarch64_new g bits) \<longleftrightarrow> unat (page_shift g) < unat bits \<and> unat bits \<le> 48) \<and>
   (aarch64_new g bits = Inr t \<longrightarrow>
    aarch64_translate t rd (TranslationRoot root) (Gva va) = Inl e \<longrightarrow>
    e = NonCanonicalAddress va bits \<and> \<not> aarch64_is_canonical va bits \<or>
    (\<exists>level. e = PageNotPresent va level) \<or> (\<exists>entry level. e = InvalidPageTableEntry entry level) \<or>
    (\<exists>address. (read_scalar rd address LittleEndian :: u64 result) = Inl e))"
proof (intro conjI impI)
  show "is_ok (aarch64_new g bits) \<longleftrightarrow> unat (page_shift g) < unat bits \<and> unat bits \<le> 48"
    using aarch64_new_iff [of g bits] by (cases "aarch64_new g bits") auto
next
  assume new: "aarch64_new g bits = Inr t" and err: "aarch64_translate t rd (TranslationRoot root) (Gva va) = Inl e"
  have "0 < level_total g (unat bits)"
    using new div_ceil_levels(2) [of g bits] by (simp add: aarch64_new_iff)
  then show "e = NonCanonicalAddress va bits \<and> \<not> aarch64_is_canonical va bits \<or>
    (\<exists>level. e = PageNotPresent va level) \<or> (\<exists>entry level. e = InvalidPageTableEntry entry level) \<or>
    (\<exists>address. (read_scalar rd address LittleEndian :: u64 result) = Inl e)"
    using err aarch64_walk_errors [of g rd va "level_total g (unat bits)" "root AND table_mask g" e]
    by (auto simp: aarch64_translate_walk [OF new] split: if_splits)
qed

end
