(* ===== verification/Vmi_Core.thy ===== *)
theory Vmi_Core
  imports Arch_Amd64 Arch_Aarch64
begin

text \<open>
  The crate \<open>vmi-core\<close>: the provider registry, the session wrapper with its bounded translation
  cache, and virtual reads and writes that proceed page by page. A lock is a flag that says
  whether it is poisoned. The locale \<open>lossy_cache\<close> is what the session relies on in its cache; the
  locale \<open>cached_session\<close> is what it relies on in the translators it is given.
\<close>

section \<open>Page arithmetic (lib.rs)\<close>

definition page_remaining :: "u64 \<Rightarrow> usize result" where
  "page_remaining address =
     (let low = address AND 0xfff in
      and_then (if unat low < 2 ^ 16 then Inr (unat low) else Inl (Backend ''page offset overflow''))
        (\<lambda>offset. ok_or (usize_checked_sub 4096 offset) (Backend ''page offset exceeds page size'')))"

section \<open>The provider registry\<close>

record 's connector =
  descriptor :: provider_descriptor
  connect :: "attach_request \<Rightarrow> ('s session \<times> 's) result"

record 's provider_registry =
  providers :: "(string \<times> 's connector) list"
  registry_lock_poisoned :: bool

definition registry_new :: "'s provider_registry" where
  "registry_new = \<lparr>providers = [], registry_lock_poisoned = False\<rparr>"

definition registry_poisoned :: "string \<Rightarrow> vmi_error" where
  "registry_poisoned error = Backend (''provider registry synchronization failed: '' @ error)"

definition lock_registry :: "'s provider_registry \<Rightarrow> (string \<times> 's connector) list result" where
  "lock_registry reg =
     (if registry_lock_poisoned reg then Inl (registry_poisoned poisoned_lock) else Inr (providers reg))"

definition try_clone_string :: "string \<Rightarrow> string \<Rightarrow> string result" where
  "try_clone_string v field = try_clone_text Backend (''failed to allocate provider '' @ field) v"

definition try_clone_descriptor :: "provider_descriptor \<Rightarrow> provider_descriptor result" where
  "try_clone_descriptor d =
     and_then (try_clone_string (provider_id d) ''descriptor ID'') (\<lambda>i.
     and_then (try_clone_string (provider_display_name d) ''descriptor display name'') (\<lambda>name.
     and_then
       (case provider_version d of
          None \<Rightarrow> Inr None
        | Some v \<Rightarrow> and_then (try_clone_string v ''descriptor version'') (\<lambda>v'. Inr (Some v')))
       (\<lambda>ver. Inr \<lparr>provider_id = i, provider_display_name = name, provider_version = ver,
          provider_maturity_of = provider_maturity_of d, provider_capabilities = provider_capabilities d\<rparr>)))"

definition register :: "'s provider_registry \<Rightarrow> 's connector \<Rightarrow> 's provider_registry \<times> unit result" where
  "register reg c =
     (case try_clone_string (provider_id (descriptor c)) ''provider ID'' of
        Inl e \<Rightarrow> (reg, Inl e)
      | Inr i \<Rightarrow>
          if i = [] then (reg, Inl (Backend ''provider ID must not be empty''))
          else
            (case lock_registry reg of
               Inl e \<Rightarrow> (reg, Inl e)
             | Inr m \<Rightarrow>
                 if map_of m i \<noteq> None then
                   (reg, Inl (Backend (''provider '' @ i @ '' is already registered'')))
                 else (reg\<lparr>providers := btree_insert i c m\<rparr>, Inr ())))"

definition unregister :: "'s provider_registry \<Rightarrow> string \<Rightarrow> 's provider_registry \<times> 's connector result" where
  "unregister reg i =
     (case lock_registry reg of
        Inl e \<Rightarrow> (reg, Inl e)
      | Inr m \<Rightarrow>
          (case map_of m i of
             None \<Rightarrow> (reg, Inl (Backend (''provider '' @ i @ '' is not registered'')))
           | Some c \<Rightarrow> (reg\<lparr>providers := btree_remove i m\<rparr>, Inr c)))"

definition connector_of :: "'s provider_registry \<Rightarrow> string \<Rightarrow> 's connector result" where
  "connector_of reg i =
     and_then (lock_registry reg) (\<lambda>m.
       ok_or (map_of m i) (Backend (''provider '' @ i @ '' is not registered'')))"

fun clone_descriptors :: "'s connector list \<Rightarrow> provider_descriptor list result" where
  "clone_descriptors [] = Inr []"
| "clone_descriptors (c # cs) =
     and_then (try_clone_descriptor (descriptor c)) (\<lambda>d.
     and_then (clone_descriptors cs) (\<lambda>ds. Inr (d # ds)))"

text \<open>A connector handle is a fat pointer of 16 bytes; a descriptor takes 88 bytes.\<close>

definition descriptors :: "'s provider_registry \<Rightarrow> provider_descriptor list result" where
  "descriptors reg =
     and_then (lock_registry reg) (\<lambda>m.
       if \<not> reservable (16 * length m) then
         Inl (Backend (''failed to allocate provider connector snapshot: '' @ capacity_overflow))
       else if \<not> reservable (88 * length m) then
         Inl (Backend (''failed to allocate provider descriptor list: '' @ capacity_overflow))
       else clone_descriptors (map snd m))"

definition registry_len :: "'s provider_registry \<Rightarrow> usize result" where
  "registry_len reg = and_then (lock_registry reg) (\<lambda>m. Inr (length m))"

definition registry_is_empty :: "'s provider_registry \<Rightarrow> bool result" where
  "registry_is_empty reg = and_then (registry_len reg) (\<lambda>n. Inr (n = 0))"

section \<open>The translation cache\<close>

type_synonym cache_key = "u64 \<times> u64 \<times> u64"

record translation_cache =
  capacity :: usize
  entries :: "(cache_key \<times> translation) list"
  order :: "cache_key list"

text \<open>Keys take 24 bytes and entries 40.\<close>

definition cache_new :: "usize \<Rightarrow> translation_cache result" where
  "cache_new cap =
     (if cap = 0 then Inl (Backend ''translation cache capacity must be non-zero'')
      else
        and_then (ok_or (usize_checked_add cap 1) (Backend ''translation cache capacity overflow''))
          (\<lambda>allocation.
            if \<not> reservable (40 * allocation) then
              Inl (Backend (''failed to allocate translation cache: '' @ capacity_overflow))
            else if \<not> reservable (24 * allocation) then
              Inl (Backend (''failed to allocate translation cache order: '' @ capacity_overflow))
            else Inr \<lparr>capacity = cap, entries = [], order = []\<rparr>))"

definition cache_get :: "translation_cache \<Rightarrow> cache_key \<Rightarrow> translation option" where
  "cache_get c key = map_of (entries c) key"

definition cache_insert ::
  "translation_cache \<Rightarrow> cache_key \<Rightarrow> translation \<Rightarrow> translation_cache \<times> unit result" where
  "cache_insert c key v =
     (let entries' = AList.update key v (entries c) in
      if map_of (entries c) key \<noteq> None then (c\<lparr>entries := entries'\<rparr>, Inr ())
      else
        (let order' = order c @ [key] in
         if length entries' > capacity c then
           (case order' of
              [] \<Rightarrow> (c\<lparr>entries := entries', order := order'\<rparr>, Inr ())
            | oldest # rest \<Rightarrow>
                (c\<lparr>entries := AList.delete oldest entries', order := rest\<rparr>, Inr ()))
         else (c\<lparr>entries := entries', order := order'\<rparr>, Inr ())))"

definition cache_clear :: "translation_cache \<Rightarrow> translation_cache" where
  "cache_clear c = c\<lparr>entries := [], order := []\<rparr>"

section \<open>Sessions\<close>

record 's vmi_session =
  session_ops :: "'s session"
  session_state :: 's
  translation_store :: translation_cache
  cache_lock_poisoned :: bool

definition translation_cache_poisoned :: "string \<Rightarrow> vmi_error" where
  "translation_cache_poisoned error = Backend (''translation cache synchronization failed: '' @ error)"

definition lock_translations :: "'s vmi_session \<Rightarrow> translation_cache result" where
  "lock_translations s =
     (if cache_lock_poisoned s then Inl (translation_cache_poisoned poisoned_lock)
      else Inr (translation_store s))"

definition vmi_attach :: "'s connector \<Rightarrow> attach_request \<Rightarrow> 's vmi_session result" where
  "vmi_attach c request =
     and_then (connect c request) (\<lambda>(ops, s).
     and_then (cache_new 4096) (\<lambda>cache.
       Inr \<lparr>session_ops = ops, session_state = s, translation_store = cache, cache_lock_poisoned = False\<rparr>))"

definition registry_attach :: "'s provider_registry \<Rightarrow> string \<Rightarrow> attach_request \<Rightarrow> 's vmi_session result" where
  "registry_attach reg i request = and_then (connector_of reg i) (\<lambda>c. vmi_attach c request)"

definition vmi_memory :: "'s vmi_session \<Rightarrow> read_into result" where
  "vmi_memory s =
     and_then (session_memory (session_ops s) (session_state s)) (\<lambda>m. Inr (m (session_state s)))"

definition vmi_read_bytes :: "'s vmi_session \<Rightarrow> gpa \<Rightarrow> usize \<Rightarrow> u8 list result" where
  "vmi_read_bytes s address len = and_then (vmi_memory s) (\<lambda>m. read_bytes m address len)"

definition vmi_read_scalar :: "'s vmi_session \<Rightarrow> gpa \<Rightarrow> byte_order \<Rightarrow> 'a::len word result" where
  "vmi_read_scalar s address ord = and_then (vmi_memory s) (\<lambda>m. read_scalar m address ord)"

definition clear_translation_cache :: "'s vmi_session \<Rightarrow> 's vmi_session \<times> unit result" where
  "clear_translation_cache s =
     (case lock_translations s of
        Inl e \<Rightarrow> (s, Inl e)
      | Inr c \<Rightarrow> (s\<lparr>translation_store := cache_clear c\<rparr>, Inr ()))"

definition vmi_write_bytes :: "'s vmi_session \<Rightarrow> gpa \<Rightarrow> u8 list \<Rightarrow> 's vmi_session \<times> unit result" where
  "vmi_write_bytes s address data =
     (case session_memory_write (session_ops s) (session_state s) of
        Inl e \<Rightarrow> (s, Inl e)
      | Inr w \<Rightarrow>
          (case write_bytes w (session_state s) address data of
             (st, r) \<Rightarrow>
               (case clear_translation_cache (s\<lparr>session_state := st\<rparr>) of
                  (s', invalidation) \<Rightarrow> (s', and_then r (\<lambda>_. invalidation)))))"

definition offset_translation :: "translation \<Rightarrow> u64 \<Rightarrow> gva \<Rightarrow> translation result" where
  "offset_translation tr page_offset address =
     and_then (ok_or (checked_add (gpa_raw (physical_address tr)) page_offset)
       (ReadFailed (gva_raw address) 1))
       (\<lambda>physical. Inr (translation_new (Gpa physical) (page_size tr)))"

definition vmi_translate ::
  "'s vmi_session \<Rightarrow> address_translator \<Rightarrow> translation_root \<Rightarrow> gva \<Rightarrow> 's vmi_session \<times> translation result" where
  "vmi_translate s tr root address =
     (let page_address = gva_raw address AND NOT 0xfff in
      case checked_sub (gva_raw address) page_address of
        None \<Rightarrow> (s, Inl (Backend ''virtual page offset underflow''))
      | Some page_offset \<Rightarrow>
          (let key = (cache_tag tr, root_raw root, page_address) in
           case lock_translations s of
             Inl e \<Rightarrow> (s, Inl e)
           | Inr cache \<Rightarrow>
               (case cache_get cache key of
                  Some v \<Rightarrow> (s, offset_translation v page_offset address)
                | None \<Rightarrow>
                    (case and_then (vmi_memory s) (\<lambda>m. translate tr m root (Gva page_address)) of
                       Inl e \<Rightarrow> (s, Inl e)
                     | Inr v \<Rightarrow>
                         (case lock_translations s of
                            Inl e \<Rightarrow> (s, Inl e)
                          | Inr cache' \<Rightarrow>
                              (case cache_insert cache' key v of
                                 (c, r) \<Rightarrow>
                                   (s\<lparr>translation_store := c\<rparr>,
                                    and_then r (\<lambda>_. offset_translation v page_offset address))))))))"

text \<open>
  One step of both transfer loops: the current virtual address and the end of the chunk that
  stays inside its page.
\<close>

definition next_chunk :: "vmi_error \<Rightarrow> string \<Rightarrow> u64 \<Rightarrow> usize \<Rightarrow> usize \<Rightarrow> (u64 \<times> usize) result" where
  "next_chunk underflow overflow address len completed =
     and_then (ok_or (u64_of_usize completed) (ReadFailed address len)) (\<lambda>completed_address.
     and_then (ok_or (checked_add address completed_address) (ReadFailed address len)) (\<lambda>current.
     and_then (page_remaining current) (\<lambda>page_left.
     and_then (ok_or (usize_checked_sub len completed) underflow) (\<lambda>remaining.
     and_then (ok_or (usize_checked_add completed (min page_left remaining)) (Backend overflow))
       (\<lambda>chunk_end. Inr (current, chunk_end))))))"

lemma page_remaining_eq: "page_remaining a = Inr (4096 - unat a mod 4096)"
proof -
  have "unat (a AND 0xfff) = unat a mod 4096"
    using unat_and_mask [of a 12] by (simp add: mask_eq_exp_minus_1)
  moreover have "unat a mod 4096 < 4096" by simp
  moreover from this have "unat a mod 4096 \<le> 4096" "unat a mod 4096 < 65536" by linarith+
  ultimately show ?thesis
    by (simp add: page_remaining_def usize_checked_sub_def)
qed

lemma next_chunk_progress:
  assumes "next_chunk u v address len completed = Inr (current, chunk_end)" "completed < len"
  shows "completed < chunk_end" "chunk_end \<le> len"
proof -
  have "0 < 4096 - unat c mod 4096" for c :: u64
    by simp
  then show "completed < chunk_end" "chunk_end \<le> len"
    using assms by (auto simp: next_chunk_def page_remaining_eq usize_checked_sub_def usize_checked_add_def
        min_def split: if_splits)
qed

function read_virtual_loop ::
  "read_into \<Rightarrow> address_translator \<Rightarrow> translation_root \<Rightarrow> u64 \<Rightarrow> usize \<Rightarrow> 's vmi_session \<Rightarrow>
   u8 list \<Rightarrow> usize \<Rightarrow> 's vmi_session \<times> u8 list result" where
  "read_virtual_loop memory tr root address len s output completed =
     (if completed < len then
        (case next_chunk (ReadFailed address len) ''virtual read chunk overflow'' address len completed of
           Inl e \<Rightarrow> (s, Inl e)
         | Inr (current, chunk_end) \<Rightarrow>
             (case get_range output completed chunk_end of
                None \<Rightarrow> (s, Inl (Backend ''virtual read chunk is out of bounds''))
              | Some chunk \<Rightarrow>
                  (case vmi_translate s tr root (Gva current) of
                     (s', Inl e) \<Rightarrow> (s', Inl e)
                   | (s', Inr t) \<Rightarrow>
                       (case memory (physical_address t) chunk of
                          (chunk', Inl e) \<Rightarrow> (s', Inl e)
                        | (chunk', Inr _) \<Rightarrow>
                            read_virtual_loop memory tr root address len s'
                              (splice output completed chunk') chunk_end))))
      else (s, Inr output))"
  by pat_completeness auto

termination
  by (relation "measure (\<lambda>(memory, tr, root, address, len, s, output, completed). len - completed)")
    (auto dest: next_chunk_progress)

definition read_virtual ::
  "'s vmi_session \<Rightarrow> address_translator \<Rightarrow> translation_root \<Rightarrow> gva \<Rightarrow> usize \<Rightarrow> 's vmi_session \<times> u8 list result" where
  "read_virtual s tr root address len =
     (if \<not> reservable len then
        (s, Inl (Backend (''failed to allocate '' @ dec len @ ''-byte virtual read buffer: '' @ capacity_overflow)))
      else
        (case vmi_memory s of
           Inl e \<Rightarrow> (s, Inl e)
         | Inr memory \<Rightarrow> read_virtual_loop memory tr root (gva_raw address) len s (replicate len 0) 0))"

function write_virtual_loop ::
  "'s memory_write_access \<Rightarrow> address_translator \<Rightarrow> translation_root \<Rightarrow> u64 \<Rightarrow> u8 list \<Rightarrow> 's vmi_session \<Rightarrow>
   usize \<Rightarrow> 's vmi_session \<times> unit result" where
  "write_virtual_loop memory tr root address data s completed =
     (if completed < length data then
        (case next_chunk (Backend ''virtual write progress exceeds input length'')
            ''virtual write chunk overflow'' address (length data) completed of
           Inl e \<Rightarrow> (s, Inl e)
         | Inr (current, chunk_end) \<Rightarrow>
             (case get_range data completed chunk_end of
                None \<Rightarrow> (s, Inl (Backend ''virtual write chunk is out of bounds''))
              | Some chunk \<Rightarrow>
                  (case vmi_translate s tr root (Gva current) of
                     (s', Inl e) \<Rightarrow> (s', Inl e)
                   | (s', Inr t) \<Rightarrow>
                       (case memory (session_state s') (physical_address t) chunk of
                          (st, Inl e) \<Rightarrow> (s'\<lparr>session_state := st\<rparr>, Inl e)
                        | (st, Inr _) \<Rightarrow>
                            write_virtual_loop memory tr root address data (s'\<lparr>session_state := st\<rparr>) chunk_end))))
      else (s, Inr ()))"
  by pat_completeness auto

termination
  by (relation "measure (\<lambda>(memory, tr, root, address, data, s, completed). length data - completed)")
    (auto dest: next_chunk_progress)

definition write_virtual ::
  "'s vmi_session \<Rightarrow> address_translator \<Rightarrow> translation_root \<Rightarrow> gva \<Rightarrow> u8 list \<Rightarrow> 's vmi_session \<times> unit result" where
  "write_virtual s tr root address data =
     (case
        (case session_memory_write (session_ops s) (session_state s) of
           Inl e \<Rightarrow> (s, Inl e)
         | Inr w \<Rightarrow> write_virtual_loop w tr root (gva_raw address) data s 0)
      of (s1, r) \<Rightarrow>
        (case clear_translation_cache s1 of
           (s2, invalidation) \<Rightarrow> (s2, and_then r (\<lambda>_. invalidation))))"

declare read_virtual_loop.simps [simp del] write_virtual_loop.simps [simp del]

section \<open>The contract of a bounded cache\<close>

text \<open>
  A lossy cache may forget entries, but never returns anything that was not inserted under the
  key since the last clear, and returns what was just inserted.
\<close>

locale lossy_cache =
  fixes get :: "'c \<Rightarrow> 'k \<Rightarrow> 'v option"
    and put :: "'c \<Rightarrow> 'k \<Rightarrow> 'v \<Rightarrow> 'c"
    and clear :: "'c \<Rightarrow> 'c"
    and inv :: "'c \<Rightarrow> bool"
  assumes get_put_same: "inv c \<Longrightarrow> get (put c k v) k = Some v"
    and get_put_other: "inv c \<Longrightarrow> k' \<noteq> k \<Longrightarrow> get (put c k v) k' = Some v' \<Longrightarrow> get c k' = Some v'"
    and get_clear: "get (clear c) k = None"
    and inv_put: "inv c \<Longrightarrow> inv (put c k v)"
    and inv_clear: "inv c \<Longrightarrow> inv (clear c)"
begin

definition sound :: "('k \<Rightarrow> 'v \<Rightarrow> bool) \<Rightarrow> 'c \<Rightarrow> bool" where
  "sound P c \<longleftrightarrow> inv c \<and> (\<forall>k v. get c k = Some v \<longrightarrow> P k v)"

lemma sound_put: "sound P c \<Longrightarrow> P k v \<Longrightarrow> sound P (put c k v)"
  unfolding sound_def using inv_put get_put_same get_put_other
  by (metis option.inject)

lemma sound_clear: "inv c \<Longrightarrow> sound P (clear c)"
  by (simp add: sound_def inv_clear get_clear)

lemma sound_get: "sound P c \<Longrightarrow> get c k = Some v \<Longrightarrow> P k v"
  by (simp add: sound_def)

end

definition cache_ok :: "translation_cache \<Rightarrow> bool" where
  "cache_ok c \<longleftrightarrow> 0 < capacity c \<and> distinct (map fst (entries c)) \<and> distinct (order c) \<and>
     set (order c) = fst ` set (entries c) \<and> length (entries c) \<le> capacity c"

lemma cache_ok_lengths: "cache_ok c \<Longrightarrow> length (order c) = length (entries c)"
  unfolding cache_ok_def by (metis distinct_card length_map set_map)

lemma map_of_None_key: "map_of al k = None \<longleftrightarrow> k \<notin> fst ` set al"
  by (rule map_of_eq_None_iff)

lemma length_update_fresh: "map_of al k = None \<Longrightarrow> length (AList.update k v al) = Suc (length al)"
  by (induction al) (auto split: if_splits)

lemma length_update_present: "map_of al k \<noteq> None \<Longrightarrow> length (AList.update k v al) = length al"
  by (induction al) (auto split: if_splits)

lemma length_delete_present:
  "distinct (map fst al) \<Longrightarrow> k \<in> fst ` set al \<Longrightarrow> Suc (length (AList.delete k al)) = length al"
proof (induction al)
  case (Cons x al)
  then show ?case
    by (cases "fst x = k") (auto simp: delete_id)
qed simp

lemma cache_new_ok: "cache_new 4096 = Inr c \<Longrightarrow> cache_ok c \<and> entries c = [] \<and> capacity c = 4096"
  by (auto simp: cache_new_def cache_ok_def split: if_splits)

lemma cache_new_4096: "cache_new 4096 = Inr \<lparr>capacity = 4096, entries = [], order = []\<rparr>"
  by (simp add: cache_new_def usize_checked_add_def usize_bound_def reservable_def isize_max_def)

text \<open>The three branches of an insertion: overwrite, append, append and evict the oldest key.\<close>

lemma cache_insert_cases:
  assumes "cache_ok c"
  obtains (overwrite) "map_of (entries c) k \<noteq> None"
      "cache_insert c k v = (c\<lparr>entries := AList.update k v (entries c)\<rparr>, Inr ())"
  | (append) "map_of (entries c) k = None" "length (entries c) < capacity c"
      "cache_insert c k v = (c\<lparr>entries := AList.update k v (entries c), order := order c @ [k]\<rparr>, Inr ())"
  | (evict) oldest rest where "map_of (entries c) k = None" "length (entries c) = capacity c"
      "order c = oldest # rest" "oldest \<noteq> k"
      "cache_insert c k v = (c\<lparr>entries := AList.delete oldest (AList.update k v (entries c)),
         order := rest @ [k]\<rparr>, Inr ())"
proof (cases "map_of (entries c) k")
  case (Some w)
  then show thesis by (intro overwrite) (simp_all add: cache_insert_def Let_def)
next
  case None
  show thesis
  proof (cases "length (entries c) < capacity c")
    case True
    with None show thesis
      by (intro append) (simp_all add: cache_insert_def Let_def length_update_fresh)
  next
    case False
    then have full: "length (entries c) = capacity c" "length (order c) = capacity c" "0 < capacity c"
      using assms cache_ok_lengths [OF assms] by (simp_all add: cache_ok_def)
    then obtain oldest rest where o: "order c = oldest # rest"
      by (cases "order c") simp_all
    then have "oldest \<noteq> k"
      using None assms by (auto simp: cache_ok_def map_of_None_key)
    with None full o show thesis
      by (intro evict [of oldest rest]) (simp_all add: cache_insert_def Let_def length_update_fresh)
  qed
qed

lemma cache_insert_ok:
  assumes ok: "cache_ok c"
  shows "cache_ok (fst (cache_insert c k v)) \<and> snd (cache_insert c k v) = Inr ()"
  using ok
proof (cases rule: cache_insert_cases [where k = k and v = v])
  case overwrite
  have "k \<in> fst ` set (entries c)"
    using overwrite(1) by (simp add: map_of_None_key)
  then show ?thesis
    using overwrite ok by (auto simp: cache_ok_def distinct_update length_update_present dom_update)
next
  case append
  then show ?thesis
    using ok by (auto simp: cache_ok_def distinct_update length_update_fresh dom_update map_of_None_key)
next
  case (evict oldest rest)
  let ?u = "AList.update k v (entries c)"
  have d: "distinct (map fst ?u)" "oldest \<in> fst ` set ?u"
    using ok evict by (auto simp: cache_ok_def distinct_update dom_update)
  have "Suc (length (AList.delete oldest ?u)) = Suc (capacity c)"
    using length_delete_present [OF d] evict by (simp add: length_update_fresh)
  moreover have "fst ` set (AList.delete oldest ?u) = fst ` set ?u - {oldest}"
    by (metis delete_keys set_map set_removeAll)
  then have "fst ` set (AList.delete oldest ?u) = set (rest @ [k])"
    using ok evict by (auto simp only: cache_ok_def dom_update list.set set_append distinct.simps)
  moreover have "distinct (rest @ [k])"
    using ok evict by (auto simp: cache_ok_def map_of_None_key)
  ultimately show ?thesis
    using ok evict d by (simp add: cache_ok_def distinct_delete)
qed

interpretation tc: lossy_cache cache_get "\<lambda>c k v. fst (cache_insert c k v)" cache_clear cache_ok
proof
  fix c k v k' v'
  assume ok: "cache_ok c"
  show "cache_get (fst (cache_insert c k v)) k = Some v"
    by (cases rule: cache_insert_cases [OF ok, of k v]) (auto simp: cache_get_def update_conv' delete_conv')
  show "cache_ok (fst (cache_insert c k v))"
    using cache_insert_ok [OF ok] by simp
  show "cache_ok (cache_clear c)"
    using ok by (simp add: cache_clear_def cache_ok_def)
  assume "k' \<noteq> k" "cache_get (fst (cache_insert c k v)) k' = Some v'"
  then show "cache_get c k' = Some v'"
    by (cases rule: cache_insert_cases [OF ok, of k v])
      (auto simp: cache_get_def update_conv' delete_conv' split: if_splits)
qed (simp add: cache_clear_def cache_get_def)

section \<open>The cache is a bounded queue\<close>

definition cache_view :: "translation_cache \<Rightarrow> (cache_key \<times> translation) list" where
  "cache_view c = map (\<lambda>k. (k, the (map_of (entries c) k))) (order c)"

definition fifo_insert :: "nat \<Rightarrow> ('k \<times> 'v) list \<Rightarrow> 'k \<Rightarrow> 'v \<Rightarrow> ('k \<times> 'v) list" where
  "fifo_insert cap q k v =
     (if k \<in> fst ` set q then map (\<lambda>(k', w). (k', if k' = k then v else w)) q
      else if length q < cap then q @ [(k, v)]
      else tl q @ [(k, v)])"

lemma cache_view_keys: "cache_ok c \<Longrightarrow> k \<in> fst ` set (cache_view c) \<longleftrightarrow> map_of (entries c) k \<noteq> None"
  by (auto simp: cache_view_def cache_ok_def map_of_None_key image_image)

lemma cache_view_insert:
  assumes ok: "cache_ok c"
  shows "cache_view (fst (cache_insert c k v)) = fifo_insert (capacity c) (cache_view c) k v"
  using ok
proof (cases rule: cache_insert_cases [where k = k and v = v])
  case overwrite
  then show ?thesis
    by (simp add: fifo_insert_def cache_view_keys [OF ok]) (simp add: cache_view_def update_conv')
next
  case append
  have "length (cache_view c) < capacity c" "k \<notin> set (order c)"
    using append ok by (simp_all add: cache_view_def cache_ok_lengths [OF ok] cache_ok_def map_of_None_key)
  with append show ?thesis
    by (simp add: fifo_insert_def cache_view_keys [OF ok])
      (auto simp: cache_view_def update_conv' intro!: map_cong)
next
  case (evict oldest rest)
  have "distinct (oldest # rest)" "k \<notin> set (oldest # rest)"
    using evict(1,3) ok unfolding cache_ok_def map_of_None_key by metis+
  moreover have "length (cache_view c) = capacity c"
    using evict(2) by (simp add: cache_view_def cache_ok_lengths [OF ok])
  ultimately have "length (cache_view c) = capacity c" "k \<notin> set rest" "oldest \<notin> set rest"
    by simp_all
  moreover from this have
    "map (\<lambda>x. (x, the (map_of (AList.delete oldest (AList.update k v (entries c))) x))) (rest @ [k]) =
     map (\<lambda>x. (x, the (map_of (entries c) x))) rest @ [(k, v)]"
    using evict(4) by (auto simp: update_conv' delete_conv')
  ultimately show ?thesis
    using evict(1,3,5) by (simp add: fifo_insert_def cache_view_keys [OF ok]) (simp add: cache_view_def)
qed

section \<open>Coherence of cached translations\<close>

text \<open>
  A session is coherent for a family of translators when every cached translation is what the
  translator with that tag computes now, from the memory the session reads.
\<close>

definition cached_translation_valid ::
  "address_translator set \<Rightarrow> read_into \<Rightarrow> cache_key \<Rightarrow> translation \<Rightarrow> bool" where
  "cached_translation_valid T rd = (\<lambda>(tag, root, page) v. page_base page = page \<and>
     (\<forall>t \<in> T. cache_tag t = tag \<longrightarrow> translate t rd (TranslationRoot root) (Gva page) = Inr v))"

definition cache_coherent :: "address_translator set \<Rightarrow> 's vmi_session \<Rightarrow> read_into \<Rightarrow> bool" where
  "cache_coherent T s rd \<longleftrightarrow> vmi_memory s = Inr rd \<and> \<not> cache_lock_poisoned s \<and>
     cache_ok (translation_store s) \<and>
     (\<forall>key v. cache_get (translation_store s) key = Some v \<longrightarrow> cached_translation_valid T rd key v)"

lemma cache_coherent_sound:
  "cache_coherent T s rd \<longleftrightarrow> vmi_memory s = Inr rd \<and> \<not> cache_lock_poisoned s \<and>
     tc.sound (cached_translation_valid T rd) (translation_store s)"
  by (auto simp: cache_coherent_def tc.sound_def)

lemma vmi_memory_store [simp]: "vmi_memory (s\<lparr>translation_store := c\<rparr>) = vmi_memory s"
  by (simp add: vmi_memory_def)

lemma page_offset_sub: "checked_sub va (page_base va) = Some (va - page_base va)"
    "unat (va - page_base va) = unat va mod 4096"
proof -
  have le: "unat (page_base va) \<le> unat va"
    by (simp add: unat_page_base)
  then show "checked_sub va (page_base va) = Some (va - page_base va)"
    by (simp add: checked_sub_def word_le_nat_alt)
  have "unat (va - page_base va) = unat va - unat (page_base va)"
    using le by (simp add: unat_sub word_le_nat_alt)
  then show "unat (va - page_base va) = unat va mod 4096"
    by (simp add: unat_page_base minus_div_mult_eq_mod)
qed

text \<open>Moving a page's translation by the offset is the translation of the address itself.\<close>

lemma offset_translation_page:
  assumes "page_translator tr" "tr rd root (Gva (page_base va)) = Inr v"
  shows "offset_translation v (va - page_base va) (Gva va) = tr rd root (Gva va)"
proof -
  obtain t where t: "tr rd root (Gva va) = Inr t" "page_size t = page_size v"
    "unat (gpa_raw (physical_address t)) = unat (gpa_raw (physical_address v)) + unat va mod 4096"
    using page_translator.page_success [OF assms] by blast
  have "checked_add (gpa_raw (physical_address v)) (va - page_base va) = Some (gpa_raw (physical_address t))"
    using t(3) u64_unat_bound [of "gpa_raw (physical_address t)"]
    by (simp add: checked_add_Some page_offset_sub(2) word_unat_eq_iff unat_word_ariths)
  with t show ?thesis
    by (simp add: offset_translation_def translation_new_def)
qed

lemma vmi_translate_unlocked:
  assumes "\<not> cache_lock_poisoned s"
  shows "vmi_translate s t root (Gva va) =
    (let key = (cache_tag t, root_raw root, page_base va) in
     case cache_get (translation_store s) key of
       Some v \<Rightarrow> (s, offset_translation v (va - page_base va) (Gva va))
     | None \<Rightarrow>
         (case and_then (vmi_memory s) (\<lambda>m. translate t m root (Gva (page_base va))) of
            Inl e \<Rightarrow> (s, Inl e)
          | Inr v \<Rightarrow>
              (s\<lparr>translation_store := fst (cache_insert (translation_store s) key v)\<rparr>,
               and_then (snd (cache_insert (translation_store s) key v))
                 (\<lambda>_. offset_translation v (va - page_base va) (Gva va)))))"
proof -
  have lock: "lock_translations s = Inr (translation_store s)"
    using assms by (simp add: lock_translations_def)
  show ?thesis
    unfolding vmi_translate_def page_base_def [symmetric] gva.sel Let_def page_offset_sub(1) lock
      sum.case option.case case_prod_unfold ..
qed

text \<open>
  The byte at virtual address \<open>n\<close>: translate it, then look at physical memory. Chunks of a
  transfer stay inside one page, where the physical bytes are contiguous.
\<close>

definition virtual_byte ::
  "read_into \<Rightarrow> (nat \<Rightarrow> u8 option) \<Rightarrow> address_translator \<Rightarrow> translation_root \<Rightarrow> nat \<Rightarrow> u8 option" where
  "virtual_byte rd bytes t root n =
     (if n < 2 ^ 64 then
        (case translate t rd root (Gva (of_nat n)) of
           Inl e \<Rightarrow> None
         | Inr x \<Rightarrow> bytes (unat (gpa_raw (physical_address x))))
      else None)"

lemma same_page_unat:
  fixes c :: u64
  assumes "unat c mod 4096 + j < 4096"
  shows "unat c + j < 2 ^ 64" "page_base (of_nat (unat c + j)) = page_base c"
    "unat (of_nat (unat c + j) :: u64) mod 4096 = unat c mod 4096 + j"
proof -
  define q where "q = unat c div 4096"
  have q: "unat c = 4096 * q + unat c mod 4096"
    by (simp add: q_def)
  have "q < 2 ^ 52"
    unfolding q_def using u64_unat_bound [of c] by (intro less_mult_imp_div_less) simp
  then have "4096 * q + 4096 \<le> 2 ^ 64"
    by simp
  then show bound: "unat c + j < 2 ^ 64"
    using q assms by simp
  then have u: "unat (of_nat (unat c + j) :: u64) = unat c + j"
    by (subst unat_of_nat) simp
  have split: "unat c + j = (unat c mod 4096 + j) + 4096 * q"
    using q by linarith
  then have d: "(unat c + j) div 4096 = q" "(unat c + j) mod 4096 = unat c mod 4096 + j"
    using assms by (simp_all only: div_mult_self2 mod_mult_self2 div_less mod_less)
  show "unat (of_nat (unat c + j) :: u64) mod 4096 = unat c mod 4096 + j"
    unfolding u by (rule d(2))
  show "page_base (of_nat (unat c + j)) = page_base c"
    unfolding word_unat_eq_iff unat_page_base u d(1) q_def ..
qed

lemma virtual_byte_page:
  assumes "page_translator (translate t)" "translate t rd root (Gva c) = Inr x" "unat c mod 4096 + j < 4096"
  shows "virtual_byte rd bytes t root (unat c + j) = bytes (unat (gpa_raw (physical_address x)) + j)"
proof -
  note page = same_page_unat [OF assms(3)]
  obtain v where v: "translate t rd root (Gva (page_base c)) = Inr v"
    "unat (gpa_raw (physical_address x)) = unat (gpa_raw (physical_address v)) + unat c mod 4096"
    using assms(2) page_translator.page_success_iff [OF assms(1), of rd root c x] by blast
  then obtain y where y: "translate t rd root (Gva (of_nat (unat c + j))) = Inr y"
    "unat (gpa_raw (physical_address y)) = unat (gpa_raw (physical_address v)) + (unat c mod 4096 + j)"
    using page_translator.page_success [OF assms(1), of rd root "of_nat (unat c + j)" v] page(2,3) by auto
  then show ?thesis
    using page(1) v(2) by (simp add: virtual_byte_def add.assoc del: of_nat_add)
qed

lemma next_chunk_Inr:
  assumes "next_chunk u o' address len completed = Inr (current, chunk_end)" "completed < len" "len < 2 ^ 63"
  shows "unat current = unat address + completed"
    "chunk_end - completed \<le> 4096 - unat current mod 4096"
proof -
  obtain a where a: "u64_of_usize completed = Some a" "checked_add address a = Some current"
    using assms(1) by (auto simp: next_chunk_def)
  then show "unat current = unat address + completed"
    using unat_checked_add [OF a(2)] by (auto simp: u64_of_usize_def unat_of_nat split: if_splits)
  show "chunk_end - completed \<le> 4096 - unat current mod 4096"
    using assms a by (auto simp: next_chunk_def page_remaining_eq usize_checked_sub_def usize_checked_add_def
        split: if_splits)
qed

lemma next_chunk_Inl:
  assumes "next_chunk u o' address len completed = Inl e" "completed < len" "len < 2 ^ 63"
  shows "2 ^ 64 \<le> unat address + completed"
proof (rule ccontr)
  assume "\<not> 2 ^ 64 \<le> unat address + completed"
  then have bound: "unat address + completed < 2 ^ 64" by simp
  then have c: "unat (of_nat completed :: u64) = completed"
    by (subst unat_of_nat) simp
  have "u64_of_usize completed = Some (of_nat completed)"
    using assms(2,3) by (simp add: u64_of_usize_def)
  moreover have "checked_add address (of_nat completed) = Some (address + of_nat completed)"
    using bound c by (simp add: checked_add_def)
  moreover have "completed + min k (len - completed) < usize_bound" for k
    using assms(2,3) by (simp add: usize_bound_def min_def) linarith
  ultimately show False
    using assms by (auto simp: next_chunk_def page_remaining_eq usize_checked_sub_def usize_checked_add_def
        and_then_eq_Inl ok_or_eq_Inl)
qed

locale cached_session =
  fixes T :: "address_translator set"
  assumes tags_distinct: "inj_on cache_tag T"
    and pages: "t \<in> T \<Longrightarrow> page_translator (translate t)"
begin

lemma translate_coherent:
  assumes co: "cache_coherent T s rd" and t: "t \<in> T" and step: "vmi_translate s t root (Gva va) = (s', r)"
  shows "cache_coherent T s' rd \<and> (\<exists>c. s' = s\<lparr>translation_store := c\<rparr>) \<and>
    (case translate t rd root (Gva va) of
       Inr x \<Rightarrow> r = Inr x
     | Inl e \<Rightarrow> \<exists>e'. r = Inl e' \<and> error_kind e' = error_kind e)"
proof -
  obtain rt where root: "root = TranslationRoot rt" by (cases root)
  note pt = pages [OF t]
  note mem = co [unfolded cache_coherent_def]
  let ?key = "(cache_tag t, rt, page_base va)"
  note unfold = step [unfolded vmi_translate_unlocked [OF mem [THEN conjunct2, THEN conjunct1]]]
  have same: "\<exists>c. s = s\<lparr>translation_store := c\<rparr>"
    by (rule exI [of _ "translation_store s"]) simp
  show ?thesis
  proof (cases "cache_get (translation_store s) ?key")
    case (Some v)
    then have v: "translate t rd root (Gva (page_base va)) = Inr v"
      using mem t root by (auto simp: cached_translation_valid_def)
    have "s' = s" "r = translate t rd root (Gva va)"
      using unfold Some offset_translation_page [OF pt v] by (simp_all add: root)
    with co same show ?thesis
      by (auto split: sum.splits)
  next
    case None
    show ?thesis
    proof (cases "translate t rd root (Gva (page_base va))")
      case (Inl e)
      obtain e' where "translate t rd root (Gva va) = Inl e'" "error_kind e' = error_kind e"
        using page_translator.page_failure [OF pt Inl] by blast
      moreover have "s' = s" "r = Inl e"
        using unfold None Inl mem by (simp_all add: root)
      ultimately show ?thesis
        using co same by auto
    next
      case (Inr v)
      let ?c = "fst (cache_insert (translation_store s) ?key v)"
      have "cached_translation_valid T rd ?key v"
        using Inr t tags_distinct root by (auto simp: cached_translation_valid_def dest: inj_onD)
      then have "cache_coherent T (s\<lparr>translation_store := ?c\<rparr>) rd"
        using co tc.sound_put by (simp add: cache_coherent_sound)
      moreover have "s' = s\<lparr>translation_store := ?c\<rparr>" "r = translate t rd root (Gva va)"
        using unfold None Inr mem offset_translation_page [OF pt Inr]
          cache_insert_ok [of "translation_store s" ?key v]
        by (simp_all add: root)
      ultimately show ?thesis
        by (auto split: sum.splits)
    qed
  qed
qed

lemma translate_unmapped:
  assumes "cache_coherent T s rd" "t \<in> T" "vmi_translate s t root (Gva va) = (s', Inl e)"
  shows "virtual_byte rd bytes t root (unat va) = None"
  using translate_coherent [OF assms] by (simp add: virtual_byte_def split: sum.splits)

text \<open>One iteration either fails at a byte that has no value, or fills in one chunk.\<close>

lemma read_loop_step:
  assumes co: "cache_coherent T s rd" and t: "t \<in> T" and rb: "reads_bytes rd bytes"
    and len: "length out = len" "completed < len" "len < 2 ^ 63"
  obtains (failed) s1 e i where "read_virtual_loop rd t root va len s out completed = (s1, Inl e)"
      "cache_coherent T s1 rd" "\<exists>c. s1 = s\<lparr>translation_store := c\<rparr>"
      "completed \<le> i" "i < len" "virtual_byte rd bytes t root (unat va + i) = None"
  | (filled) s1 new where "read_virtual_loop rd t root va len s out completed =
        read_virtual_loop rd t root va len s1 (splice out completed new) (completed + length new)"
      "cache_coherent T s1 rd" "\<exists>c. s1 = s\<lparr>translation_store := c\<rparr>"
      "0 < length new" "completed + length new \<le> len"
      "\<And>i. completed \<le> i \<Longrightarrow> i < completed + length new \<Longrightarrow>
        virtual_byte rd bytes t root (unat va + i) = Some (new ! (i - completed))"
proof (cases "next_chunk (ReadFailed va len) ''virtual read chunk overflow'' va len completed")
  case (Inl e)
  have "virtual_byte rd bytes t root (unat va + completed) = None"
    using next_chunk_Inl [OF Inl len(2,3)] by (simp add: virtual_byte_def)
  moreover have "\<exists>c. s = s\<lparr>translation_store := c\<rparr>"
    by (rule exI [of _ "translation_store s"]) simp
  ultimately show thesis
    using Inl len by (intro failed [OF _ co]) (simp_all add: read_virtual_loop.simps)
next
  case (Inr ce)
  then obtain current chunk_end where
    chunk: "next_chunk (ReadFailed va len) ''virtual read chunk overflow'' va len completed = Inr (current, chunk_end)"
    by (cases ce) auto
  note progress = next_chunk_progress [OF chunk len(2)] and bounds = next_chunk_Inr [OF chunk len(2,3)]
  obtain s1 r1 where tr: "vmi_translate s t root (Gva current) = (s1, r1)" by fastforce
  note trc = translate_coherent [OF co t tr]
  let ?old = "take (chunk_end - completed) (drop completed out)"
  have old: "get_range out completed chunk_end = Some ?old" "length ?old = chunk_end - completed"
    using progress len by (simp_all add: get_range_def)
  note unfold = read_virtual_loop.simps [of rd t root va len s out completed]
  show thesis
  proof (cases r1)
    case (Inl e)
    then show thesis
      using trc translate_unmapped [OF co t tr [unfolded Inl], of bytes] bounds(1) chunk old(1) tr len
      by (intro failed [of s1 e completed]) (simp_all add: unfold)
  next
    case (Inr x)
    then have x: "translate t rd root (Gva current) = Inr x"
      using trc by (auto split: sum.splits)
    obtain new rr where read: "rd (physical_address x) ?old = (new, rr)" by fastforce
    have "length ?old < usize_bound"
      using old(2) progress len by (simp add: usize_bound_def)
    note rbD = reads_bytesD [OF rb read this]
    have vb: "virtual_byte rd bytes t root (unat va + (completed + j)) =
        bytes (unat (gpa_raw (physical_address x)) + j)" if "j < length ?old" for j
    proof -
      have "unat current mod 4096 + j < 4096"
        using that bounds(2) old(2) by linarith
      then show ?thesis
        using virtual_byte_page [OF pages [OF t] x, of j bytes] bounds(1) by (simp add: add.assoc)
    qed
    show thesis
    proof (cases rr)
      case (Inl e)
      then obtain j where "j < length ?old" "bytes (unat (gpa_raw (physical_address x)) + j) = None"
        using rbD(2) by auto
      with vb [of j] show thesis
        using trc Inl chunk old tr read len progress \<open>r1 = Inr x\<close>
        by (intro failed [of s1 e "completed + j"]) (simp_all add: unfold)
    next
      case (Inr u)
      have "virtual_byte rd bytes t root (unat va + i) = Some (new ! (i - completed))"
        if "completed \<le> i" "i < completed + length new" for i
      proof -
        have idx: "i - completed < length ?old"
          using that rbD(1) by linarith
        show ?thesis
          using vb [OF idx] rbD(3) [OF _ idx] that Inr by simp
      qed
      then show thesis
        using trc Inr chunk old tr read len progress rbD(1) \<open>r1 = Inr x\<close>
        by (intro filled [of s1 new]) (simp_all add: unfold)
    qed
  qed
qed

lemma read_loop_correct:
  assumes "cache_coherent T s rd" "t \<in> T" "reads_bytes rd bytes"
    "length out = len" "completed \<le> len" "len < 2 ^ 63"
    "read_virtual_loop rd t root va len s out completed = (s', r)"
  shows "cache_coherent T s' rd \<and> (\<exists>c. s' = s\<lparr>translation_store := c\<rparr>) \<and>
    (\<forall>bs. r = Inr bs \<longleftrightarrow> length bs = len \<and> take completed bs = take completed out \<and>
      (\<forall>i. completed \<le> i \<and> i < len \<longrightarrow> virtual_byte rd bytes t root (unat va + i) = Some (bs ! i)))"
  using assms
proof (induction "len - completed" arbitrary: s out completed rule: less_induct)
  case less
  show ?case
  proof (cases "completed < len")
    case False
    have "\<exists>c. s = s\<lparr>translation_store := c\<rparr>"
      by (rule exI [of _ "translation_store s"]) simp
    with False less.prems show ?thesis
      by (auto simp: read_virtual_loop.simps [of rd t root va len s out])
  next
    case True
    from less.prems(1-4) True less.prems(6) show ?thesis
    proof (cases rule: read_loop_step [where root = root and va = va])
      case (failed s1 e i)
      with less.prems(7) show ?thesis by force
    next
      case (filled s1 new)
      let ?out = "splice out completed new"
      have prems: "len - (completed + length new) < len - completed" "length ?out = len"
        "read_virtual_loop rd t root va len s1 ?out (completed + length new) = (s', r)"
        using filled(4) True filled(1,5) less.prems(4,7) by simp_all (simp add: diff_less_mono2)
      note IH = less.hyps [OF prems(1) filled(2) less.prems(2,3) prems(2) filled(5) less.prems(6) prems(3)]
      have "r = Inr bs \<longleftrightarrow> length bs = len \<and> take completed bs = take completed out \<and>
          (\<forall>i. completed \<le> i \<and> i < len \<longrightarrow> virtual_byte rd bytes t root (unat va + i) = Some (bs ! i))" for bs
      proof (cases "length bs = len")
        case True
        have "(\<forall>i. completed \<le> i \<and> i < completed + length new \<longrightarrow> bs ! i = new ! (i - completed)) \<longleftrightarrow>
            (\<forall>i. completed \<le> i \<and> i < completed + length new \<longrightarrow>
               virtual_byte rd bytes t root (unat va + i) = Some (bs ! i))"
          using filled(6) by auto
        then show ?thesis
          using IH take_splice [of bs out completed new] filled(5) less.prems(4) True
            all_between_split [of completed "completed + length new" len
              "\<lambda>i. virtual_byte rd bytes t root (unat va + i) = Some (bs ! i)"]
          by simp
      next
        case False
        then show ?thesis using IH by blast
      qed
      moreover have "\<exists>c. s' = s\<lparr>translation_store := c\<rparr>"
        using IH filled(3) by auto
      ultimately show ?thesis
        using IH by blast
    qed
  qed
qed

end

section \<open>The translators of the workspace\<close>

definition builtin_translators :: "address_translator set" where
  "builtin_translators = {Amd64Translator, Amd64La57Translator} \<union>
     {aarch64_as_translator t | t g bits. aarch64_new g bits = Inr t}"

definition granule_tag :: "translation_granule \<Rightarrow> u64" where
  "granule_tag g = (case g of KiB4 \<Rightarrow> 0x41363400000004 | KiB16 \<Rightarrow> 0x41363400000010 | KiB64 \<Rightarrow> 0x41363400000040)"

lemma aarch64_cache_tag_fields:
  "drop_bit 8 (aarch64_cache_tag t) = granule_tag (granule t)"
  "ucast (aarch64_cache_tag t) = address_bits t"
proof -
  have tag: "aarch64_cache_tag t = push_bit 8 (granule_tag (granule t)) OR ucast (address_bits t)"
    by (cases "granule t") (simp_all add: aarch64_cache_tag_def granule_tag_def flip: or.assoc)
  show "ucast (aarch64_cache_tag t) = address_bits t"
    unfolding tag by (rule bit_word_eqI) (auto simp: bit_simps)
  show "drop_bit 8 (aarch64_cache_tag t) = granule_tag (granule t)"
  proof (rule bit_word_eqI)
    fix n assume n: "n < LENGTH(64)"
    have "\<not> bit (address_bits t) (8 + n)"
      using bit_imp_le_length [of "address_bits t" "8 + n"] by auto
    moreover have "bit (granule_tag g) n \<Longrightarrow> n < 56" for g
    proof -
      assume "bit (granule_tag g) n"
      have "granule_tag g = take_bit 56 (granule_tag g)"
        by (cases g) (simp_all add: granule_tag_def)
      with \<open>bit (granule_tag g) n\<close> show ?thesis
        by (metis bit_take_bit_iff)
    qed
    ultimately show "bit (drop_bit 8 (aarch64_cache_tag t)) n = bit (granule_tag (granule t)) n"
      using n unfolding tag by (auto simp: bit_simps not_le)
  qed
qed

lemma aarch64_cache_tag_inj: "aarch64_cache_tag t = aarch64_cache_tag t' \<Longrightarrow> t = t'"
proof -
  assume eq: "aarch64_cache_tag t = aarch64_cache_tag t'"
  then have "granule_tag (granule t) = granule_tag (granule t')"
    by (metis aarch64_cache_tag_fields(1))
  then have "granule t = granule t'"
    by (cases "granule t"; cases "granule t'") (simp_all add: granule_tag_def)
  moreover have "address_bits t = address_bits t'"
    using eq by (metis aarch64_cache_tag_fields(2))
  ultimately show ?thesis
    by (simp add: aarch64_translator.equality)
qed

lemma aarch64_cache_tag_amd64:
  "aarch64_cache_tag t \<noteq> 0x414d4436345f3438" "aarch64_cache_tag t \<noteq> 0x414d4436345f3537"
  using aarch64_cache_tag_fields(1) [of t] by (cases "granule t"; force simp: granule_tag_def)+

lemma builtin_tags: "inj_on cache_tag builtin_translators"
  by (rule inj_onI) (auto simp: builtin_translators_def Amd64Translator_def Amd64La57Translator_def
      aarch64_as_translator_def aarch64_cache_tag_amd64 aarch64_cache_tag_amd64 [symmetric]
      dest: aarch64_cache_tag_inj)

lemma builtin_pages: "t \<in> builtin_translators \<Longrightarrow> page_translator (translate t)"
proof -
  have "page_translator (aarch64_translate x)" if "aarch64_new g bits = Inr x" for x g bits
  proof -
    have "aarch64_translate_with g bits = aarch64_translate x"
      using that by (intro ext) (simp add: aarch64_translate_with_def)
    then show ?thesis
      using aarch64.page_translator_axioms [of g bits] by simp
  qed
  moreover assume "t \<in> builtin_translators"
  ultimately show ?thesis
    using amd64.page_translator_axioms la57.page_translator_axioms
    by (auto simp: builtin_translators_def Amd64Translator_def Amd64La57Translator_def aarch64_as_translator_def)
qed

interpretation builtin: cached_session builtin_translators
  by (intro cached_session.intro builtin_tags builtin_pages)

section \<open>Writes and the registry\<close>

text \<open>What \<open>translate\<close> leaves alone, whatever the state of the cache.\<close>

lemma vmi_translate_frame:
  assumes "cache_ok (translation_store s)" "vmi_translate s t root va = (s', r)"
  shows "cache_ok (translation_store s') \<and> (\<exists>c. s' = s\<lparr>translation_store := c\<rparr>)"
proof -
  have same: "\<exists>c. s = s\<lparr>translation_store := c\<rparr>"
    by (rule exI [of _ "translation_store s"]) simp
  have "cache_ok (fst (cache_insert (translation_store s) key v))" for key v
    using cache_insert_ok [OF assms(1)] by blast
  with assms same show ?thesis
    by (auto simp: vmi_translate_def lock_translations_def Let_def case_prod_unfold
        split: option.splits sum.splits if_splits)
qed

lemma write_loop_frame:
  assumes "cache_ok (translation_store s)" "write_virtual_loop w t root va data s completed = (s', r)"
  shows "cache_ok (translation_store s') \<and> cache_lock_poisoned s' = cache_lock_poisoned s \<and>
    session_ops s' = session_ops s"
  using assms
proof (induction w t root va data s completed rule: write_virtual_loop.induct)
  case (1 w t root va data s completed)
  note unfold = write_virtual_loop.simps [of w t root va data s completed]
  have frame: "cache_ok (translation_store s1) \<and> cache_lock_poisoned s1 = cache_lock_poisoned s \<and>
      session_ops s1 = session_ops s" if "vmi_translate s t root (Gva c) = (s1, r1)" for c s1 r1
    using vmi_translate_frame [OF "1.prems"(1) that] by auto
  show ?case
    using "1.prems" "1.IH" frame unfolding unfold
    by (fastforce split: if_splits sum.splits option.splits prod.splits)
qed

definition registry_ok :: "'s provider_registry \<Rightarrow> bool" where
  "registry_ok reg \<longleftrightarrow> \<not> registry_lock_poisoned reg \<and> btree_ok (providers reg) \<and>
     (\<forall>(i, c) \<in> set (providers reg). i = provider_id (descriptor c) \<and> i \<noteq> [] \<and> reservable (length i))"

lemma try_clone_string_eq: "try_clone_string v f = Inr w \<longleftrightarrow> reservable (length v) \<and> w = v"
  by (auto simp: try_clone_string_def try_clone_text_def)

lemma try_clone_descriptor_eq: "try_clone_descriptor d = Inr d' \<Longrightarrow> d' = d"
  by (auto simp: try_clone_descriptor_def try_clone_string_eq split: option.splits)

lemma clone_descriptors_eq: "clone_descriptors cs = Inr ds \<Longrightarrow> ds = map descriptor cs"
  by (induction cs arbitrary: ds) (auto dest: try_clone_descriptor_eq)

lemma set_btree_insert_fresh:
  "map_of m k = None \<Longrightarrow> set (btree_insert k v m) = insert (k, v) (set m)"
  by (induction k v m rule: btree_insert.induct) (auto split: if_splits)

lemma registry_ok_unregister: "registry_ok reg \<Longrightarrow> unregister reg i = (reg', r) \<Longrightarrow> registry_ok reg'"
  by (auto simp: registry_ok_def unregister_def lock_registry_def btree_remove_def [symmetric]
      split: option.splits if_splits) (auto simp: btree_remove_def)

text \<open>A session over a fixed memory, as the tests' fixtures build it.\<close>

definition fixture_ops :: "read_into \<Rightarrow> unit session" where
  "fixture_ops rd =
     \<lparr>provider = (\<lambda>_. provider_descriptor_new ''fixture'' ''Fixture'' Experimental (CapabilitySet 1)),
      target = (\<lambda>_. target_descriptor_new ''fixture'' None UnknownArchitecture ImmutableSnapshot),
      capabilities = (\<lambda>_. CapabilitySet 1), memory_impl = Some (\<lambda>_. Inr (\<lambda>_. rd)),
      memory_write_impl = None, cpu_impl = None, control_impl = None, events_impl = None,
      views_impl = None, acquisition_impl = None, lifecycle_impl = None\<rparr>"

definition fixture_session :: "read_into \<Rightarrow> unit vmi_session" where
  "fixture_session rd = \<lparr>session_ops = fixture_ops rd, session_state = (),
     translation_store = \<lparr>capacity = 4096, entries = [], order = []\<rparr>, cache_lock_poisoned = False\<rparr>"

text \<open>A writable target of a few bytes, whose cache already holds the translation of its first page.\<close>

definition caching_writer :: "u8 list \<Rightarrow> u8 list vmi_session" where
  "caching_writer bs = \<lparr>session_ops =
     \<lparr>provider = (\<lambda>_. provider_descriptor_new ''fixture'' ''Fixture'' Experimental (CapabilitySet 1)),
      target = (\<lambda>_. target_descriptor_new ''fixture'' None UnknownArchitecture ImmutableSnapshot),
      capabilities = (\<lambda>_. CapabilitySet 1), memory_impl = Some (\<lambda>_. Inr flat_memory),
      memory_write_impl = Some (\<lambda>_. Inr (\<lambda>st address data.
        (take (unat (gpa_raw address)) st @ data @ drop (unat (gpa_raw address) + length data) st, Inr ()))),
      cpu_impl = None, control_impl = None, events_impl = None,
      views_impl = None, acquisition_impl = None, lifecycle_impl = None\<rparr>,
     session_state = bs,
     translation_store = (let key = (cache_tag Amd64Translator, 0x1000, 0) in
       \<lparr>capacity = 4096, entries = [(key, translation_new (Gpa 0) 0x1000)], order = [key]\<rparr>),
     cache_lock_poisoned = False\<rparr>"

lemma fixture_memory: "vmi_memory (fixture_session rd) = Inr rd"
  by (simp add: vmi_memory_def session_memory_def facet_or_missing_def fixture_session_def fixture_ops_def)

lemma fixture_coherent: "cache_coherent T (fixture_session rd) rd"
  by (simp add: cache_coherent_def fixture_memory) (simp add: fixture_session_def cache_ok_def cache_get_def)

lemma Amd64Translator_builtin: "Amd64Translator \<in> builtin_translators"
  by (simp add: builtin_translators_def)

section \<open>Properties\<close>

text \<open>
  C4: translation through the session's cache is transparent. In a coherent session every
  built-in translator gives the address, and the page size, that it computes from memory without
  a cache; failures keep their category; the session stays coherent and its provider state is
  untouched.
\<close>

theorem vmi_translate_transparent:
  assumes "cache_coherent builtin_translators s rd" "t \<in> builtin_translators"
    "vmi_translate s t root (Gva va) = (s', r)"
  shows "cache_coherent builtin_translators s' rd \<and> session_state s' = session_state s \<and>
    (case translate t rd root (Gva va) of
       Inr x \<Rightarrow> r = Inr x
     | Inl e \<Rightarrow> \<exists>e'. r = Inl e' \<and> error_kind e' = error_kind e)"
  using builtin.translate_coherent [OF assms] by auto

theorem vmi_translate_transparent_witness:
  "\<exists>s' r. vmi_translate (fixture_session (table_memory [(0x1000, 0x2001), (0x2008, 0x80000081)]))
      Amd64Translator (TranslationRoot 0x1000) (Gva 0x40001234) = (s', r) \<and>
    cache_coherent builtin_translators s' (table_memory [(0x1000, 0x2001), (0x2008, 0x80000081)]) \<and>
    r = Inr (translation_new (Gpa 0x80001234) (push_bit 30 1))"
proof -
  let ?m = "table_memory [(0x1000, 0x2001), (0x2008, 0x80000081)]"
  obtain s' r where step: "vmi_translate (fixture_session ?m) Amd64Translator (TranslationRoot 0x1000)
      (Gva 0x40001234) = (s', r)" by fastforce
  have "translate Amd64Translator ?m (TranslationRoot 0x1000) (Gva 0x40001234) =
      Inr (translation_new (Gpa 0x80001234) (push_bit 30 1))"
    by (simp add: Amd64Translator_def walk_eval)
  with vmi_translate_transparent [OF fixture_coherent Amd64Translator_builtin step] step show ?thesis
    by auto
qed

text \<open>
  C5: a virtual read of a coherent session returns exactly the bytes of the virtual address
  space: it succeeds with \<open>bs\<close> if and only if every requested address exists, is mapped, and holds
  the corresponding byte of \<open>bs\<close> in physical memory, however the request straddles pages.
\<close>

theorem read_virtual_correct:
  assumes "cache_coherent builtin_translators s rd" "t \<in> builtin_translators" "reads_bytes rd bytes"
    "reservable len"
  shows "snd (read_virtual s t root (Gva va) len) = Inr bs \<longleftrightarrow>
    length bs = len \<and> (\<forall>i < len. virtual_byte rd bytes t root (unat va + i) = Some (bs ! i))"
proof -
  obtain s' r where loop: "read_virtual_loop rd t root va len s (replicate len 0) 0 = (s', r)"
    by fastforce
  have "vmi_memory s = Inr rd"
    using assms(1) by (simp add: cache_coherent_def)
  then have "snd (read_virtual s t root (Gva va) len) = r"
    using assms(4) loop by (simp add: read_virtual_def)
  then show ?thesis
    using builtin.read_loop_correct [OF assms(1-3) _ _ _ loop] reservable_less [OF assms(4)] by simp
qed

theorem read_virtual_correct_witness:
  "snd (read_virtual (fixture_session (flat_memory [3, 0, 0, 0, 0, 0, 0, 0, 7, 9]))
      (aarch64_as_translator \<lparr>granule = KiB4, address_bits = 13\<rparr>) (TranslationRoot 0) (Gva 8) 2) = Inr [7, 9]"
proof -
  let ?rd = "flat_memory [3, 0, 0, 0, 0, 0, 0, 0, 7, 9]"
  let ?t = "aarch64_as_translator \<lparr>granule = KiB4, address_bits = 13\<rparr>"
  have t: "?t \<in> builtin_translators"
    unfolding builtin_translators_def
    by (intro UnI2 CollectI exI [of _ "\<lparr>granule = KiB4, address_bits = 13\<rparr>"] exI [of _ KiB4] exI [of _ 13])
      (simp add: aarch64_new_iff)
  have entry: "read_scalar ?rd (Gpa 0) LittleEndian = Inr (3 :: u64)"
    by (simp add: read_scalar_u64 read_bytes_def flat_memory_def get_range_def from_le_bytes_def)
  have "virtual_byte ?rd (flat_byte [3, 0, 0, 0, 0, 0, 0, 0, 7, 9]) ?t (TranslationRoot 0) n =
      flat_byte [3, 0, 0, 0, 0, 0, 0, 0, 7, 9] n" if "n \<in> {8, 9}" for n
    using that entry
    by (auto simp: virtual_byte_def aarch64_as_translator_def aarch64_eval)
  moreover have "\<forall>i < 2. i = 0 \<or> i = (1 :: nat)"
    by auto
  ultimately show ?thesis
    using read_virtual_correct [OF fixture_coherent t flat.memory_reads_bytes, where len = 2 and
        root = "TranslationRoot 0" and va = 8 and bs = "[7, 9]"]
    by (auto simp: flat_byte_def get_at_def reservable_def isize_max_def)
qed

text \<open>
  C6: every virtual write through an unpoisoned session leaves an empty translation
  cache, whether or not the write succeeded, so the session is coherent with whatever memory the
  write produced.
\<close>

theorem write_virtual_coherent:
  assumes "\<not> cache_lock_poisoned s" "cache_ok (translation_store s)"
    "write_virtual s t root va data = (s', r)" "vmi_memory s' = Inr rd"
  shows "cache_coherent T s' rd \<and> entries (translation_store s') = []"
proof -
  obtain s1 r1 where inner: "(case session_memory_write (session_ops s) (session_state s) of
      Inl e \<Rightarrow> (s, Inl e)
    | Inr w \<Rightarrow> write_virtual_loop w t root (gva_raw va) data s 0) = (s1, r1)"
    by fastforce
  then have "cache_ok (translation_store s1)" "\<not> cache_lock_poisoned s1"
    using write_loop_frame [OF assms(2)] assms(1,2) by (auto split: sum.splits)
  then show ?thesis
    using assms(3,4) inner tc.sound_clear [of "translation_store s1"]
    by (auto simp: write_virtual_def clear_translation_cache_def lock_translations_def cache_coherent_sound
        cache_clear_def)
qed

theorem write_virtual_coherent_witness:
  "\<exists>s'. write_virtual (caching_writer [0, 0, 0]) Amd64Translator (TranslationRoot 0x1000) (Gva 1) [5] = (s', Inr ()) \<and>
     session_state s' = [0, 5, 0] \<and>
     cache_coherent builtin_translators s' (flat_memory [0, 5, 0]) \<and> entries (translation_store s') = []"
proof -
  let ?s = "caching_writer [0, 0, 0]"
  let ?s' = "?s\<lparr>session_state := [0, 5, 0], translation_store := \<lparr>capacity = 4096, entries = [], order = []\<rparr>\<rparr>"
  have hit: "vmi_translate ?s Amd64Translator (TranslationRoot 0x1000) (Gva 1) = (?s, Inr (translation_new (Gpa 1) 0x1000))"
    by (simp add: vmi_translate_def Let_def caching_writer_def checked_sub_def lock_translations_def cache_get_def
        offset_translation_def translation_new_def checked_add_def)
  have chunk: "next_chunk e m 1 (length [5 :: u8]) 0 = Inr (1, 1)" for e m
    by (simp add: next_chunk_def page_remaining_eq checked_add_def usize_checked_add_def usize_checked_sub_def
        u64_of_usize_def usize_bound_def)
  have "write_virtual_loop w Amd64Translator (TranslationRoot 0x1000) 1 [5] ?s 0 = (case w (session_state ?s) (Gpa 1) [5] of
      (st, Inl e) \<Rightarrow> (?s\<lparr>session_state := st\<rparr>, Inl e)
    | (st, Inr _) \<Rightarrow> (?s\<lparr>session_state := st\<rparr>, Inr ()))" for w
    by (subst write_virtual_loop.simps)
      (simp add: chunk [simplified] hit get_range_def translation_new_def write_virtual_loop.simps
        split: prod.splits sum.splits)
  then have step: "write_virtual ?s Amd64Translator (TranslationRoot 0x1000) (Gva 1) [5] = (?s', Inr ())"
    by (simp add: write_virtual_def session_memory_write_def facet_or_missing_def)
      (simp add: caching_writer_def Let_def clear_translation_cache_def lock_translations_def cache_clear_def)
  have "\<not> cache_lock_poisoned ?s" "cache_ok (translation_store ?s)"
    by (simp_all add: caching_writer_def Let_def cache_ok_def)
  moreover have "vmi_memory ?s' = Inr (flat_memory [0, 5, 0])"
    by (simp add: vmi_memory_def session_memory_def facet_or_missing_def caching_writer_def)
  ultimately show ?thesis
    using write_virtual_coherent [OF _ _ step] step by auto
qed

text \<open>
  C7: the translation cache refines a bounded first-in first-out queue: an insertion overwrites
  in place, appends, or drops the oldest key when the cache is full; look-ups are look-ups in the
  queue, and the size never exceeds the capacity.
\<close>

theorem cache_refines_fifo:
  assumes "cache_ok c"
  shows "cache_view (fst (cache_insert c k v)) = fifo_insert (capacity c) (cache_view c) k v \<and>
    cache_get c = map_of (cache_view c) \<and>
    cache_ok (fst (cache_insert c k v)) \<and> length (cache_view c) \<le> capacity c"
proof -
  have "map_of (map (\<lambda>k. (k, the (m k))) ks) = (\<lambda>k. if k \<in> set ks then Some (the (m k)) else None)"
    for m :: "cache_key \<Rightarrow> translation option" and ks
    by (induction ks) (auto simp: fun_eq_iff)
  then have "cache_get c = map_of (cache_view c)"
    using assms by (fastforce simp: fun_eq_iff cache_get_def cache_view_def cache_ok_def map_of_None_key)
  moreover have "length (cache_view c) \<le> capacity c"
    using assms cache_ok_lengths [OF assms] by (simp add: cache_view_def cache_ok_def)
  ultimately show ?thesis
    using cache_view_insert [OF assms] cache_insert_ok [OF assms] by blast
qed

theorem cache_refines_fifo_witness:
  "cache_view (fst (cache_insert \<lparr>capacity = 1, entries = [((1, 2, 0), translation_new (Gpa 3) 4)],
      order = [(1, 2, 0)]\<rparr> (5, 6, 0) (translation_new (Gpa 7) 8))) = [((5, 6, 0), translation_new (Gpa 7) 8)]"
proof -
  let ?c = "\<lparr>capacity = 1, entries = [((1, 2, 0), translation_new (Gpa 3) 4)], order = [(1, 2, 0)]\<rparr>"
  have "cache_ok ?c"
    by (simp add: cache_ok_def)
  from cache_refines_fifo [OF this, of "(5, 6, 0)" "translation_new (Gpa 7) 8"] show ?thesis
    by (simp add: fifo_insert_def cache_view_def)
qed

text \<open>
  registering a provider under a fresh, non-empty ID succeeds, makes exactly that ID resolve
  to it, and keeps the registry's invariant; a second registration of the ID is refused without
  any change; and unregistering it returns the connector and restores the registry.
\<close>

lemma registry_round_trip:
  assumes "registry_ok reg" "provider_id (descriptor c) = i" "i \<noteq> []" "reservable (length i)"
    "map_of (providers reg) i = None"
  shows "\<exists>reg'. register reg c = (reg', Inr ()) \<and> registry_ok reg' \<and> connector_of reg' i = Inr c \<and>
    (\<forall>j. j \<noteq> i \<longrightarrow> connector_of reg' j = connector_of reg j) \<and>
    (\<forall>c'. provider_id (descriptor c') = i \<longrightarrow>
       register reg' c' = (reg', Inl (Backend (''provider '' @ i @ '' is already registered'')))) \<and>
    unregister reg' i = (reg, Inr c)"
proof -
  let ?reg = "reg\<lparr>providers := btree_insert i c (providers reg)\<rparr>"
  have clone: "try_clone_string i f = Inr i" for f
    using assms(4) by (simp add: try_clone_string_eq)
  have lock: "lock_registry reg = Inr (providers reg)" "lock_registry ?reg = Inr (providers ?reg)"
    using assms(1) by (simp_all add: lock_registry_def registry_ok_def)
  have "registry_ok ?reg"
    using assms by (auto simp: registry_ok_def set_btree_insert_fresh)
  moreover have "unregister ?reg i = (reg, Inr c)"
    using assms(5) lock by (simp add: unregister_def btree_remove_insert_fresh)
  ultimately show ?thesis
    using assms lock clone by (intro exI [of _ ?reg]) (simp add: register_def connector_of_def)
qed

text \<open>
  Listing the descriptors of a well-formed registry gives each registered provider exactly
  once, as registered, in strictly ascending order of provider ID.
\<close>

lemma descriptors_sorted:
  assumes "registry_ok reg" "descriptors reg = Inr ds"
  shows "ds = map (descriptor \<circ> snd) (providers reg) \<and> sorted_wrt (<) (map provider_id ds) \<and>
    set (map provider_id ds) = dom (map_of (providers reg))"
proof -
  have ds: "ds = map (descriptor \<circ> snd) (providers reg)"
    using assms by (auto simp: descriptors_def lock_registry_def dest: clone_descriptors_eq split: if_splits)
  have ids: "map provider_id ds = map fst (providers reg)"
    using assms(1) unfolding ds by (simp add: registry_ok_def case_prod_unfold)
  show ?thesis
    unfolding ids using assms(1) ds by (simp add: registry_ok_def btree_ok_def dom_map_of_conv_image_fst)
qed

end
