(* ===== verification/Artifact.thy ===== *)
theory Artifact
  imports Driver_Api
begin

text \<open>
  The crate \<open>vmi-artifact\<close>, first part: memory segments, snapshot bundles and physical reads over
  them. A bundle's segments are searched in ascending order of their start; the byte at an
  address is the byte of the first segment that contains it. The interpretation at the end makes
  every well-formed bundle a memory in the sense of the driver API.
\<close>

section \<open>Segments and bundles (lib.rs)\<close>

record artifact_provenance =
  provenance_format :: string
  provenance_source :: string

record snapshot_segment =
  seg_range :: memory_range
  seg_data :: "u8 list"

definition segment_new :: "gpa \<Rightarrow> u8 list \<Rightarrow> snapshot_segment" where
  "segment_new start data =
     \<lparr>seg_range = range_new start (case u64_of_usize (length data) of Some n \<Rightarrow> n | None \<Rightarrow> - 1),
      seg_data = data\<rparr>"

definition segment_bytes :: "snapshot_segment \<Rightarrow> u8 list" where
  "segment_bytes s = seg_data s"

record snapshot_bundle =
  provenance :: artifact_provenance
  segments :: "snapshot_segment list"

definition u64_limit :: u128 where
  "u64_limit = sat_add_u128 (2 ^ 64 - 1) 1"

definition from_raw :: "string \<Rightarrow> gpa \<Rightarrow> u8 list \<Rightarrow> snapshot_bundle" where
  "from_raw source base data =
     \<lparr>provenance = \<lparr>provenance_format = ''raw'', provenance_source = source\<rparr>,
      segments = [segment_new base data]\<rparr>"

definition fmt_gpa :: "gpa \<Rightarrow> string" where
  "fmt_gpa a = hex0x (gpa_raw a)"

definition try_from_raw :: "string \<Rightarrow> gpa \<Rightarrow> u8 list \<Rightarrow> snapshot_bundle result" where
  "try_from_raw source base data =
     and_then (ok_or (u64_of_usize (length data))
       (Backend ''raw artifact length does not fit the physical address model'')) (\<lambda>len.
     if sat_add_u128 (unat (gpa_raw base)) (unat len) > u64_limit then
       Inl (Backend (''raw artifact at '' @ fmt_gpa base @ '' extends beyond the physical address space''))
     else Inr (from_raw source base data))"

section \<open>Physical reads\<close>

definition seg_start :: "snapshot_segment \<Rightarrow> u128" where
  "seg_start s = unat (gpa_raw (range_start (seg_range s)))"

definition seg_end :: "snapshot_segment \<Rightarrow> u128" where
  "seg_end s = sat_add_u128 (seg_start s) (unat (range_length (seg_range s)))"

fun coverage_loop :: "u128 \<Rightarrow> snapshot_segment list \<Rightarrow> u128 \<Rightarrow> u128" where
  "coverage_loop stop [] covered = covered"
| "coverage_loop stop (s # segs) covered =
     (if covered = stop then covered
      else if covered < seg_start s then covered
      else if covered < seg_end s then coverage_loop stop segs (min (seg_end s) stop)
      else coverage_loop stop segs covered)"

definition copy_from_segment ::
  "vmi_error \<Rightarrow> snapshot_segment \<Rightarrow> u8 list \<Rightarrow> usize \<Rightarrow> u128 \<Rightarrow> (u8 list \<times> usize \<times> u128) result" where
  "copy_from_segment failed s buf completed current =
     and_then (ok_or (if seg_start s \<le> current then Some (current - seg_start s) else None) failed) (\<lambda>relative.
     and_then (ok_or (usize_of_u128 relative) failed) (\<lambda>offset.
     let available =
       (case Option.bind (if current \<le> seg_end s then Some (seg_end s - current) else None) usize_of_u128 of
          Some n \<Rightarrow> n | None \<Rightarrow> usize_bound - 1) in
     and_then (ok_or (usize_checked_sub (length buf) completed) failed) (\<lambda>remaining.
     let len = min available remaining in
     and_then (ok_or (usize_checked_add completed len) failed) (\<lambda>output_end.
     and_then (ok_or (usize_checked_add offset len) failed) (\<lambda>segment_end.
     and_then (ok_or (get_range (segment_bytes s) offset segment_end) failed) (\<lambda>source.
     and_then (ok_or (get_range buf completed output_end) failed) (\<lambda>_.
     and_then (ok_or (if current + len \<le> u128_max then Some (current + len) else None) failed) (\<lambda>current'.
       Inr (splice buf completed source, output_end, current')))))))))"

fun copy_loop ::
  "vmi_error \<Rightarrow> snapshot_segment list \<Rightarrow> u8 list \<Rightarrow> usize \<Rightarrow> u128 \<Rightarrow> u8 list \<times> (usize \<times> u128) result" where
  "copy_loop failed [] buf completed current = (buf, Inr (completed, current))"
| "copy_loop failed (s # segs) buf completed current =
     (if completed = length buf then (buf, Inr (completed, current))
      else if current < seg_start s then (buf, Inr (completed, current))
      else if current \<ge> seg_end s then copy_loop failed segs buf completed current
      else
        (case copy_from_segment failed s buf completed current of
           Inl e \<Rightarrow> (buf, Inl e)
         | Inr (buf', completed', current') \<Rightarrow> copy_loop failed segs buf' completed' current'))"

definition bundle_read_into :: "snapshot_bundle \<Rightarrow> read_into" where
  "bundle_read_into b address buf =
     (if buf = [] then (buf, Inr ())
      else
        (let failed = ReadFailed (gpa_raw address) (length buf);
             current = unat (gpa_raw address);
             stop = sat_add_u128 current (length buf) in
         if stop > u64_limit then (buf, Inl failed)
         else if coverage_loop stop (segments b) current \<noteq> stop then (buf, Inl failed)
         else
           (case copy_loop failed (segments b) buf 0 current of
              (buf', Inl e) \<Rightarrow> (buf', Inl e)
            | (buf', Inr (completed, current')) \<Rightarrow>
                if completed = length buf' \<and> current' = stop then (buf', Inr ())
                else (buf', Inl failed))))"

section \<open>Overlap of ranges\<close>

definition ranges_overlap :: "memory_range \<Rightarrow> memory_range \<Rightarrow> bool" where
  "ranges_overlap left right =
     (let left_start = unat (gpa_raw (range_start left));
          left_end = sat_add_u128 left_start (unat (range_length left));
          right_start = unat (gpa_raw (range_start right));
          right_end = sat_add_u128 right_start (unat (range_length right)) in
      left_start < right_end \<and> right_start < left_end)"

fun adjacent_overlap :: "snapshot_segment list \<Rightarrow> bool" where
  "adjacent_overlap (left # right # rest) =
     (ranges_overlap (seg_range left) (seg_range right) \<or> adjacent_overlap (right # rest))"
| "adjacent_overlap _ = False"

definition sort_segments :: "snapshot_segment list \<Rightarrow> snapshot_segment list" where
  "sort_segments segs = sort_key (\<lambda>s. gpa_raw (range_start (seg_range s))) segs"

section \<open>Bundles as byte maps\<close>

definition segment_ok :: "snapshot_segment \<Rightarrow> bool" where
  "segment_ok s \<longleftrightarrow> unat (range_length (seg_range s)) = length (seg_data s)"

definition segments_sorted :: "snapshot_segment list \<Rightarrow> bool" where
  "segments_sorted segs \<longleftrightarrow> sorted_wrt (\<lambda>a b. seg_start a \<le> seg_start b) segs"

definition bundle_ok :: "snapshot_bundle \<Rightarrow> bool" where
  "bundle_ok b \<longleftrightarrow> (\<forall>s \<in> set (segments b). segment_ok s) \<and> segments_sorted (segments b)"

fun first_byte :: "snapshot_segment list \<Rightarrow> nat \<Rightarrow> u8 option" where
  "first_byte [] n = None"
| "first_byte (s # segs) n =
     (if seg_start s \<le> n \<and> n < seg_end s then Some (seg_data s ! (n - seg_start s)) else first_byte segs n)"

definition bundle_byte :: "snapshot_bundle \<Rightarrow> nat \<Rightarrow> u8 option" where
  "bundle_byte b n = (if n < 2 ^ 64 then first_byte (segments b) n else None)"

lemma seg_end_eq: "seg_end s = seg_start s + unat (range_length (seg_range s))"
  by (simp add: seg_end_def seg_start_def)

lemma seg_end_ok: "segment_ok s \<Longrightarrow> seg_end s = seg_start s + length (seg_data s)"
  by (simp add: seg_end_eq segment_ok_def)

lemma segment_ok_length: "segment_ok s \<Longrightarrow> length (seg_data s) < 2 ^ 64"
  unfolding segment_ok_def using u64_unat_bound [of "range_length (seg_range s)"] by simp

lemma segment_new_ok: "length data < 2 ^ 64 \<Longrightarrow> segment_ok (segment_new start data)"
  by (simp add: segment_ok_def segment_new_def u64_of_usize_def range_new_def unat_of_nat)

lemma u64_limit_eq: "u64_limit = 2 ^ 64"
  by (simp add: u64_limit_def sat_add_u128_def u128_max_def)

lemma segments_sorted_Cons [simp]:
  "segments_sorted (s # segs) \<longleftrightarrow> (\<forall>x \<in> set segs. seg_start s \<le> seg_start x) \<and> segments_sorted segs"
  by (simp add: segments_sorted_def)

lemma first_byte_below: "(\<forall>s \<in> set segs. n < seg_start s) \<Longrightarrow> first_byte segs n = None"
  by (induction segs) auto

lemma first_byte_sorted_below:
  assumes "segments_sorted (s # segs)" "n < seg_start s"
  shows "first_byte (s # segs) n = None"
  using assms by (intro first_byte_below) fastforce

lemma coverage_correct:
  assumes "segments_sorted segs" "covered \<le> stop"
  shows "coverage_loop stop segs covered = stop \<longleftrightarrow>
    (\<forall>n. covered \<le> n \<and> n < stop \<longrightarrow> first_byte segs n \<noteq> None)"
  using assms
proof (induction segs arbitrary: covered)
  case Nil
  then show ?case by (auto simp: not_less)
next
  case (Cons s segs)
  have sorted: "segments_sorted segs"
    using Cons.prems(1) by simp
  show ?case
  proof (cases "covered = stop")
    case False
    then have lt: "covered < stop" using Cons.prems(2) by simp
    consider "covered < seg_start s" | "seg_start s \<le> covered" "covered < seg_end s" | "seg_end s \<le> covered"
      by linarith
    then show ?thesis
    proof cases
      case 1
      then have "first_byte (s # segs) covered = None"
        by (rule first_byte_sorted_below [OF Cons.prems(1)])
      then have "\<not> (\<forall>n. covered \<le> n \<and> n < stop \<longrightarrow> first_byte (s # segs) n \<noteq> None)"
        using lt by blast
      then show ?thesis
        using 1 lt by (simp only: coverage_loop.simps if_True if_False) auto
    next
      case 2
      let ?next = "min (seg_end s) stop"
      have "(\<forall>n. covered \<le> n \<and> n < stop \<longrightarrow> first_byte (s # segs) n \<noteq> None) \<longleftrightarrow>
          (\<forall>n. ?next \<le> n \<and> n < stop \<longrightarrow> first_byte (s # segs) n \<noteq> None)"
        using 2 lt all_between_split [of covered ?next stop "\<lambda>n. first_byte (s # segs) n \<noteq> None"] by auto
      also have "\<dots> \<longleftrightarrow> (\<forall>n. ?next \<le> n \<and> n < stop \<longrightarrow> first_byte segs n \<noteq> None)"
        by (auto simp: min_def split: if_splits)
      finally show ?thesis
        using Cons.IH [OF sorted, of ?next] 2 lt by simp
    next
      case 3
      then have "(\<forall>n. covered \<le> n \<and> n < stop \<longrightarrow> first_byte (s # segs) n \<noteq> None) \<longleftrightarrow>
          (\<forall>n. covered \<le> n \<and> n < stop \<longrightarrow> first_byte segs n \<noteq> None)"
        by auto
      then show ?thesis
        using Cons.IH [OF sorted Cons.prems(2)] 3 lt by (auto simp: seg_end_eq)
    qed
  qed simp
qed

lemma copy_from_segment_Inr:
  assumes "segment_ok s" "seg_start s \<le> current" "current < seg_end s" "completed < length buf"
    "length buf < usize_bound"
  defines "len \<equiv> min (seg_end s - current) (length buf - completed)"
  shows "copy_from_segment failed s buf completed current =
    Inr (splice buf completed (take len (drop (current - seg_start s) (seg_data s))), completed + len, current + len)"
proof -
  have bounds: "seg_start s < 2 ^ 64" "length (seg_data s) < 2 ^ 64" "length buf < 2 ^ 64"
    using segment_ok_length [OF assms(1)] assms(5) by (simp_all add: seg_start_def usize_bound_def)
  have e: "seg_end s = seg_start s + length (seg_data s)"
    by (rule seg_end_ok [OF assms(1)])
  have off: "current - seg_start s < usize_bound" "seg_end s - current < usize_bound"
    using assms(2,3) bounds e by (simp_all add: usize_bound_def)
  have sum: "completed + len \<le> length buf" "current - seg_start s + len \<le> length (seg_data s)"
    using assms(2-4) e by (simp_all add: len_def)
  then have fits: "completed + len < usize_bound" "current - seg_start s + len < usize_bound"
    "current + len \<le> u128_max"
    using bounds assms(2,3,5) e by (simp_all add: usize_bound_def u128_max_def)
  show ?thesis
    using assms(2-4) off sum fits
    by (simp add: copy_from_segment_def usize_of_u128_def usize_checked_sub_def usize_checked_add_def
        Let_def segment_bytes_def get_range_def flip: len_def)
qed

text \<open>Once coverage is established, copying cannot fail and delivers the bytes of the map.\<close>

lemma copy_loop_correct:
  assumes "\<forall>s \<in> set segs. segment_ok s" "segments_sorted segs" "completed \<le> length buf"
    "length buf < usize_bound" "current = addr + completed"
    "\<forall>n. current \<le> n \<and> n < addr + length buf \<longrightarrow> first_byte segs n \<noteq> None"
  shows "\<exists>buf'. copy_loop failed segs buf completed current = (buf', Inr (length buf, addr + length buf)) \<and>
    length buf' = length buf \<and> take completed buf' = take completed buf \<and>
    (\<forall>i. completed \<le> i \<and> i < length buf \<longrightarrow> first_byte segs (addr + i) = Some (buf' ! i))"
  using assms
proof (induction segs arbitrary: buf completed current)
  case Nil
  then have "completed = length buf"
    by (metis first_byte.simps(1) le_refl nat_add_left_cancel_less nat_less_le)
  with Nil.prems show ?case by simp
next
  case (Cons s segs)
  note ok = Cons.prems(1) [THEN bspec, of s, simplified]
  have rest: "\<forall>s \<in> set segs. segment_ok s" "segments_sorted segs"
    using Cons.prems by simp_all
  show ?case
  proof (cases "completed = length buf")
    case False
    then have lt: "completed < length buf" using Cons.prems(3) by simp
    then have "first_byte (s # segs) current \<noteq> None"
      using Cons.prems(5,6) by simp
    then have start: "seg_start s \<le> current"
      using first_byte_sorted_below [OF Cons.prems(2)] by (meson not_le)
    show ?thesis
    proof (cases "seg_end s \<le> current")
      case True
      have skip: "first_byte (s # segs) n = first_byte segs n" if "current \<le> n" for n
        using that True by simp
      with Cons.IH [OF rest Cons.prems(3-5)] Cons.prems(5,6) show ?thesis
        using lt True start by (auto simp del: first_byte.simps)
    next
      case False
      define len where "len = min (seg_end s - current) (length buf - completed)"
      let ?src = "take len (drop (current - seg_start s) (seg_data s))"
      let ?buf = "splice buf completed ?src"
      have e: "seg_end s = seg_start s + length (seg_data s)"
        by (rule seg_end_ok [OF ok])
      have src: "length ?src = len" "completed + len \<le> length buf"
        using start False e lt by (simp_all add: len_def)
      have copy: "copy_from_segment failed s buf completed current = Inr (?buf, completed + len, current + len)"
        unfolding len_def using copy_from_segment_Inr [OF ok start _ lt Cons.prems(4)] False by simp
      have here: "first_byte (s # segs) (addr + i) = Some (?src ! (i - completed))"
        if "completed \<le> i" "i < completed + len" for i
      proof -
        have "i - completed < len"
          using that by linarith
        moreover have "current - seg_start s + (i - completed) = addr + i - seg_start s"
          "current - seg_start s \<le> length (seg_data s)" "seg_start s \<le> addr + i" "addr + i < seg_end s"
          using that start False e Cons.prems(5) by (simp_all add: len_def)
        ultimately show ?thesis by simp
      qed
      have later: "first_byte (s # segs) n = first_byte segs n" if "current + len \<le> n" "n < addr + length buf" for n
        using that Cons.prems(5) by (auto simp: len_def min_def split: if_splits)
      obtain buf' where IH: "copy_loop failed segs ?buf (completed + len) (current + len) =
          (buf', Inr (length buf, addr + length buf))" "length buf' = length buf"
        "take (completed + len) buf' = take (completed + len) ?buf"
        "\<forall>i. completed + len \<le> i \<and> i < length buf \<longrightarrow> first_byte segs (addr + i) = Some (buf' ! i)"
      proof -
        have "\<forall>n. current + len \<le> n \<and> n < addr + length buf \<longrightarrow> first_byte segs n \<noteq> None"
          using Cons.prems(6) later by (metis add_leD1)
        moreover have "length ?buf = length buf" "current + len = addr + (completed + len)"
          using src Cons.prems(5) by (simp_all del: length_take)
        ultimately show thesis
          using that Cons.IH [OF rest, of "completed + len" ?buf "current + len"] Cons.prems(4) src(2)
          by auto
      qed
      have "take completed buf' = take completed buf"
        "\<forall>i. completed \<le> i \<and> i < completed + len \<longrightarrow> buf' ! i = ?src ! (i - completed)"
        using take_splice [of buf' buf completed ?src] IH(2,3) src by simp_all
      moreover have "first_byte (s # segs) (addr + i) = Some (buf' ! i)" if "completed + len \<le> i" "i < length buf" for i
        using IH(4) later [of "addr + i"] that Cons.prems(5) by simp
      ultimately have "\<forall>i. completed \<le> i \<and> i < length buf \<longrightarrow> first_byte (s # segs) (addr + i) = Some (buf' ! i)"
        using here by (metis not_le)
      with IH copy start False lt \<open>take completed buf' = take completed buf\<close> show ?thesis
        by (auto simp del: first_byte.simps)
    qed
  qed (use Cons.prems in auto)
qed

lemma bundle_read_cases:
  assumes "bundle_ok b" "length buf < usize_bound"
  shows "(\<exists>buf'. bundle_read_into b a buf = (buf', Inr ()) \<and> length buf' = length buf \<and>
      (\<forall>i < length buf. bundle_byte b (unat (gpa_raw a) + i) = Some (buf' ! i))) \<or>
    bundle_read_into b a buf = (buf, Inl (ReadFailed (gpa_raw a) (length buf))) \<and>
      (\<exists>i < length buf. bundle_byte b (unat (gpa_raw a) + i) = None)"
proof (cases "buf = []")
  case True
  then show ?thesis by (simp add: bundle_read_into_def)
next
  case False
  define addr where "addr = unat (gpa_raw a)"
  have ok: "\<forall>s \<in> set (segments b). segment_ok s" "segments_sorted (segments b)"
    using assms(1) by (simp_all add: bundle_ok_def)
  have stop: "sat_add_u128 addr (length buf) = addr + length buf"
  proof -
    have "addr < 2 ^ 64" "length buf < 2 ^ 64"
      using assms(2) by (simp_all add: addr_def usize_bound_def)
    then have "addr + length buf \<le> u128_max"
      by (simp add: u128_max_def)
    then show ?thesis by (simp add: sat_add_u128_def)
  qed
  note unfold = bundle_read_into_def [of b a buf, folded addr_def, unfolded stop u64_limit_eq Let_def]
  consider "2 ^ 64 < addr + length buf"
    | "addr + length buf \<le> 2 ^ 64" "coverage_loop (addr + length buf) (segments b) addr \<noteq> addr + length buf"
    | "addr + length buf \<le> 2 ^ 64" "coverage_loop (addr + length buf) (segments b) addr = addr + length buf"
    by linarith
  then show ?thesis
  proof cases
    case 1
    then have "\<not> addr + (length buf - 1) < 2 ^ 64" by linarith
    then have "bundle_byte b (addr + (length buf - 1)) = None" "length buf - 1 < length buf"
      unfolding bundle_byte_def using False by (simp_all only: if_False) simp
    then have "\<exists>i < length buf. bundle_byte b (addr + i) = None"
      by blast
    with 1 False show ?thesis
      unfolding unfold addr_def [symmetric] by auto
  next
    case 2
    then obtain n where "addr \<le> n" "n < addr + length buf" "first_byte (segments b) n = None"
      using coverage_correct [OF ok(2), of addr "addr + length buf"] by auto
    then have "n - addr < length buf" "bundle_byte b (addr + (n - addr)) = None"
      by (simp_all add: bundle_byte_def)
    then have "\<exists>i < length buf. bundle_byte b (addr + i) = None"
      by blast
    with 2 False show ?thesis
      unfolding unfold addr_def [symmetric] by auto
  next
    case 3
    then have "\<forall>n. addr \<le> n \<and> n < addr + length buf \<longrightarrow> first_byte (segments b) n \<noteq> None"
      using coverage_correct [OF ok(2), of addr "addr + length buf"] by simp
    then obtain buf' where "copy_loop (ReadFailed (gpa_raw a) (length buf)) (segments b) buf 0 addr =
        (buf', Inr (length buf, addr + length buf))" "length buf' = length buf"
      "\<forall>i < length buf. first_byte (segments b) (addr + i) = Some (buf' ! i)"
      using copy_loop_correct [OF ok, of 0 buf addr addr "ReadFailed (gpa_raw a) (length buf)"] assms(2) by auto
    with 3 False show ?thesis
      unfolding unfold addr_def [symmetric] by (intro disjI1 exI [of _ buf']) (simp add: bundle_byte_def)
  qed
qed

interpretation snap: byte_memory bundle_read_into bundle_byte bundle_ok
proof
  fix b a i and buf :: "u8 list"
  assume ok: "bundle_ok b" and len: "length buf < usize_bound"
  note read_cases = bundle_read_cases [OF ok len, of a]
  show "length (fst (bundle_read_into b a buf)) = length buf"
    using read_cases by auto
  show "snd (bundle_read_into b a buf) = Inr () \<longleftrightarrow>
      (\<forall>i < length buf. bundle_byte b (unat (gpa_raw a) + i) \<noteq> None)"
    using read_cases by auto
  assume "snd (bundle_read_into b a buf) = Inr ()" "i < length buf"
  then show "bundle_byte b (unat (gpa_raw a) + i) = Some (fst (bundle_read_into b a buf) ! i)"
    using read_cases by auto
qed

section \<open>Sorting and overlap\<close>

definition segments_disjoint :: "snapshot_segment list \<Rightarrow> bool" where
  "segments_disjoint segs \<longleftrightarrow> sorted_wrt (\<lambda>a b. seg_end a \<le> seg_start b) segs"

lemma ranges_overlap_iff:
  "ranges_overlap (seg_range a) (seg_range b) \<longleftrightarrow> seg_start a < seg_end b \<and> seg_start b < seg_end a"
  by (simp add: ranges_overlap_def seg_start_def seg_end_def Let_def)

lemma sort_segments_sorted: "segments_sorted (sort_segments segs)"
proof -
  have "sorted (map (\<lambda>s. gpa_raw (range_start (seg_range s))) (sort_segments segs))"
    by (simp add: sort_segments_def)
  then show ?thesis
    by (simp add: segments_sorted_def seg_start_def sorted_wrt_map word_le_nat_alt)
qed

lemma set_sort_segments [simp]: "set (sort_segments segs) = set segs" "sort_segments segs = [] \<longleftrightarrow> segs = []"
  by (simp_all add: sort_segments_def) (metis length_0_conv length_sort)

text \<open>
  With sorted, non-empty segments the adjacent test finds every overlap. (An empty segment
  between two others can hide one.)
\<close>

lemma adjacent_overlap_disjoint:
  assumes "segments_sorted segs" "\<forall>s \<in> set segs. seg_start s < seg_end s"
  shows "\<not> adjacent_overlap segs \<longleftrightarrow> segments_disjoint segs"
  using assms
proof (induction segs rule: adjacent_overlap.induct)
  case (1 left right rest)
  then have IH: "\<not> adjacent_overlap (right # rest) \<longleftrightarrow> segments_disjoint (right # rest)"
    by simp
  have step: "\<not> ranges_overlap (seg_range left) (seg_range right) \<longleftrightarrow> seg_end left \<le> seg_start right"
    using 1(2,3) by (auto simp: ranges_overlap_iff not_less)
  have "seg_start right \<le> seg_start x" if "x \<in> set rest" for x
    using 1(2) that by simp
  then have "segments_disjoint (left # right # rest) \<longleftrightarrow>
      seg_end left \<le> seg_start right \<and> segments_disjoint (right # rest)"
    by (auto simp: segments_disjoint_def intro: order_trans)
  with IH step show ?case by simp
qed (simp_all add: segments_disjoint_def)

lemma segments_disjoint_distinct:
  "segments_disjoint segs \<Longrightarrow> i < length segs \<Longrightarrow> j < length segs \<Longrightarrow> i \<noteq> j \<Longrightarrow>
     \<not> (seg_start (segs ! i) \<le> n \<and> n < seg_end (segs ! i) \<and> seg_start (segs ! j) \<le> n \<and> n < seg_end (segs ! j))"
  unfolding segments_disjoint_def sorted_wrt_iff_nth_less
  by (metis le_less_trans less_le_not_le linorder_neqE_nat order_trans)

text \<open>An empty segment hides the overlap of its neighbours from the adjacent test.\<close>

lemma adjacent_overlap_misses_empty:
  "\<exists>a e b. segments_sorted [a, e, b] \<and> \<not> adjacent_overlap [a, e, b] \<and>
     ranges_overlap (seg_range a) (seg_range b)"
proof -
  let ?a = "segment_new (Gpa 0) (replicate 10 0)"
  let ?e = "segment_new (Gpa 0) []"
  let ?b = "segment_new (Gpa 7) (replicate 5 0)"
  have "segments_sorted [?a, ?e, ?b]"
    by (simp add: segments_sorted_def seg_start_def segment_new_def range_new_def u64_of_usize_def)
  moreover have "\<not> adjacent_overlap [?a, ?e, ?b]" "ranges_overlap (seg_range ?a) (seg_range ?b)"
    unfolding adjacent_overlap.simps ranges_overlap_iff
    by (simp_all add: seg_end_eq seg_start_def segment_new_def range_new_def u64_of_usize_def)
  ultimately show ?thesis by blast
qed

section \<open>Properties\<close>

text \<open>
  C8: a read from a well-formed bundle succeeds exactly when every requested address lies in a
  segment, and then delivers the bytes of the first segments that contain them, across segment
  boundaries; otherwise it reports the request as failed and leaves the caller's buffer untouched.
\<close>

theorem bundle_read_into_exact:
  assumes "bundle_ok b" "length buf < usize_bound"
  shows "(if \<forall>i < length buf. bundle_byte b (unat (gpa_raw a) + i) \<noteq> None
      then bundle_read_into b a buf =
        (map (\<lambda>i. the (bundle_byte b (unat (gpa_raw a) + i))) [0 ..< length buf], Inr ())
      else bundle_read_into b a buf = (buf, Inl (ReadFailed (gpa_raw a) (length buf))))"
proof (cases "\<forall>i < length buf. bundle_byte b (unat (gpa_raw a) + i) \<noteq> None")
  case True
  then obtain buf' where buf': "bundle_read_into b a buf = (buf', Inr ())" "length buf' = length buf"
    "\<forall>i < length buf. bundle_byte b (unat (gpa_raw a) + i) = Some (buf' ! i)"
    using bundle_read_cases [OF assms, of a] by metis
  have "map (\<lambda>i. the (bundle_byte b (unat (gpa_raw a) + i))) [0 ..< length buf] = map (\<lambda>i. buf' ! i) [0 ..< length buf]"
    using buf'(3) by (intro map_cong) simp_all
  also have "\<dots> = buf'"
    using map_nth [of buf'] by (simp only: buf'(2))
  finally show ?thesis
    using True buf'(1) by presburger
next
  case False
  then have "bundle_read_into b a buf = (buf, Inl (ReadFailed (gpa_raw a) (length buf)))"
    using bundle_read_cases [OF assms, of a] by (metis option.distinct(1))
  with False show ?thesis by simp
qed

lemma two_segment_bundle_ok:
  "bundle_ok \<lparr>provenance = p, segments = [segment_new (Gpa 16) [1, 2], segment_new (Gpa 18) [3, 4]]\<rparr>"
  by (simp add: bundle_ok_def segment_new_ok segments_sorted_def seg_start_def)
    (simp add: segment_new_def range_new_def)

theorem bundle_read_into_exact_witness:
  "bundle_read_into \<lparr>provenance = \<lparr>provenance_format = ''raw'', provenance_source = ''x''\<rparr>,
      segments = [segment_new (Gpa 16) [1, 2], segment_new (Gpa 18) [3, 4]]\<rparr> (Gpa 17) [0, 0] = ([2, 3], Inr ())"
proof -
  let ?b = "\<lparr>provenance = \<lparr>provenance_format = ''raw'', provenance_source = ''x''\<rparr>,
      segments = [segment_new (Gpa 16) [1, 2], segment_new (Gpa 18) [3, 4]]\<rparr>"
  have bytes: "bundle_byte ?b 17 = Some 2" "bundle_byte ?b 18 = Some 3"
    by (simp_all add: bundle_byte_def seg_end_eq seg_start_def segment_new_def range_new_def u64_of_usize_def)
  have "\<forall>i < length [0, 0 :: u8]. bundle_byte ?b (unat (gpa_raw (Gpa 17)) + i) \<noteq> None"
    using bytes by (auto simp: less_Suc_eq)
  then show ?thesis
    using bundle_read_into_exact [OF two_segment_bundle_ok, of "[0, 0]" _ "Gpa 17"] bytes
    by (simp add: usize_bound_def upt_rec)
qed

text \<open>
  a raw artifact is accepted exactly when it fits below \<open>2 ^ 64\<close>, and reading any slice of it
  back returns that slice of the file.
\<close>

lemma try_from_raw_round_trip:
  assumes "length data < 2 ^ 63"
  shows "(is_ok (try_from_raw src (Gpa base) data) \<longleftrightarrow> unat base + length data \<le> 2 ^ 64) \<and>
    (\<forall>b off n. try_from_raw src (Gpa base) data = Inr b \<and> 0 < n \<and> off + n \<le> length data \<longrightarrow>
       bundle_ok b \<and>
       bundle_read_into b (Gpa (base + of_nat off)) (replicate n 0) = (take n (drop off data), Inr ()))"
proof -
  have conv: "u64_of_usize (length data) = Some (of_nat (length data))" "unat (of_nat (length data) :: u64) = length data"
    using assms by (simp_all add: u64_of_usize_def unat_of_nat)
  have sum: "sat_add_u128 (unat base) (length data) = unat base + length data"
    using sat_add_u128_u64 [of base "of_nat (length data)"] conv by simp
  have raw: "try_from_raw src (Gpa base) data = Inr b \<longleftrightarrow>
      unat base + length data \<le> 2 ^ 64 \<and> b = from_raw src (Gpa base) data" for b
    by (auto simp: try_from_raw_def conv sum u64_limit_eq)
  have ok: "bundle_ok (from_raw src (Gpa base) data)"
    using assms by (simp add: bundle_ok_def from_raw_def segment_new_ok segments_sorted_def)
  have read: "bundle_read_into (from_raw src (Gpa base) data) (Gpa (base + of_nat off)) (replicate n 0) =
      (take n (drop off data), Inr ())"
    if "unat base + length data \<le> 2 ^ 64" "0 < n" "off + n \<le> length data" for off n
  proof -
    have "unat (of_nat off :: u64) = off"
      using that assms by (simp add: unat_of_nat)
    then have addr: "unat (base + of_nat off) = unat base + off"
      using that by (simp add: unat_word_ariths)
    have byte: "bundle_byte (from_raw src (Gpa base) data) (unat base + off + i) = Some (data ! (off + i))"
      if "i < n" for i
      using that \<open>off + n \<le> length data\<close> \<open>unat base + length data \<le> 2 ^ 64\<close> conv(2)
      by (simp add: bundle_byte_def from_raw_def seg_end_eq seg_start_def segment_new_def range_new_def conv(1))
    have "map (\<lambda>i. the (bundle_byte (from_raw src (Gpa base) data) (unat base + off + i))) [0 ..< n] =
        take n (drop off data)"
      using byte \<open>off + n \<le> length data\<close> by (intro nth_equalityI) simp_all
    then show ?thesis
      using bundle_read_cases [OF ok, of "replicate n 0" "Gpa (base + of_nat off)"] that assms byte
      by (auto simp: addr usize_bound_def intro!: nth_equalityI)
  qed
  show ?thesis
    using raw ok read by (auto simp: is_ok_iff)
qed

end
