(* ===== verification/Artifact_Parse.thy ===== *)
theory Artifact_Parse
  imports Artifact
begin

text \<open>
  The crate \<open>vmi-artifact\<close>, second part: the parsers of ELF vmcores, Windows crash dumps (legacy
  runs, bitmap and RDMP layouts) and LiME files. Every parser is total: each bounds check,
  overflow check and marker test of the code is a branch here. Loops over a table are recursions
  over its list of indices; the LiME loop terminates because every record moves the cursor.
\<close>

section \<open>Fields (lib.rs)\<close>

definition read_array :: "nat \<Rightarrow> u8 list \<Rightarrow> usize \<Rightarrow> u8 list result" where
  "read_array n data offset =
     and_then (ok_or (usize_checked_add offset n) (Backend ''artifact field offset overflow'')) (\<lambda>stop.
       ok_or (get_range data offset stop) (Backend ''truncated artifact field''))"

definition read_u16 :: "u8 list \<Rightarrow> usize \<Rightarrow> u16 result" where
  "read_u16 data offset = and_then (read_array 2 data offset) (\<lambda>bs. Inr (from_le_bytes bs))"

definition read_u32 :: "u8 list \<Rightarrow> usize \<Rightarrow> u32 result" where
  "read_u32 data offset = and_then (read_array 4 data offset) (\<lambda>bs. Inr (from_le_bytes bs))"

definition read_u64 :: "u8 list \<Rightarrow> usize \<Rightarrow> u64 result" where
  "read_u64 data offset = and_then (read_array 8 data offset) (\<lambda>bs. Inr (from_le_bytes bs))"

definition add_offset :: "usize \<Rightarrow> usize \<Rightarrow> usize result" where
  "add_offset base delta =
     ok_or (usize_checked_add base delta) (Backend ''artifact field offset overflow'')"

text \<open>A segment takes 32 bytes in the segment table.\<close>

definition reserve_segment :: "snapshot_segment list \<Rightarrow> string \<Rightarrow> unit result" where
  "reserve_segment values fmt =
     (if reservable (32 * (length values + 1)) then Inr ()
      else Inl (Backend (''failed to grow '' @ fmt @ '' segment table: '' @ capacity_overflow)))"

text \<open>The common end of the parsers: sort by start, then compare neighbours.\<close>

definition finish_segments :: "string \<Rightarrow> snapshot_segment list \<Rightarrow> snapshot_segment list result" where
  "finish_segments message segs =
     (let sorted = sort_segments segs in
      if adjacent_overlap sorted then Inl (Backend message) else Inr sorted)"

definition bundle_of :: "string \<Rightarrow> string \<Rightarrow> snapshot_segment list \<Rightarrow> snapshot_bundle" where
  "bundle_of fmt source segs =
     \<lparr>provenance = \<lparr>provenance_format = fmt, provenance_source = source\<rparr>, segments = segs\<rparr>"

section \<open>Windows crash-dump headers\<close>

definition is_page_du64 :: "u8 list \<Rightarrow> bool" where
  "is_page_du64 data =
     (\<not> (length data < 0x2000 \<or> \<not> starts_with data (bytes_of ''PAGE'') \<or>
       get_range data 4 8 \<noteq> Some (bytes_of ''DU64'')))"

record kdmp_metadata =
  major_version :: u32
  minor_version :: u32
  directory_table_base :: u64
  pfn_database :: u64
  loaded_module_list :: u64
  active_process_head :: u64
  machine_type :: u32
  processor_count :: u32
  bugcheck_code :: u32
  bugcheck_parameters :: "u64 list"
  debugger_data_block :: u64

definition hex0x_u32 :: "u32 \<Rightarrow> string" where
  "hex0x_u32 w = ''0x'' @ fmt_radix 16 (unat w)"

definition kdmp_parse :: "u8 list \<Rightarrow> kdmp_metadata result" where
  "kdmp_parse data =
     (if \<not> is_page_du64 data then
        Inl (Backend ''artifact is not a legacy AMD64 PAGE/DU64 crash dump'')
      else
        and_then (read_u32 data 0x30) (\<lambda>machine.
        if machine \<noteq> 0x8664 then
          Inl (Backend (''unsupported KDMP machine type '' @ hex0x_u32 machine))
        else
        and_then (read_u32 data 0x08) (\<lambda>major.
        and_then (read_u32 data 0x0c) (\<lambda>minor.
        and_then (read_u64 data 0x10) (\<lambda>dtb.
        and_then (read_u64 data 0x18) (\<lambda>pfn.
        and_then (read_u64 data 0x20) (\<lambda>modules.
        and_then (read_u64 data 0x28) (\<lambda>processes.
        and_then (read_u32 data 0x34) (\<lambda>processors.
        and_then (read_u32 data 0x38) (\<lambda>bugcheck.
        and_then (read_u64 data 0x40) (\<lambda>p0.
        and_then (read_u64 data 0x48) (\<lambda>p1.
        and_then (read_u64 data 0x50) (\<lambda>p2.
        and_then (read_u64 data 0x58) (\<lambda>p3.
        and_then (read_u64 data 0x80) (\<lambda>block.
          Inr \<lparr>major_version = major, minor_version = minor, directory_table_base = dtb,
            pfn_database = pfn, loaded_module_list = modules, active_process_head = processes,
            machine_type = machine, processor_count = processors, bugcheck_code = bugcheck,
            bugcheck_parameters = [p0, p1, p2, p3], debugger_data_block = block\<rparr>)))))))))))))))"

section \<open>ELF vmcores\<close>

definition elf_header_ok :: "u8 list \<Rightarrow> bool" where
  "elf_header_ok data =
     (\<not> (length data < 64 \<or> \<not> starts_with data (0x7f # bytes_of ''ELF'') \<or>
       get_at data 4 \<noteq> Some 2 \<or> get_at data 5 \<noteq> Some 1))"

definition elf_entry_offset :: "u64 \<Rightarrow> u64 \<Rightarrow> u64 \<Rightarrow> usize result" where
  "elf_entry_offset program_offset entry_size index =
     and_then (ok_or (checked_mul index entry_size) (Backend ''ELF program table overflow'')) (\<lambda>delta.
     and_then (ok_or (checked_add program_offset delta) (Backend ''ELF program table overflow'')) (\<lambda>offset.
       ok_or (usize_of_u64 offset) (Backend ''ELF program header offset is too large'')))"

text \<open>The bytes of a \<open>PT_LOAD\<close> segment: file contents, then zeros up to the memory size.\<close>

definition elf_segment_bytes :: "u8 list \<Rightarrow> u64 \<Rightarrow> u64 \<Rightarrow> u64 \<Rightarrow> u8 list result" where
  "elf_segment_bytes data file_offset file_size memory_size =
     and_then (ok_or (usize_of_u64 file_offset) (Backend ''ELF segment offset is too large'')) (\<lambda>file_start.
     and_then (ok_or (usize_of_u64 file_size) (Backend ''ELF segment file size is too large'')) (\<lambda>file_len.
     and_then (ok_or (usize_of_u64 memory_size) (Backend ''ELF segment memory size is too large'')) (\<lambda>memory_len.
     and_then (ok_or (usize_checked_add file_start file_len) (Backend ''ELF segment range overflow'')) (\<lambda>file_end.
     and_then (ok_or (get_range data file_start file_end) (Backend ''ELF segment extends beyond artifact'')) (\<lambda>source.
     if \<not> reservable memory_len then
       Inl (Backend (''failed to allocate ELF segment: '' @ capacity_overflow))
     else
       and_then (ok_or (get_range (replicate memory_len (0 :: u8)) 0 file_len)
         (Backend ''ELF segment buffer is too small'')) (\<lambda>_.
         Inr (splice (replicate memory_len 0) 0 source)))))))"

fun elf_loop ::
  "u8 list \<Rightarrow> string \<Rightarrow> u64 \<Rightarrow> u64 \<Rightarrow> u64 \<Rightarrow> u64 list \<Rightarrow> u64 \<Rightarrow> snapshot_segment list \<Rightarrow> snapshot_segment list result" where
  "elf_loop data fmt max_memory_size program_offset entry_size [] decoded segs = Inr segs"
| "elf_loop data fmt max_memory_size program_offset entry_size (index # indices) decoded segs =
     and_then (elf_entry_offset program_offset entry_size index) (\<lambda>offset.
     and_then (read_u32 data offset) (\<lambda>kind.
     if kind \<noteq> 1 then elf_loop data fmt max_memory_size program_offset entry_size indices decoded segs
     else
       and_then (and_then (add_offset offset 8) (read_u64 data)) (\<lambda>file_offset.
       and_then (and_then (add_offset offset 24) (read_u64 data)) (\<lambda>physical.
       and_then (and_then (add_offset offset 32) (read_u64 data)) (\<lambda>file_size.
       and_then (and_then (add_offset offset 40) (read_u64 data)) (\<lambda>memory_size.
       if file_size > memory_size then Inl (Backend ''ELF segment file size exceeds memory size'')
       else
         and_then (ok_or (checked_add decoded memory_size) (Backend ''ELF decoded memory size overflow'')) (\<lambda>decoded'.
         if decoded' > max_memory_size then
           Inl (Backend (''ELF decoded memory exceeds '' @ dec (unat max_memory_size) @ '' bytes''))
         else
           and_then (elf_segment_bytes data file_offset file_size memory_size) (\<lambda>bytes.
           and_then (reserve_segment segs fmt) (\<lambda>_.
             elf_loop data fmt max_memory_size program_offset entry_size indices decoded'
               (segs @ [segment_new (Gpa physical) bytes]))))))))))"

definition from_elf_with_limits :: "string \<Rightarrow> u8 list \<Rightarrow> string \<Rightarrow> u64 \<Rightarrow> snapshot_bundle result" where
  "from_elf_with_limits source data fmt max_memory_size =
     (if max_memory_size = 0 then
        Inl (Backend ''maximum ELF decoded memory size must be non-zero'')
      else if \<not> elf_header_ok data then Inl (Backend ''artifact is not little-endian ELF64'')
      else
        and_then (read_u64 data 32) (\<lambda>program_offset.
        and_then (read_u16 data 54) (\<lambda>entry_size16.
        and_then (read_u16 data 56) (\<lambda>entry_count16.
        let entry_size = ucast entry_size16 :: u64; entry_count = ucast entry_count16 :: u64 in
        if entry_size < 56 then
          Inl (Backend (''ELF program header size '' @ dec (unat entry_size) @ '' is too small''))
        else
          and_then (elf_loop data fmt max_memory_size program_offset entry_size
            (map of_nat [0 ..< unat entry_count]) 0 []) (\<lambda>segs.
          if segs = [] then Inl (Backend ''ELF artifact contains no PT_LOAD segments'')
          else
            and_then (finish_segments ''ELF PT_LOAD physical ranges overlap'' segs) (\<lambda>sorted.
              Inr (bundle_of fmt source sorted)))))))"

definition DEFAULT_MAX_ARTIFACT_SIZE :: u64 where
  "DEFAULT_MAX_ARTIFACT_SIZE = 64 * 1024 * 1024 * 1024"

definition from_elf_vmcore :: "string \<Rightarrow> u8 list \<Rightarrow> snapshot_bundle result" where
  "from_elf_vmcore source data = from_elf_with_limits source data ''elf-vmcore'' DEFAULT_MAX_ARTIFACT_SIZE"

definition from_xen_core :: "string \<Rightarrow> u8 list \<Rightarrow> snapshot_bundle result" where
  "from_xen_core source data = from_elf_with_limits source data ''xen-core'' DEFAULT_MAX_ARTIFACT_SIZE"

section \<open>Crash dumps with a run table\<close>

text \<open>One run of pages: its first address, its length in bytes and its place in the payload.\<close>

definition page_run ::
  "string \<Rightarrow> string \<Rightarrow> string \<Rightarrow> string \<Rightarrow> string \<Rightarrow> u8 list \<Rightarrow> u64 \<Rightarrow> u64 \<Rightarrow> usize \<Rightarrow> (u64 \<times> u8 list \<times> usize) result" where
  "page_run address_text length_text large_text payload_text exceeds_text data base_page page_count payload =
     and_then (ok_or (checked_mul base_page 4096) (Backend address_text)) (\<lambda>gpa.
     and_then (ok_or (checked_mul page_count 4096) (Backend length_text)) (\<lambda>byte_length.
     and_then (ok_or (usize_of_u64 byte_length) (Backend large_text)) (\<lambda>len.
     and_then (ok_or (usize_checked_add payload len) (Backend payload_text)) (\<lambda>stop.
     and_then (ok_or (get_range data payload stop) (Backend exceeds_text)) (\<lambda>bytes.
       Inr (gpa, bytes, stop))))))"

fun kdmp_loop ::
  "u8 list \<Rightarrow> usize list \<Rightarrow> usize \<Rightarrow> u64 \<Rightarrow> snapshot_segment list \<Rightarrow> (u64 \<times> snapshot_segment list) result" where
  "kdmp_loop data [] payload pages segs = Inr (pages, segs)"
| "kdmp_loop data (index # indices) payload pages segs =
     and_then (ok_or (Option.bind (usize_checked_mul index 16) (\<lambda>offset. usize_checked_add 0x98 offset))
       (Backend ''KDMP run-table offset overflow'')) (\<lambda>run_offset.
     and_then (read_u64 data run_offset) (\<lambda>base_page.
     and_then (and_then (add_offset run_offset 8) (read_u64 data)) (\<lambda>page_count.
     if page_count = 0 then Inl (Backend (''KDMP physical run '' @ dec index @ '' is empty''))
     else
       and_then (ok_or (checked_add pages page_count) (Backend ''KDMP page count overflow'')) (\<lambda>pages'.
       and_then (page_run ''KDMP physical address overflow'' ''KDMP run length overflow''
         ''KDMP run is too large'' ''KDMP payload offset overflow''
         (''KDMP physical run '' @ dec index @ '' exceeds artifact'') data base_page page_count payload)
         (\<lambda>(gpa, bytes, payload_end).
       and_then (reserve_segment segs ''legacy KDMP'') (\<lambda>_.
         kdmp_loop data indices payload_end pages' (segs @ [segment_new (Gpa gpa) bytes])))))))"

section \<open>Crash dumps with a page bitmap\<close>

definition u64_div_ceil :: "u64 \<Rightarrow> u64 \<Rightarrow> u64" where
  "u64_div_ceil a b = (if a mod b > 0 then a div b + 1 else a div b)"

fun bitmap_loop ::
  "u8 list \<Rightarrow> u8 list \<Rightarrow> u64 list \<Rightarrow> usize \<Rightarrow> u64 \<Rightarrow> snapshot_segment list \<Rightarrow> (u64 \<times> snapshot_segment list) result" where
  "bitmap_loop data bitmap [] payload found segs = Inr (found, segs)"
| "bitmap_loop data bitmap (pfn # pfns) payload found segs =
     and_then (ok_or (usize_of_u64 (pfn div 8)) (Backend ''bitmap KDMP PFN is too large'')) (\<lambda>bitmap_index.
     and_then (ok_or (get_at bitmap bitmap_index) (Backend ''bitmap KDMP PFN exceeds its bitmap'')) (\<lambda>bitmap_byte.
     if bitmap_byte AND push_bit (unat (pfn mod 8)) 1 = 0 then bitmap_loop data bitmap pfns payload found segs
     else
       and_then (ok_or (usize_checked_add payload 4096) (Backend ''bitmap KDMP payload overflow'')) (\<lambda>stop.
       and_then (ok_or (get_range data payload stop) (Backend ''bitmap KDMP page exceeds artifact'')) (\<lambda>bytes.
       and_then (reserve_segment segs ''bitmap KDMP'') (\<lambda>_.
       and_then (ok_or (checked_mul pfn 4096) (Backend ''bitmap KDMP physical address overflow'')) (\<lambda>gpa.
       and_then (ok_or (checked_add found 1) (Backend ''bitmap KDMP page count overflow'')) (\<lambda>found'.
         bitmap_loop data bitmap pfns stop found' (segs @ [segment_new (Gpa gpa) bytes]))))))))"

definition from_bitmap_kdmp :: "string \<Rightarrow> u8 list \<Rightarrow> snapshot_bundle result" where
  "from_bitmap_kdmp source data =
     (if get_range data (0x2000 + 4) (0x2000 + 8) \<noteq> Some (bytes_of ''DUMP'') then
        Inl (Backend ''invalid bitmap KDMP marker'')
      else
        and_then (read_u64 data (0x2000 + 0x20)) (\<lambda>first_page64.
        and_then (ok_or (usize_of_u64 first_page64) (Backend ''bitmap KDMP first-page offset is too large'')) (\<lambda>first_page.
        and_then (read_u64 data (0x2000 + 0x28)) (\<lambda>present.
        and_then (read_u64 data (0x2000 + 0x30)) (\<lambda>pages.
        if pages = 0 \<or> present > pages then Inl (Backend ''invalid bitmap KDMP page counts'')
        else
          and_then (ok_or (usize_of_u64 (u64_div_ceil pages 8)) (Backend ''bitmap KDMP bitmap is too large'')) (\<lambda>bitmap_len.
          and_then (ok_or (usize_checked_add 0x2000 0x38) (Backend ''bitmap KDMP table offset overflow'')) (\<lambda>bitmap_start.
          and_then (ok_or (usize_checked_add bitmap_start bitmap_len) (Backend ''bitmap KDMP table range overflow'')) (\<lambda>bitmap_end.
          and_then (ok_or (get_range data bitmap_start bitmap_end) (Backend ''truncated bitmap KDMP bitmap'')) (\<lambda>bitmap.
          if first_page < bitmap_end then Inl (Backend ''bitmap KDMP payload overlaps its bitmap'')
          else
            and_then (bitmap_loop data bitmap (map of_nat [0 ..< unat pages]) first_page 0 []) (\<lambda>(found, segs).
            if found \<noteq> present then
              Inl (Backend (''bitmap KDMP declares '' @ dec (unat present) @
                '' present pages but bitmap contains '' @ dec (unat found)))
            else Inr (bundle_of ''windows-kdmp-bitmap'' source segs)))))))))))"

section \<open>Crash dumps with a range table\<close>

fun rdmp_loop ::
  "u8 list \<Rightarrow> usize list \<Rightarrow> usize \<Rightarrow> snapshot_segment list \<Rightarrow> snapshot_segment list result" where
  "rdmp_loop data [] payload segs = Inr segs"
| "rdmp_loop data (index # indices) payload segs =
     and_then (ok_or (usize_checked_mul index 16) (Backend ''RDMP KDMP range-table overflow'')) (\<lambda>delta.
     and_then (ok_or (usize_checked_add 0x2030 delta) (Backend ''RDMP KDMP range-table overflow'')) (\<lambda>offset.
     and_then (read_u64 data offset) (\<lambda>base_page.
     and_then (and_then (add_offset offset 8) (read_u64 data)) (\<lambda>page_count.
     if base_page = 0 then Inr segs
     else if page_count = 0 then
       Inl (Backend (''RDMP KDMP physical range '' @ dec index @ '' is empty''))
     else
       and_then (page_run ''RDMP KDMP physical address overflow'' ''RDMP KDMP range length overflow''
         ''RDMP KDMP range is too large'' ''RDMP KDMP payload overflow''
         (''RDMP KDMP physical range '' @ dec index @ '' exceeds artifact'') data base_page page_count payload)
         (\<lambda>(gpa, bytes, stop).
       and_then (reserve_segment segs ''RDMP KDMP'') (\<lambda>_.
         rdmp_loop data indices stop (segs @ [segment_new (Gpa gpa) bytes])))))))"

definition from_rdmp_kdmp :: "string \<Rightarrow> u8 list \<Rightarrow> snapshot_bundle result" where
  "from_rdmp_kdmp source data =
     (if get_range data (0x2000 + 8) (0x2000 + 12) \<noteq> Some (bytes_of ''DUMP'') then
        Inl (Backend ''invalid RDMP KDMP marker'')
      else
        and_then (read_u64 data (0x2000 + 0x10)) (\<lambda>metadata_size.
        and_then (read_u64 data (0x2000 + 0x18)) (\<lambda>first_page.
        and_then
          (if metadata_size < 0x20 \<or> metadata_size mod 16 \<noteq> 0 then Inr True
           else
             and_then (ok_or (checked_add metadata_size 0x2020) (Backend ''RDMP KDMP metadata offset overflow''))
               (\<lambda>expected. Inr (first_page \<noteq> expected))) (\<lambda>invalid.
        if invalid then Inl (Backend ''invalid RDMP KDMP metadata layout'')
        else
          and_then (ok_or (usize_of_u64 (metadata_size div 16)) (Backend ''RDMP KDMP range table is too large'')) (\<lambda>range_count.
          and_then (ok_or (usize_of_u64 first_page) (Backend ''RDMP KDMP payload offset is too large'')) (\<lambda>payload.
          if payload > length data then Inl (Backend ''RDMP KDMP payload exceeds artifact'')
          else
            and_then (rdmp_loop data [0 ..< range_count] payload []) (\<lambda>segs.
            if segs = [] then Inl (Backend ''RDMP KDMP contains no physical ranges'')
            else
              and_then (finish_segments ''RDMP KDMP physical ranges overlap'' segs) (\<lambda>sorted.
                Inr (bundle_of ''windows-kdmp-rdmp'' source sorted)))))))))"

definition from_kdmp :: "string \<Rightarrow> u8 list \<Rightarrow> snapshot_bundle result" where
  "from_kdmp source data =
     (if \<not> is_page_du64 data then
        Inl (Backend ''artifact is not a legacy AMD64 PAGE/DU64 crash dump'')
      else if get_range data 0x2000 (0x2000 + 4) = Some (bytes_of ''SDMP'') \<or>
          get_range data 0x2000 (0x2000 + 4) = Some (bytes_of ''FDMP'') then
        from_bitmap_kdmp source data
      else
        and_then (read_u32 data 0x2000) (\<lambda>marker.
        if marker = 0x40 \<and> get_range data (0x2000 + 4) (0x2000 + 8) = Some (bytes_of ''RDMP'') then
          from_rdmp_kdmp source data
        else
          and_then (read_u32 data 0x30) (\<lambda>machine.
          if machine \<noteq> 0x8664 then
            Inl (Backend (''unsupported KDMP machine type '' @ hex0x_u32 machine))
          else
            and_then (read_u32 data 0x88) (\<lambda>run_count32.
            let run_count = unat run_count32 in
            and_then (read_u64 data (0x88 + 8)) (\<lambda>declared_pages.
            if run_count = 0 \<or> run_count > (0x2000 - 0x98) div 16 then
              Inl (Backend (''invalid KDMP physical run count '' @ dec run_count))
            else if \<not> reservable (32 * run_count) then
              Inl (Backend (''failed to allocate KDMP run table: '' @ capacity_overflow))
            else
              and_then (kdmp_loop data [0 ..< run_count] 0x2000 0 []) (\<lambda>(actual_pages, segs).
              if actual_pages \<noteq> declared_pages then
                Inl (Backend (''KDMP declares '' @ dec (unat declared_pages) @
                  '' pages but runs contain '' @ dec (unat actual_pages)))
              else
                and_then (finish_segments ''KDMP physical memory runs overlap'' segs) (\<lambda>sorted.
                  Inr (bundle_of ''windows-kdmp'' source sorted))))))))"

section \<open>LiME files\<close>

definition lime_record_end :: "u8 list \<Rightarrow> usize \<Rightarrow> (u64 \<times> usize \<times> usize) result" where
  "lime_record_end data cursor =
     and_then (ok_or (usize_checked_add cursor 32) (Backend ''LiME header offset overflow'')) (\<lambda>header_end.
     if header_end > length data then Inl (Backend ''truncated LiME range header'')
     else
       and_then (read_u32 data cursor) (\<lambda>magic.
       if magic \<noteq> 0x4c694d45 then Inl (Backend (''invalid LiME magic at offset '' @ dec cursor))
       else
         and_then (and_then (add_offset cursor 4) (read_u32 data)) (\<lambda>version.
         if version \<noteq> 1 then Inl (Backend (''unsupported LiME version '' @ dec (unat version)))
         else
           and_then (and_then (add_offset cursor 8) (read_u64 data)) (\<lambda>start.
           and_then (and_then (add_offset cursor 16) (read_u64 data)) (\<lambda>stop.
           and_then (ok_or (Option.bind (checked_sub stop start) (\<lambda>v. checked_add v 1))
             (Backend (''invalid LiME range '' @ hex0x start @ ''..='' @ hex0x stop))) (\<lambda>length64.
           and_then (ok_or (usize_of_u64 length64) (Backend ''LiME range is too large'')) (\<lambda>len.
           and_then (ok_or (usize_checked_add header_end len) (Backend ''LiME range offset overflow'')) (\<lambda>data_end.
             Inr (start, header_end, data_end)))))))))"

lemma lime_record_progress:
  "lime_record_end data cursor = Inr (start, header_end, data_end) \<Longrightarrow> header_end = cursor + 32 \<and> header_end \<le> data_end"
  by (auto simp: lime_record_end_def usize_checked_add_def split: if_splits)

function lime_loop :: "u8 list \<Rightarrow> usize \<Rightarrow> snapshot_segment list \<Rightarrow> snapshot_segment list result" where
  "lime_loop data cursor segs =
     (if cursor < length data then
        (case lime_record_end data cursor of
           Inl e \<Rightarrow> Inl e
         | Inr (start, header_end, data_end) \<Rightarrow>
             and_then (ok_or (get_range data header_end data_end)
               (Backend ''LiME range extends beyond artifact'')) (\<lambda>bytes.
             and_then (reserve_segment segs ''LiME'') (\<lambda>_.
               lime_loop data data_end (segs @ [segment_new (Gpa start) bytes]))))
      else Inr segs)"
  by pat_completeness auto

termination
  by (relation "measure (\<lambda>(data, cursor, segs). length data - cursor)")
    (auto dest!: lime_record_progress)

declare lime_loop.simps [simp del]

definition from_lime :: "string \<Rightarrow> u8 list \<Rightarrow> snapshot_bundle result" where
  "from_lime source data =
     and_then (lime_loop data 0 []) (\<lambda>segs.
     if segs = [] then Inl (Backend ''LiME artifact contains no ranges'')
     else
       and_then (finish_segments ''LiME physical ranges overlap'' segs) (\<lambda>sorted.
         Inr (bundle_of ''lime'' source sorted)))"

section \<open>What the loops accumulate\<close>

definition live_segment :: "snapshot_segment \<Rightarrow> bool" where
  "live_segment s \<longleftrightarrow> segment_ok s \<and> seg_data s \<noteq> []"

definition page_segment :: "snapshot_segment \<Rightarrow> bool" where
  "page_segment s \<longleftrightarrow> live_segment s \<and> 4096 dvd seg_start s \<and> 4096 dvd length (seg_data s)"

definition total_bytes :: "snapshot_segment list \<Rightarrow> nat" where
  "total_bytes segs = sum_list (map (length \<circ> seg_data) segs)"

lemma total_bytes_simps [simp]:
  "total_bytes [] = 0" "total_bytes (xs @ [s]) = total_bytes xs + length (seg_data s)"
  by (simp_all add: total_bytes_def)

lemma total_bytes_sort: "total_bytes (sort_segments segs) = total_bytes segs"
proof -
  have "total_bytes (insort_key f s xs) = length (seg_data s) + total_bytes xs" for f :: "snapshot_segment \<Rightarrow> u64" and s xs
    by (induction xs) (auto simp: total_bytes_def)
  then show ?thesis
    unfolding sort_segments_def by (induction segs) (auto simp: total_bytes_def)
qed

lemma segment_new_data [simp]: "seg_data (segment_new a bytes) = bytes"
  "seg_start (segment_new (Gpa g) bytes) = unat g"
  by (simp_all add: segment_new_def seg_start_def range_new_def)

lemma segment_new_slice:
  assumes "usize_checked_add a n = Some stop" "get_range data a stop = Some bytes"
  shows "segment_ok (segment_new g bytes)" "length bytes = n"
  using assms segment_new_ok [of bytes g]
  by (auto simp: get_range_Some usize_checked_add_def usize_bound_def split: if_splits)

lemma live_segment_bounds: "live_segment s \<Longrightarrow> seg_start s < seg_end s"
  by (auto simp: live_segment_def seg_end_ok)

lemma page_run_segment:
  assumes "page_run t1 t2 t3 t4 t5 data base count payload = Inr (gpa, bytes, stop)" "count \<noteq> 0"
  shows "page_segment (segment_new (Gpa gpa) bytes)" "length bytes = unat count * 4096"
proof -
  obtain n where g: "checked_mul base 4096 = Some gpa" and n: "checked_mul count 4096 = Some n"
    and stop: "usize_checked_add payload (unat n) = Some stop" "get_range data payload stop = Some bytes"
    using assms(1) by (auto simp: page_run_def)
  note slice = segment_new_slice [OF stop]
  show len: "length bytes = unat count * 4096"
    using slice(2) unat_checked_mul [OF n] by simp
  then have "bytes \<noteq> []"
    using assms(2) by (auto simp: word_unat_eq_iff)
  with len show "page_segment (segment_new (Gpa gpa) bytes)"
    using slice(1) [of "Gpa gpa"] unat_checked_mul [OF g] by (simp add: page_segment_def live_segment_def)
qed

lemma kdmp_loop_segments:
  assumes "kdmp_loop data indices payload pages segs = Inr (pages', segs')"
    "\<forall>s \<in> set segs. page_segment s" "total_bytes segs = unat pages * 4096"
  shows "(\<forall>s \<in> set segs'. page_segment s) \<and> total_bytes segs' = unat pages' * 4096"
  using assms
proof (induction indices arbitrary: payload pages segs)
  case (Cons index indices)
  from Cons.prems(1) obtain base count pages1 gpa bytes stop t1 t2 t3 t4 t5 where
    step: "count \<noteq> 0" "checked_add pages count = Some pages1"
      "page_run t1 t2 t3 t4 t5 data base count payload = Inr (gpa, bytes, stop)"
    and rest: "kdmp_loop data indices stop pages1 (segs @ [segment_new (Gpa gpa) bytes]) = Inr (pages', segs')"
    by (auto split: if_splits)
  note run = page_run_segment [OF step(3,1)]
  have "\<forall>s \<in> set (segs @ [segment_new (Gpa gpa) bytes]). page_segment s"
    "total_bytes (segs @ [segment_new (Gpa gpa) bytes]) = unat pages1 * 4096"
    using Cons.prems(2,3) run unat_checked_add [OF step(2)] by (auto simp: algebra_simps)
  with Cons.IH [OF rest] show ?case by simp
qed simp

lemma rdmp_loop_segments:
  assumes "rdmp_loop data indices payload segs = Inr segs'" "\<forall>s \<in> set segs. page_segment s"
  shows "\<forall>s \<in> set segs'. page_segment s"
  using assms
proof (induction indices arbitrary: payload segs)
  case (Cons index indices)
  from Cons.prems(1) consider "segs' = segs" | base count gpa bytes stop t1 t2 t3 t4 t5 where
    "count \<noteq> 0" "page_run t1 t2 t3 t4 t5 data base count payload = Inr (gpa, bytes, stop)"
    "rdmp_loop data indices stop (segs @ [segment_new (Gpa gpa) bytes]) = Inr segs'"
    by (auto split: if_splits)
  then show ?case
  proof cases
    case 2
    with Cons.prems(2) page_run_segment(1) [OF 2(2,1)] show ?thesis
      by (intro Cons.IH [OF 2(3)]) simp
  qed (use Cons.prems in simp)
qed simp

lemma lime_loop_segments:
  assumes "lime_loop data cursor segs = Inr segs'" "\<forall>s \<in> set segs. live_segment s"
  shows "\<forall>s \<in> set segs'. live_segment s"
  using assms
proof (induction data cursor segs rule: lime_loop.induct)
  case (1 data cursor segs)
  show ?case
  proof (cases "cursor < length data")
    case True
    with "1.prems"(1) obtain start he de bytes where
      step: "lime_record_end data cursor = Inr (start, he, de)" "get_range data he de = Some bytes"
      and rest: "lime_loop data de (segs @ [segment_new (Gpa start) bytes]) = Inr segs'"
      by (auto simp: lime_loop.simps [of data cursor] split: sum.splits)
    obtain v n :: u64 where n: "checked_add v 1 = Some n" "usize_checked_add he (unat n) = Some de"
      using step(1) by (auto simp: lime_record_end_def bind_eq_Some_conv split: if_splits)
    have "live_segment (segment_new (Gpa start) bytes)"
      using segment_new_slice [OF n(2) step(2)] unat_checked_add [OF n(1)] by (auto simp: live_segment_def)
    then show ?thesis
      using "1.IH" [OF True step(1) refl refl, of bytes] "1.prems" step rest True
      by (auto simp: lime_loop.simps [of data cursor])
  next
    case False
    with "1.prems" show ?thesis by (simp add: lime_loop.simps)
  qed
qed

lemma finish_segments_live:
  assumes "finish_segments m segs = Inr out" "\<forall>s \<in> set segs. live_segment s"
  shows "set out = set segs \<and> bundle_ok (bundle_of f src out) \<and> segments_disjoint out"
proof -
  have sorted: "out = sort_segments segs" "\<not> adjacent_overlap out"
    using assms(1) by (auto simp: finish_segments_def Let_def split: if_splits)
  have "segments_disjoint out"
    using adjacent_overlap_disjoint [of out] sorted sort_segments_sorted [of segs] assms(2)
    by (auto dest: live_segment_bounds)
  then show ?thesis
    using sorted(1) assms(2) sort_segments_sorted [of segs]
    by (simp add: bundle_ok_def bundle_of_def live_segment_def)
qed

section \<open>The ELF loop and the page bitmap\<close>

lemma elf_segment_bytes_eq:
  assumes "elf_segment_bytes data file_offset file_size memory_size = Inr bytes" "file_size \<le> memory_size"
  shows "bytes = take (unat file_size) (drop (unat file_offset) data) @ replicate (unat memory_size - unat file_size) 0"
    "length bytes = unat memory_size" "segment_ok (segment_new g bytes)"
proof -
  obtain src where src: "get_range data (unat file_offset) (unat file_offset + unat file_size) = Some src"
    and bytes: "bytes = splice (replicate (unat memory_size) 0) 0 src"
    using assms(1) by (auto simp: elf_segment_bytes_def usize_checked_add_def split: if_splits)
  have le: "unat file_size \<le> unat memory_size"
    using assms(2) by (simp add: word_le_nat_alt)
  from src have "length src = unat file_size" "src = take (unat file_size) (drop (unat file_offset) data)"
    by (auto simp: get_range_Some)
  then show eq: "bytes = take (unat file_size) (drop (unat file_offset) data) @ replicate (unat memory_size - unat file_size) 0"
    and len: "length bytes = unat memory_size"
    using bytes le by (simp_all add: splice_def)
  show "segment_ok (segment_new g bytes)"
    using len u64_unat_bound [of memory_size] by (intro segment_new_ok) simp
qed

lemma elf_loop_segments:
  assumes "elf_loop data fmt max_memory program_offset entry_size indices decoded segs = Inr segs'"
    "\<forall>s \<in> set segs. segment_ok s" "total_bytes segs = unat decoded" "decoded \<le> max_memory"
  shows "(\<forall>s \<in> set segs'. segment_ok s) \<and> total_bytes segs' \<le> unat max_memory"
  using assms
proof (induction indices arbitrary: decoded segs)
  case Nil
  then show ?case by (simp add: word_le_nat_alt)
next
  case (Cons index indices)
  from Cons.prems(1) consider
    "elf_loop data fmt max_memory program_offset entry_size indices decoded segs = Inr segs'"
    | file_offset physical file_size memory_size decoded' bytes where
      "file_size \<le> memory_size" "checked_add decoded memory_size = Some decoded'" "decoded' \<le> max_memory"
      "elf_segment_bytes data file_offset file_size memory_size = Inr bytes"
      "elf_loop data fmt max_memory program_offset entry_size indices decoded'
         (segs @ [segment_new (Gpa physical) bytes]) = Inr segs'"
    by (auto simp: not_less split: if_splits)
  then show ?case
  proof cases
    case 1
    with Cons show ?thesis by simp
  next
    case (2 file_offset physical file_size memory_size decoded' bytes)
    note bytes = elf_segment_bytes_eq [OF 2(4,1)]
    have "\<forall>s \<in> set (segs @ [segment_new (Gpa physical) bytes]). segment_ok s"
      "total_bytes (segs @ [segment_new (Gpa physical) bytes]) = unat decoded'"
      using Cons.prems(2,3) bytes unat_checked_add [OF 2(2)] by auto
    with Cons.IH [OF 2(5)] 2(3) show ?thesis by simp
  qed
qed

definition page_present :: "u8 list \<Rightarrow> u64 \<Rightarrow> bool" where
  "page_present bitmap pfn \<longleftrightarrow>
     unat pfn div 8 < length bitmap \<and> bit (bitmap ! (unat pfn div 8)) (unat pfn mod 8)"

lemma u8_bit_test: "n < 8 \<Longrightarrow> w AND push_bit n 1 = 0 \<longleftrightarrow> \<not> bit w n" for w :: u8
proof -
  assume n: "n < 8"
  have eq: "w AND push_bit n 1 = (if bit w n then push_bit n 1 else 0)"
    by (rule bit_word_eqI) (auto simp: bit_simps)
  have "bit (push_bit n 1 :: u8) n"
    using n by (simp add: bit_simps)
  then have "(push_bit n 1 :: u8) \<noteq> 0"
    by (metis bit_0_eq bot_apply bot_bool_def)
  then show ?thesis
    unfolding eq by simp
qed

lemma bitmap_loop_segments:
  assumes "bitmap_loop data bitmap pfns payload found segs = Inr (found', segs')"
  shows "\<exists>new. segs' = segs @ new \<and>
    map seg_start new = map (\<lambda>p. unat p * 4096) (filter (page_present bitmap) pfns) \<and>
    (\<forall>s \<in> set new. segment_ok s \<and> length (seg_data s) = 4096)"
  using assms
proof (induction pfns arbitrary: payload found segs)
  case (Cons pfn pfns)
  have idx: "unat (pfn div 8) = unat pfn div 8" "unat (pfn mod 8) = unat pfn mod 8"
    by (simp_all add: unat_div_distrib unat_mod_distrib)
  from Cons.prems obtain byte where byte: "get_at bitmap (unat pfn div 8) = Some byte"
    by (auto simp: idx)
  have test: "byte AND push_bit (unat (pfn mod 8)) 1 = 0 \<longleftrightarrow> \<not> page_present bitmap pfn"
    using byte unfolding idx by (simp only: u8_bit_test) (auto simp: page_present_def get_at_def split: if_splits)
  show ?case
  proof (cases "page_present bitmap pfn")
    case False
    with Cons test byte show ?thesis
      by (auto simp: idx)
  next
    case True
    then obtain stop bytes gpa found1 where
      step: "usize_checked_add payload 4096 = Some stop" "get_range data payload stop = Some bytes"
        "checked_mul pfn 4096 = Some gpa"
      and rest: "bitmap_loop data bitmap pfns stop found1 (segs @ [segment_new (Gpa gpa) bytes]) = Inr (found', segs')"
      using Cons.prems test byte by (auto simp: idx)
    obtain new where "segs' = segs @ [segment_new (Gpa gpa) bytes] @ new"
      "map seg_start new = map (\<lambda>p. unat p * 4096) (filter (page_present bitmap) pfns)"
      "\<forall>s \<in> set new. segment_ok s \<and> length (seg_data s) = 4096"
      using Cons.IH [OF rest] by auto
    then show ?thesis
      using True segment_new_slice [OF step(1,2)] unat_checked_mul [OF step(3)]
      by (intro exI [of _ "segment_new (Gpa gpa) bytes # new"]) simp
  qed
qed simp

lemma bitmap_pages_disjoint:
  assumes "map seg_start segs = map (\<lambda>p. unat p * 4096) (filter P (map of_nat [0 ..< unat (pages :: u64)] :: u64 list))"
    "\<forall>s \<in> set segs. segment_ok s \<and> length (seg_data s) = 4096"
  shows "segments_disjoint segs"
proof -
  have "x < 18446744073709551616" if "x < unat pages" for x
    using that u64_unat_bound less_trans by blast
  then have "map unat (map of_nat [0 ..< unat pages] :: u64 list) = [0 ..< unat pages]"
    by (auto simp: unat_of_nat intro!: map_idI)
  then have "sorted_wrt (<) (map unat (map of_nat [0 ..< unat pages] :: u64 list))"
    by simp
  then have "sorted_wrt (\<lambda>p q. unat p < unat q) (filter P (map of_nat [0 ..< unat pages] :: u64 list))"
    by (intro sorted_wrt_filter) (simp only: sorted_wrt_map)
  then have "sorted_wrt (\<lambda>x y. x + 4096 \<le> y) (map seg_start segs)"
    unfolding assms(1) sorted_wrt_map by (rule sorted_wrt_mono_rel [rotated]) simp
  then have "sorted_wrt (\<lambda>a b. seg_start a + 4096 \<le> seg_start b) segs"
    by (simp add: sorted_wrt_map)
  then show ?thesis
    unfolding segments_disjoint_def using assms(2)
    by (elim sorted_wrt_mono_rel [rotated]) (simp add: seg_end_ok)
qed

lemma segments_disjoint_sorted: "segments_disjoint segs \<Longrightarrow> segments_sorted segs"
  unfolding segments_disjoint_def segments_sorted_def
  by (elim sorted_wrt_mono_rel [rotated]) (simp add: seg_end_eq)

lemma bitmap_kdmp_segments:
  assumes "from_bitmap_kdmp source data = Inr b"
  shows "bundle_ok b \<and> segments_disjoint (segments b) \<and> (\<forall>s \<in> set (segments b). page_segment s)"
proof -
  obtain bitmap pages first_page found segs where
    loop: "bitmap_loop data bitmap (map of_nat [0 ..< unat (pages :: u64)]) first_page 0 [] = Inr (found, segs)"
    and b: "b = bundle_of ''windows-kdmp-bitmap'' source segs"
    using assms by (auto simp: from_bitmap_kdmp_def split: if_splits)
  from bitmap_loop_segments [OF loop] have
    starts: "map seg_start segs = map (\<lambda>p. unat p * 4096) (filter (page_present bitmap) (map of_nat [0 ..< unat pages]))"
    and ok: "\<forall>s \<in> set segs. segment_ok s \<and> length (seg_data s) = 4096"
    by auto
  note disj = bitmap_pages_disjoint [OF starts ok]
  have "4096 dvd seg_start s" if "s \<in> set segs" for s
  proof -
    have "seg_start s \<in> set (map (\<lambda>p. unat p * 4096) (filter (page_present bitmap) (map of_nat [0 ..< unat pages])))"
      using that unfolding starts [symmetric] by simp
    then show ?thesis by auto
  qed
  moreover have "seg_data s \<noteq> []" if "s \<in> set segs" for s
    using ok that by force
  ultimately show ?thesis
    using disj segments_disjoint_sorted [OF disj] ok b
    by (simp add: bundle_of_def bundle_ok_def page_segment_def live_segment_def)
qed

lemma page_segment_live: "\<forall>s \<in> set segs. page_segment s \<Longrightarrow> \<forall>s \<in> set segs. live_segment s"
  by (simp add: page_segment_def)

lemma rdmp_kdmp_segments:
  assumes "from_rdmp_kdmp source data = Inr b"
  shows "bundle_ok b \<and> segments_disjoint (segments b) \<and> (\<forall>s \<in> set (segments b). page_segment s)"
proof -
  obtain n payload segs sorted_segs m where
    loop: "rdmp_loop data [0 ..< n] payload [] = Inr segs"
    and fin: "finish_segments m segs = Inr sorted_segs" and b: "b = bundle_of ''windows-kdmp-rdmp'' source sorted_segs"
    using assms by (auto simp: from_rdmp_kdmp_def split: if_splits)
  have "\<forall>s \<in> set segs. page_segment s"
    using rdmp_loop_segments [OF loop] by simp
  then show ?thesis
    using finish_segments_live [OF fin page_segment_live] b by (simp add: bundle_of_def)
qed

section \<open>Encoding LiME files\<close>

text \<open>The format as its writer defines it: a 32-byte header per range, then the range's bytes.\<close>

definition lime_record :: "u64 \<times> u8 list \<Rightarrow> u8 list" where
  "lime_record r =
     to_le_bytes (0x4c694d45 :: u32) @ to_le_bytes (1 :: u32) @ to_le_bytes (fst r) @
     to_le_bytes (fst r + of_nat (length (snd r)) - 1) @ replicate 8 0 @ snd r"

definition lime_range_ok :: "u64 \<times> u8 list \<Rightarrow> bool" where
  "lime_range_ok r \<longleftrightarrow> snd r \<noteq> [] \<and> unat (fst r) + length (snd r) \<le> 2 ^ 64"

definition lime_segment :: "u64 \<times> u8 list \<Rightarrow> snapshot_segment" where
  "lime_segment r = segment_new (Gpa (fst r)) (snd r)"

lemma length_lime_record: "length (lime_record r) = 32 + length (snd r)"
  by (simp add: lime_record_def)

lemma read_u32_at:
  assumes "data = xs @ to_le_bytes (v :: u32) @ zs" "length data < usize_bound" "n = length xs"
  shows "read_u32 data n = Inr v"
  using assms get_range_middle [of xs "to_le_bytes v" zs]
  by (simp add: read_u32_def read_array_def usize_checked_add_def from_to_le_bytes_u32)

lemma read_u64_at:
  assumes "data = xs @ to_le_bytes (v :: u64) @ zs" "length data < usize_bound" "n = length xs"
  shows "read_u64 data n = Inr v"
  using assms get_range_middle [of xs "to_le_bytes v" zs]
  by (simp add: read_u64_def read_array_def usize_checked_add_def from_to_le_bytes_u64)

lemma lime_length_field:
  assumes "lime_range_ok r" "length (snd r) < 2 ^ 63"
  shows "Option.bind (checked_sub (fst r + of_nat (length (snd r)) - 1) (fst r)) (\<lambda>v. checked_add v 1) =
    Some (of_nat (length (snd r)))"
proof -
  define n where "n = length (snd r)"
  have n: "0 < n" "n < 2 ^ 63" "unat (fst r) + n \<le> 2 ^ 64"
    using assms by (auto simp: lime_range_ok_def n_def)
  have d: "fst r + of_nat n - 1 = fst r + of_nat (n - 1)"
    using n(1) by (cases n) simp_all
  have u: "unat (of_nat (n - 1) :: u64) = n - 1"
    using n(2) by (simp add: unat_of_nat)
  have "unat (fst r + of_nat (n - 1)) = unat (fst r) + (n - 1)"
    using n u by (simp add: unat_word_ariths)
  then have "fst r \<le> fst r + of_nat (n - 1)"
    by (simp add: word_le_nat_alt)
  moreover have "checked_add (of_nat (n - 1) :: u64) 1 = Some (of_nat n)"
    using n u by (cases n) (simp_all add: checked_add_def)
  ultimately show ?thesis
    by (simp add: checked_sub_def d flip: n_def)
qed

lemma lime_record_end_record:
  assumes "data = pre @ lime_record r @ post" "length data < 2 ^ 63" "lime_range_ok r"
  shows "lime_record_end data (length pre) =
    Inr (fst r, length pre + 32, length pre + 32 + length (snd r))"
proof -
  have len: "length data = length pre + 32 + length (snd r) + length post"
    using assms(1) by (simp add: length_lime_record)
  have bound: "length data < usize_bound" "length pre + 32 + length (snd r) < usize_bound"
    using assms(2) len by (simp_all add: usize_bound_def)
  let ?m = "to_le_bytes (0x4c694d45 :: u32)" and ?v = "to_le_bytes (1 :: u32)"
  let ?s = "to_le_bytes (fst r)" and ?e = "to_le_bytes (fst r + of_nat (length (snd r)) - 1)"
  let ?rest = "replicate 8 0 @ snd r @ post"
  have data: "data = pre @ ?m @ ?v @ ?s @ ?e @ ?rest"
    using assms(1) by (simp add: lime_record_def)
  have magic: "read_u32 data (length pre) = Inr 0x4c694d45"
    using bound by (intro read_u32_at [of _ pre _ "?v @ ?s @ ?e @ ?rest"]) (simp_all add: data)
  have version: "read_u32 data (length pre + 4) = Inr 1"
    using bound by (intro read_u32_at [of _ "pre @ ?m" _ "?s @ ?e @ ?rest"]) (simp_all add: data)
  have start: "read_u64 data (length pre + 8) = Inr (fst r)"
    using bound by (intro read_u64_at [of _ "pre @ ?m @ ?v" _ "?e @ ?rest"]) (simp_all add: data)
  have stop: "read_u64 data (length pre + 16) = Inr (fst r + of_nat (length (snd r)) - 1)"
    using bound by (intro read_u64_at [of _ "pre @ ?m @ ?v @ ?s" _ "?rest"]) (simp_all add: data)
  have n: "length (snd r) < 2 ^ 63" "unat (of_nat (length (snd r)) :: u64) = length (snd r)"
    using assms(2) len by (simp_all add: unat_of_nat)
  have offsets: "add_offset (length pre) k = Inr (length pre + k)" if "k \<le> 32" for k
    using that bound by (simp add: add_offset_def usize_checked_add_def)
  show ?thesis
    using bound len n(2)
    by (simp add: lime_record_end_def usize_checked_add_def magic version start stop offsets
        lime_length_field [OF assms(3) n(1)])
qed

lemma lime_loop_records:
  assumes "\<forall>r \<in> set rs. lime_range_ok r" "length (pre @ concat (map lime_record rs)) < 2 ^ 63"
    "32 * (length segs + length rs) < 2 ^ 63"
  shows "lime_loop (pre @ concat (map lime_record rs)) (length pre) segs = Inr (segs @ map lime_segment rs)"
  using assms
proof (induction rs arbitrary: pre segs)
  case Nil
  then show ?case by (simp add: lime_loop.simps)
next
  case (Cons r rs)
  let ?data = "pre @ lime_record r @ concat (map lime_record rs)"
  have rec: "lime_record_end ?data (length pre) = Inr (fst r, length pre + 32, length pre + 32 + length (snd r))"
    using Cons.prems by (intro lime_record_end_record [OF refl]) simp_all
  have hdr: "?data = (pre @ take 32 (lime_record r)) @ snd r @ concat (map lime_record rs)"
    "length (pre @ take 32 (lime_record r)) = length pre + 32"
    by (simp_all add: lime_record_def)
  then have bytes: "get_range ?data (length pre + 32) (length pre + 32 + length (snd r)) = Some (snd r)"
    using get_range_middle [of "pre @ take 32 (lime_record r)" "snd r" "concat (map lime_record rs)"] by metis
  have res: "reserve_segment segs fmt = Inr ()" for fmt
    using Cons.prems(3) by (simp add: reserve_segment_def reservable_def isize_max_def)
  have "lime_loop ?data (length pre) segs =
      lime_loop ?data (length pre + 32 + length (snd r)) (segs @ [lime_segment r])"
    using rec bytes res by (simp add: lime_loop.simps [of ?data "length pre"] lime_segment_def length_lime_record)
  also have "\<dots> = Inr (segs @ map lime_segment (r # rs))"
    using Cons.IH [of "pre @ lime_record r" "segs @ [lime_segment r]"] Cons.prems
    by (simp add: length_lime_record add.assoc)
  finally show ?case by simp
qed

lemma sort_segments_id: "segments_sorted segs \<Longrightarrow> sort_segments segs = segs"
  unfolding sort_segments_def
  by (rule sort_key_id_if_sorted) (simp add: segments_sorted_def seg_start_def sorted_wrt_map word_le_nat_alt)

section \<open>Properties\<close>

lemma kdmp_segments:
  assumes "from_kdmp source data = Inr b"
  shows "bundle_ok b \<and> segments_disjoint (segments b) \<and> (\<forall>s \<in> set (segments b). page_segment s)"
proof -
  consider "from_bitmap_kdmp source data = Inr b" | "from_rdmp_kdmp source data = Inr b"
    | n declared segs sorted_segs m where "kdmp_loop data [0 ..< n] 0x2000 0 [] = Inr (declared, segs)"
      "finish_segments m segs = Inr sorted_segs" "b = bundle_of ''windows-kdmp'' source sorted_segs"
    using assms unfolding from_kdmp_def by (auto simp: Let_def split: if_splits)
  then show ?thesis
  proof cases
    case 1
    then show ?thesis by (rule bitmap_kdmp_segments)
  next
    case 2
    then show ?thesis by (rule rdmp_kdmp_segments)
  next
    case 3
    have "\<forall>s \<in> set segs. page_segment s"
      using kdmp_loop_segments [OF 3(1)] by simp
    then show ?thesis
      using finish_segments_live [OF 3(2) page_segment_live] 3(3) by (simp add: bundle_of_def)
  qed
qed

text \<open>
  C9: every accepted Windows crash dump, whichever of the three layouts it has, becomes a
  well-formed bundle: segments ascending and pairwise disjoint, each non-empty, page aligned and a
  whole number of pages long.
\<close>

theorem from_kdmp_well_formed:
  assumes "from_kdmp source data = Inr b"
  shows "bundle_ok b \<and> segments_disjoint (segments b) \<and> (\<forall>s \<in> set (segments b). page_segment s)"
  using assms by (rule kdmp_segments)

text \<open>A dump in the bitmap layout with one present page.\<close>

definition kdmp_fixture :: "u8 list" where
  "kdmp_fixture = bytes_of ''PAGEDU64'' @ replicate 8184 0 @ bytes_of ''SDMPDUMP'' @ replicate 24 0 @
     to_le_bytes (0x2039 :: u64) @ to_le_bytes (1 :: u64) @ to_le_bytes (1 :: u64) @ [1] @ replicate 4096 7"

lemma kdmp_fixture_fields:
  "is_page_du64 kdmp_fixture" "get_range kdmp_fixture 0x2000 0x2004 = Some (bytes_of ''SDMP'')"
  "get_range kdmp_fixture 0x2004 0x2008 = Some (bytes_of ''DUMP'')"
  "read_u64 kdmp_fixture 0x2020 = Inr 0x2039" "read_u64 kdmp_fixture 0x2028 = Inr 1"
  "read_u64 kdmp_fixture 0x2030 = Inr 1" "get_range kdmp_fixture 0x2038 0x2039 = Some [1]"
  "get_range kdmp_fixture 0x2039 0x3039 = Some (replicate 4096 7)"
  by (simp_all add: is_page_du64_def kdmp_fixture_def bytes_of_def starts_with_def read_u64_def
      read_array_def get_range_def usize_checked_add_def usize_bound_def from_to_le_bytes_u64)

theorem from_kdmp_well_formed_witness:
  "\<exists>b. from_kdmp ''memory.dmp'' kdmp_fixture = Inr b \<and> bundle_ok b \<and> segments_disjoint (segments b) \<and>
    (\<forall>s \<in> set (segments b). page_segment s)"
proof -
  have "\<exists>b. from_kdmp ''memory.dmp'' kdmp_fixture = Inr b"
    by (simp add: from_kdmp_def from_bitmap_kdmp_def kdmp_fixture_fields u64_div_ceil_def usize_checked_add_def
        usize_bound_def upt_rec get_at_def reserve_segment_def reservable_def isize_max_def checked_mul_def
        checked_add_def)
  with from_kdmp_well_formed show ?thesis by blast
qed

text \<open>
  C10: the LiME parser accepts exactly what it is given back: any ascending sequence of disjoint,
  non-empty ranges, written with LiME headers, parses to those ranges with their bytes.
\<close>

theorem from_lime_round_trip:
  assumes "rs \<noteq> []" "\<forall>r \<in> set rs. lime_range_ok r" "segments_disjoint (map lime_segment rs)"
    "length (concat (map lime_record rs)) < 2 ^ 63"
  shows "from_lime source (concat (map lime_record rs)) = Inr (bundle_of ''lime'' source (map lime_segment rs))"
proof -
  have "32 * length xs \<le> length (concat (map lime_record xs))" for xs
    by (induction xs) (simp_all add: length_lime_record)
  then have "32 * length rs < 2 ^ 63"
    using assms(4) le_less_trans by blast
  then have "lime_loop (concat (map lime_record rs)) 0 [] = Inr (map lime_segment rs)"
    using lime_loop_records [of rs "[]" "[]"] assms(2,4) by simp
  moreover have "length (snd r) < 2 ^ 64" if "r \<in> set rs" for r
  proof -
    have "length (lime_record r) \<le> length (concat (map lime_record rs))"
      using that by (simp add: length_concat member_le_sum_list)
    then show ?thesis
      using assms(4) by (simp add: length_lime_record)
  qed
  then have "\<forall>s \<in> set (map lime_segment rs). seg_start s < seg_end s"
    using assms(2) by (auto simp: lime_segment_def lime_range_ok_def seg_end_ok segment_new_ok)
  then have "\<not> adjacent_overlap (map lime_segment rs)"
    using adjacent_overlap_disjoint segments_disjoint_sorted assms(3) by blast
  ultimately show ?thesis
    using assms(1,3) segments_disjoint_sorted
    by (simp add: from_lime_def finish_segments_def sort_segments_id Let_def)
qed

theorem from_lime_round_trip_witness:
  "from_lime ''x'' (concat (map lime_record [(0x1000, [1, 2, 3]), (0x2000, [4])])) =
    Inr (bundle_of ''lime'' ''x'' [segment_new (Gpa 0x1000) [1, 2, 3], segment_new (Gpa 0x2000) [4]])"
proof -
  let ?rs = "[(0x1000, [1, 2, 3]), (0x2000, [4])] :: (u64 \<times> u8 list) list"
  have "\<forall>r \<in> set ?rs. lime_range_ok r"
    by (simp add: lime_range_ok_def)
  moreover have "segments_disjoint (map lime_segment ?rs)"
    by (simp add: segments_disjoint_def lime_segment_def seg_end_ok segment_new_ok)
  moreover have "length (concat (map lime_record ?rs)) < 2 ^ 63"
    by (simp add: length_lime_record)
  ultimately show ?thesis
    using from_lime_round_trip [of ?rs "''x''"] by (simp add: lime_segment_def)
qed

text \<open>
  Every accepted LiME file becomes a well-formed bundle of non-empty, ascending, pairwise
  disjoint segments, and is not empty itself.
\<close>

lemma from_lime_well_formed:
  assumes "from_lime source data = Inr b"
  shows "bundle_ok b \<and> segments_disjoint (segments b) \<and> segments b \<noteq> [] \<and>
    (\<forall>s \<in> set (segments b). live_segment s)"
proof -
  obtain segs sorted_segs where loop: "lime_loop data 0 [] = Inr segs" "segs \<noteq> []"
    and fin: "finish_segments ''LiME physical ranges overlap'' segs = Inr sorted_segs"
    and b: "b = bundle_of ''lime'' source sorted_segs"
    using assms by (auto simp: from_lime_def split: if_splits)
  have live: "\<forall>s \<in> set segs. live_segment s"
    using lime_loop_segments [OF loop(1)] by simp
  then show ?thesis
    using finish_segments_live [OF fin live] b loop(2) by (auto simp: bundle_of_def)
qed

lemma elf_segments:
  assumes "from_elf_with_limits source data fmt max_memory = Inr b"
  shows "bundle_ok b \<and> segments b \<noteq> [] \<and> total_bytes (segments b) \<le> unat max_memory \<and>
    ((\<forall>s \<in> set (segments b). live_segment s) \<longrightarrow> segments_disjoint (segments b))"
proof -
  obtain po es idx segs out where loop: "elf_loop data fmt max_memory po es idx 0 [] = Inr segs" "segs \<noteq> []"
    and fin: "finish_segments ''ELF PT_LOAD physical ranges overlap'' segs = Inr out"
    and b: "b = bundle_of fmt source out"
    using assms by (auto simp: from_elf_with_limits_def Let_def split: if_splits)
  have out: "out = sort_segments segs"
    using fin by (auto simp: finish_segments_def Let_def split: if_splits)
  have total: "total_bytes out = total_bytes segs"
    by (simp add: out total_bytes_sort)
  note ok = elf_loop_segments [OF loop(1), simplified]
  have "bundle_ok b" "segments b = out"
    using ok out b sort_segments_sorted by (simp_all add: bundle_ok_def bundle_of_def)
  moreover have "\<forall>s \<in> set out. live_segment s \<Longrightarrow> segments_disjoint out"
    using finish_segments_live [OF fin] out by simp
  ultimately show ?thesis
    using total ok out loop(2) by simp
qed

text \<open>
  C11: an accepted ELF core becomes a well-formed bundle whose decoded memory respects the limit,
  and if none of its load segments is empty, the segments are pairwise disjoint.
\<close>

theorem from_elf_well_formed:
  assumes "from_elf_with_limits source data fmt max_memory = Inr b"
  shows "bundle_ok b \<and> segments b \<noteq> [] \<and> total_bytes (segments b) \<le> unat max_memory \<and>
    ((\<forall>s \<in> set (segments b). live_segment s) \<longrightarrow> segments_disjoint (segments b))"
  using assms by (rule elf_segments)

text \<open>A one-segment core: header, one program header, one byte of file data, two bytes of memory.\<close>

definition elf_fixture :: "u8 list" where
  "elf_fixture = (0x7f # bytes_of ''ELF'') @ [2, 1] @ replicate 26 0 @ to_le_bytes (64 :: u64) @ replicate 14 0 @
     [56, 0] @ [1, 0] @ replicate 6 0 @ [1, 0, 0, 0] @ replicate 4 0 @ to_le_bytes (120 :: u64) @ replicate 8 0 @
     to_le_bytes (0x1000 :: u64) @ to_le_bytes (1 :: u64) @ to_le_bytes (2 :: u64) @ replicate 8 0 @ [0xaa]"

lemma elf_fixture_fields:
  "elf_header_ok elf_fixture" "read_u64 elf_fixture 32 = Inr 64" "read_u16 elf_fixture 54 = Inr 56"
  "read_u16 elf_fixture 56 = Inr 1" "read_u32 elf_fixture 64 = Inr 1" "read_u64 elf_fixture 72 = Inr 120"
  "read_u64 elf_fixture 88 = Inr 0x1000" "read_u64 elf_fixture 96 = Inr 1" "read_u64 elf_fixture 104 = Inr 2"
  "get_range elf_fixture 120 121 = Some [0xaa]"
  by (simp_all add: elf_header_ok_def elf_fixture_def bytes_of_def starts_with_def get_at_def read_u64_def
      read_u32_def read_u16_def read_array_def get_range_def usize_checked_add_def usize_bound_def
      from_to_le_bytes_u64 from_le_bytes_def [of "[_, _]"] from_le_bytes_def [of "[_, _, _, _]"])

theorem from_elf_well_formed_witness:
  "\<exists>b. from_elf_with_limits ''core'' elf_fixture ''elf-vmcore'' 4096 = Inr b \<and> bundle_ok b \<and>
    total_bytes (segments b) \<le> unat (4096 :: u64)"
proof -
  have "\<exists>b. from_elf_with_limits ''core'' elf_fixture ''elf-vmcore'' 4096 = Inr b"
    by (simp add: from_elf_with_limits_def elf_fixture_fields elf_entry_offset_def checked_mul_def checked_add_def
        add_offset_def usize_checked_add_def usize_bound_def elf_segment_bytes_def reservable_def isize_max_def
        reserve_segment_def finish_segments_def sort_segments_def upt_rec
        get_range_def [of "replicate _ _"])
  with from_elf_well_formed show ?thesis by blast
qed

end
