(* ===== verification/Std_Io.thy ===== *)
theory Std_Io
  imports Vmi_Types
begin

text \<open>
  What the workspace uses of \<open>std::io\<close>, \<open>std::fs\<close>, \<open>std::path\<close> and the number and UTF-8 parsers of
  \<open>core\<close>. A reader is the finite script of the outcomes of its reads: a chunk of data, an
  interruption or an error; an empty chunk, and the end of the script, is the end of the stream. The file
  system is a record of what opening, inspecting and resolving a path gives.
\<close>

section \<open>Readers\<close>

datatype read_outcome = Chunk "u8 list" | Interrupted | Broken string

type_synonym reader = "read_outcome list"

datatype io_error = IoInterrupted | IoError string

text \<open>\<open>read\<close> with a buffer of \<open>n\<close> bytes; what did not fit stays for the next call.\<close>

fun reader_read :: "reader \<Rightarrow> usize \<Rightarrow> reader \<times> (io_error + u8 list)" where
  "reader_read [] n = ([], Inr [])"
| "reader_read (Chunk bs # rs) n =
     (if length bs \<le> n then (rs, Inr bs) else (Chunk (drop n bs) # rs, Inr (take n bs)))"
| "reader_read (Interrupted # rs) n = (rs, Inl IoInterrupted)"
| "reader_read (Broken text # rs) n = (rs, Inl (IoError text))"

fun reader_size :: "reader \<Rightarrow> nat" where
  "reader_size [] = 0"
| "reader_size (Chunk bs # rs) = Suc (length bs + reader_size rs)"
| "reader_size (r # rs) = Suc (reader_size rs)"

text \<open>All that a reader delivers up to the end of its stream, or the error that it meets before.\<close>

fun stream_content :: "reader \<Rightarrow> string + u8 list" where
  "stream_content [] = Inr []"
| "stream_content (Chunk bs # rs) =
     (if bs = [] then Inr [] else and_then (stream_content rs) (\<lambda>rest. Inr (bs @ rest)))"
| "stream_content (Interrupted # rs) = stream_content rs"
| "stream_content (Broken text # rs) = Inl text"

lemma reader_read_size:
  "reader_read r n = (r', Inr bs) \<Longrightarrow> 0 < n \<Longrightarrow> bs \<noteq> [] \<Longrightarrow> reader_size r' < reader_size r"
  "reader_read r n = (r', Inl e) \<Longrightarrow> reader_size r' < reader_size r"
  by (cases "(r, n)" rule: reader_read.cases; auto split: if_splits)+

text \<open>\<open>Read::read_exact\<close>: retries interrupted reads, fails at the end of the stream.\<close>

function read_exact :: "reader \<Rightarrow> usize \<Rightarrow> string + u8 list" where
  "read_exact r n =
     (if n = 0 then Inr []
      else
        (case reader_read r n of
           (r', Inr bs) \<Rightarrow>
             if bs = [] then Inl ''failed to fill whole buffer''
             else and_then (read_exact r' (n - length bs)) (\<lambda>rest. Inr (bs @ rest))
         | (r', Inl IoInterrupted) \<Rightarrow> read_exact r' n
         | (r', Inl (IoError text)) \<Rightarrow> Inl text))"
  by pat_completeness auto

termination
  by (relation "measure (\<lambda>(r, n). reader_size r)") (auto dest!: reader_read_size sym [of "(_, _)"])

declare read_exact.simps [simp del]

lemma reader_read_content:
  assumes "reader_read r n = (r', Inr bs)" "0 < n"
  shows "length bs \<le> n"
    "stream_content r =
      (if bs = [] then Inr [] else and_then (stream_content r') (\<lambda>rest. Inr (bs @ rest)))"
  using assms
  by (cases "(r, n)" rule: reader_read.cases; auto simp: and_then_def split: if_splits sum.splits;
      metis append_assoc append_take_drop_id)+

lemma reader_read_error:
  "reader_read r n = (r', Inl IoInterrupted) \<Longrightarrow> stream_content r = stream_content r'"
  "reader_read r n = (r', Inl (IoError text)) \<Longrightarrow> stream_content r = Inl text"
  by (cases "(r, n)" rule: reader_read.cases; auto split: if_splits)+

text \<open>A successful \<open>read_exact\<close> returns the first bytes of the stream.\<close>

lemma read_exact_content:
  "stream_content r = Inr content \<Longrightarrow>
     read_exact r n = (if n \<le> length content then Inr (take n content) else Inl ''failed to fill whole buffer'')"
proof (induction r n arbitrary: content rule: read_exact.induct)
  case (1 r n)
  show ?case
  proof (cases "n = 0")
    case False
    obtain r' res where rd: "reader_read r n = (r', res)" by fastforce
    show ?thesis
    proof (cases res)
      case (Inr bs)
      note rc = reader_read_content [OF rd [unfolded Inr]]
      show ?thesis
      proof (cases "bs = []")
        case True
        then show ?thesis
          using False rc 1(3) rd Inr by (simp add: read_exact.simps [of r])
      next
        case ne: False
        then obtain rest where rest: "stream_content r' = Inr rest" "content = bs @ rest"
          using rc(2) 1(3) False by (cases "stream_content r'") auto
        have "read_exact r' (n - length bs) =
            (if n - length bs \<le> length rest then Inr (take (n - length bs) rest)
             else Inl ''failed to fill whole buffer'')"
          using 1(2) [OF False rd [symmetric] Inr ne rest(1)] .
        then show ?thesis
          using False rc(1) ne rd Inr rest(2) by (auto simp: read_exact.simps [of r])
      qed
    next
      case (Inl e)
      show ?thesis
      proof (cases e)
        case IoInterrupted
        then show ?thesis
          using 1(1) [OF False rd [symmetric] Inl IoInterrupted] reader_read_error(1) 1(3) rd Inl False
          by (simp add: read_exact.simps [of r])
      next
        case (IoError msg)
        then show ?thesis
          using reader_read_error(2) rd Inl 1(3) by auto
      qed
    qed
  qed (simp add: read_exact.simps)
qed

section \<open>The file system\<close>

record file_handle =
  file_len :: "string + u64"
  file_seek :: "u64 \<Rightarrow> string + unit"
  file_at :: "u64 \<Rightarrow> reader"

record file_system =
  fs_open :: "string \<Rightarrow> string + file_handle"
  fs_canonicalize :: "string \<Rightarrow> string + string"

section \<open>Paths\<close>

text \<open>The components of a path: the root, and the names between separators, without \<open>.\<close> except at
  the start of a relative path.\<close>

fun split_sep :: "string \<Rightarrow> string \<Rightarrow> string list" where
  "split_sep acc [] = [rev acc]"
| "split_sep acc (c # cs) = (if c = CHR ''/'' then rev acc # split_sep [] cs else split_sep (c # acc) cs)"

definition is_absolute :: "string \<Rightarrow> bool" where
  "is_absolute p = starts_with p ''/''"

definition path_components :: "string \<Rightarrow> string list" where
  "path_components p =
     (let names = split_sep [] p in
      (if is_absolute p then [''/''] else if hd names = ''.'' then [''.''] else []) @
      filter (\<lambda>n. n \<noteq> '''' \<and> n \<noteq> ''.'') names)"

fun join_sep :: "string list \<Rightarrow> string" where
  "join_sep [] = ''''"
| "join_sep [n] = n"
| "join_sep (n # ns) = (if n = ''/'' then n @ join_sep ns else n @ ''/'' @ join_sep ns)"

definition path_parent :: "string \<Rightarrow> string option" where
  "path_parent p =
     (let names = path_components p in
      if names = [] \<or> names = [''/''] then None else Some (join_sep (butlast names)))"

definition path_starts_with :: "string \<Rightarrow> string \<Rightarrow> bool" where
  "path_starts_with p base = starts_with (path_components p) (path_components base)"

definition path_join :: "string \<Rightarrow> string \<Rightarrow> string" where
  "path_join base p =
     (if is_absolute p then p
      else if base = '''' \<or> last base = CHR ''/'' then base @ p else base @ ''/'' @ p)"

section \<open>Numbers\<close>

definition to_digit :: "nat \<Rightarrow> char \<Rightarrow> nat option" where
  "to_digit radix c =
     (let n = of_char c :: nat;
          d = (if 48 \<le> n \<and> n \<le> 57 then n - 48
               else if 97 \<le> n \<and> n \<le> 122 then n - 87
               else if 65 \<le> n \<and> n \<le> 90 then n - 55 else radix) in
      if d < radix then Some d else None)"

fun radix_loop :: "nat \<Rightarrow> u64 \<Rightarrow> string \<Rightarrow> string + u64" where
  "radix_loop radix acc [] = Inr acc"
| "radix_loop radix acc (c # cs) =
     and_then (ok_or (to_digit radix c) ''invalid digit found in string'') (\<lambda>d.
     and_then (ok_or (checked_mul acc (of_nat radix)) ''number too large to fit in target type'') (\<lambda>acc1.
     and_then (ok_or (checked_add acc1 (of_nat d)) ''number too large to fit in target type'') (\<lambda>acc2.
       radix_loop radix acc2 cs)))"

definition from_str_radix :: "nat \<Rightarrow> string \<Rightarrow> string + u64" where
  "from_str_radix radix s =
     (if s = [] then Inl ''cannot parse integer from empty string''
      else if s = ''+'' then Inl ''invalid digit found in string''
      else if hd s = CHR ''+'' then radix_loop radix 0 (tl s)
      else radix_loop radix 0 s)"

section \<open>UTF-8\<close>

text \<open>\<open>core::str::from_utf8\<close> on the bytes from index \<open>i\<close>: the index of the first invalid sequence and
  its length, \<open>None\<close> when the input ends inside it. Strings are their UTF-8 bytes.\<close>

definition utf8_cont :: "u8 \<Rightarrow> bool" where
  "utf8_cont b \<longleftrightarrow> 0x80 \<le> b \<and> b \<le> 0xBF"

definition utf8_second :: "u8 \<Rightarrow> u8 \<Rightarrow> bool" where
  "utf8_second b c \<longleftrightarrow>
     (if b = 0xE0 then 0xA0 \<le> c \<and> c \<le> 0xBF
      else if b = 0xED then 0x80 \<le> c \<and> c \<le> 0x9F
      else if b = 0xF0 then 0x90 \<le> c \<and> c \<le> 0xBF
      else if b = 0xF4 then 0x80 \<le> c \<and> c \<le> 0x8F
      else utf8_cont c)"

definition utf8_width :: "u8 \<Rightarrow> nat" where
  "utf8_width b =
     (if b < 0x80 then 1 else if 0xC2 \<le> b \<and> b \<le> 0xDF then 2
      else if 0xE0 \<le> b \<and> b \<le> 0xEF then 3 else if 0xF0 \<le> b \<and> b \<le> 0xF4 then 4 else 0)"

text \<open>The continuation bytes of one sequence: how many are well-formed, or the error.\<close>

fun utf8_tail :: "u8 \<Rightarrow> nat \<Rightarrow> nat \<Rightarrow> u8 list \<Rightarrow> nat option option" where
  "utf8_tail b k 0 bs = None"
| "utf8_tail b k (Suc m) [] = Some None"
| "utf8_tail b k (Suc m) (c # bs) =
     (if (if k = 1 then utf8_second b c else utf8_cont c) then utf8_tail b (Suc k) m bs else Some (Some k))"

function utf8_check :: "nat \<Rightarrow> u8 list \<Rightarrow> (nat \<times> nat option) option" where
  "utf8_check i [] = None"
| "utf8_check i (b # bs) =
     (if utf8_width b = 0 then Some (i, Some 1)
      else
        (case utf8_tail b 1 (utf8_width b - 1) bs of
           Some e \<Rightarrow> Some (i, e)
         | None \<Rightarrow> utf8_check (i + utf8_width b) (drop (utf8_width b - 1) bs)))"
  by pat_completeness auto
termination by (relation "measure (length \<circ> snd)") auto

definition fmt_utf8_error :: "nat \<times> nat option \<Rightarrow> string" where
  "fmt_utf8_error e =
     (case e of
        (i, Some n) \<Rightarrow> ''invalid utf-8 sequence of '' @ dec n @ '' bytes from index '' @ dec i
      | (i, None) \<Rightarrow> ''incomplete utf-8 byte sequence from index '' @ dec i)"

definition string_of :: "u8 list \<Rightarrow> string" where
  "string_of bs = map (\<lambda>b. char_of (unat b)) bs"

definition from_utf8 :: "u8 list \<Rightarrow> string + string" where
  "from_utf8 bs = (case utf8_check 0 bs of None \<Rightarrow> Inr (string_of bs) | Some e \<Rightarrow> Inl (fmt_utf8_error e))"

end
