(* ===== verification/Artifact_Io.thy ===== *)
theory Artifact_Io
  imports Artifact_Parse Std_Io
begin

text \<open>
  The crate \<open>vmi-artifact\<close>, third part: reading artifacts from files. Bounded capture of a
  stream, compressed crash dumps and JSON manifests. The decompressors and the JSON parser are parameters
  (\<open>decoders\<close>, \<open>json_ops\<close>); a decompressor gives the reader of its output.
\<close>

section \<open>Bounded reads (lib.rs)\<close>

function read_retry :: "reader \<Rightarrow> usize \<Rightarrow> reader \<times> (string + u8 list)" where
  "read_retry r n =
     (case reader_read r n of
        (r', Inl IoInterrupted) \<Rightarrow> read_retry r' n
      | (r', Inl (IoError text)) \<Rightarrow> (r', Inl text)
      | (r', Inr bs) \<Rightarrow> (r', Inr bs))"
  by pat_completeness auto
termination
  by (relation "measure (reader_size \<circ> fst)") (auto dest!: reader_read_size(2) sym [of "(_, _)"])

declare read_retry.simps [simp del]

text \<open>Retrying hides the interruptions: what remains is a plain read of a later state of the reader.\<close>

lemma read_retry_reads:
  "\<exists>r1. stream_content r1 = stream_content r \<and> reader_size r1 \<le> reader_size r \<and>
     reader_read r1 n = (fst (read_retry r n), map_err IoError (snd (read_retry r n)))"
proof (induction r n rule: read_retry.induct)
  case (1 r n)
  obtain r' res where rd: "reader_read r n = (r', res)" by fastforce
  show ?case
  proof (cases "res = Inl IoInterrupted")
    case True
    have "read_retry r n = read_retry r' n" "stream_content r' = stream_content r" "reader_size r' < reader_size r"
      using rd True reader_read_error(1) reader_read_size(2) by (simp_all add: read_retry.simps [of r])
    with 1 [OF rd [symmetric] True] show ?thesis by auto
  next
    case False
    then show ?thesis
      using rd by (intro exI [of _ r])
        (auto simp: read_retry.simps [of r] map_err_def split: sum.split io_error.split)
  qed
qed

lemma read_retry_bytes:
  assumes "read_retry r n = (r', Inr bs)" "0 < n"
  shows "length bs \<le> n"
    "stream_content r =
      (if bs = [] then Inr [] else and_then (stream_content r') (\<lambda>rest. Inr (bs @ rest)))"
    "bs \<noteq> [] \<Longrightarrow> reader_size r' < reader_size r"
proof -
  from read_retry_reads [of r n] assms(1) obtain r1 where r1: "stream_content r1 = stream_content r"
    "reader_size r1 \<le> reader_size r" "reader_read r1 n = (r', Inr bs)"
    by (auto simp: map_err_def)
  from reader_read_content [OF this(3) assms(2)] reader_read_size(1) [OF this(3) assms(2)] r1(1,2)
  show "length bs \<le> n" "bs \<noteq> [] \<Longrightarrow> reader_size r' < reader_size r" "stream_content r =
      (if bs = [] then Inr [] else and_then (stream_content r') (\<lambda>rest. Inr (bs @ rest)))"
    by simp_all
qed

lemma read_retry_error: "read_retry r n = (r', Inl text) \<Longrightarrow> stream_content r = Inl text"
  using read_retry_reads [of r n] reader_read_error(2) by (auto simp: map_err_def)

text \<open>
  The capture loop that \<open>read_file_limited\<close> and \<open>decode_compressed_kdmp\<close> share, over the texts of
  their errors.
\<close>

record capture_texts =
  failed_to_read :: "string \<Rightarrow> string"
  size_not_u64 :: string
  chunk_not_u64 :: string
  chunk_not_usize :: string
  chunk_too_small :: string
  failed_to_grow :: "string \<Rightarrow> string"
  read_exceeded :: string
  beyond_limit :: string

definition saturating_add :: "u64 \<Rightarrow> u64 \<Rightarrow> u64" where
  "saturating_add a b = (case checked_add a b of Some c \<Rightarrow> c | None \<Rightarrow> - 1)"

definition saturating_sub :: "u64 \<Rightarrow> u64 \<Rightarrow> u64" where
  "saturating_sub a b = (case checked_sub a b of Some c \<Rightarrow> c | None \<Rightarrow> 0)"

text \<open>One pass of the loop: the bytes of the next chunk, none when the stream has ended.\<close>

definition capture_chunk ::
  "capture_texts \<Rightarrow> u64 \<Rightarrow> u8 list \<Rightarrow> reader \<Rightarrow> (reader \<times> u8 list) result" where
  "capture_chunk t maximum data r =
     and_then (ok_or (u64_of_usize (length data)) (Backend (size_not_u64 t))) (\<lambda>captured.
     let remaining = saturating_sub (saturating_add maximum 1) captured in
     if remaining = 0 then
       (case read_retry r 1 of
          (r', Inl text) \<Rightarrow> Inl (Backend (failed_to_read t text))
        | (r', Inr bs) \<Rightarrow> if length bs \<noteq> 0 then Inl (Backend (beyond_limit t)) else Inr (r', []))
     else
     and_then (ok_or (u64_of_usize 65536) (Backend (chunk_not_u64 t))) (\<lambda>chunk_capacity.
     and_then (ok_or (usize_of_u64 (min remaining chunk_capacity)) (Backend (chunk_not_usize t))) (\<lambda>requested.
     if requested > 65536 then Inl (Backend (chunk_too_small t))
     else
       (case read_retry r requested of
          (r', Inl text) \<Rightarrow> Inl (Backend (failed_to_read t text))
        | (r', Inr bs) \<Rightarrow>
            if length bs = 0 then Inr (r', [])
            else if \<not> reservable (length data + length bs) then
              Inl (Backend (failed_to_grow t capacity_overflow))
            else if length bs > 65536 then Inl (Backend (read_exceeded t))
            else if (case u64_of_usize (length data + length bs) of None \<Rightarrow> True | Some captured' \<Rightarrow> captured' > maximum)
            then Inl (Backend (beyond_limit t))
            else Inr (r', bs)))))"

lemma capture_chunk_cases:
  assumes "length data < 2 ^ 64"
  obtains (sentinel) "saturating_sub (saturating_add maximum 1) (of_nat (length data)) = 0"
      "capture_chunk t maximum data r =
        (case read_retry r 1 of
           (r', Inl text) \<Rightarrow> Inl (Backend (failed_to_read t text))
         | (r', Inr bs) \<Rightarrow> if bs \<noteq> [] then Inl (Backend (beyond_limit t)) else Inr (r', []))"
  | (chunk) n where "0 < n" "n \<le> 65536"
      "capture_chunk t maximum data r =
        (case read_retry r n of
           (r', Inl text) \<Rightarrow> Inl (Backend (failed_to_read t text))
         | (r', Inr bs) \<Rightarrow>
             if bs = [] then Inr (r', [])
             else if \<not> reservable (length data + length bs) then
               Inl (Backend (failed_to_grow t capacity_overflow))
             else if length data + length bs > unat maximum then Inl (Backend (beyond_limit t))
             else Inr (r', bs))"
proof -
  let ?m = "saturating_sub (saturating_add maximum 1) (of_nat (length data))"
  show thesis
  proof (cases "?m = 0")
    case True
    then show ?thesis
      using sentinel assms by (simp add: capture_chunk_def Let_def u64_of_usize_def)
  next
    case False
    define n where "n = unat (min ?m 65536)"
    have n: "0 < n" "n \<le> 65536"
      using False by (auto simp: n_def min_def unat_gt_0 word_le_nat_alt)
    have big: "(case u64_of_usize k of None \<Rightarrow> True | Some c \<Rightarrow> c > maximum) \<longleftrightarrow> k > unat maximum" for k
    proof (cases "k < 2 ^ 64")
      case True
      then have "unat (of_nat k :: u64) = k"
        by (simp add: unat_of_nat take_bit_nat_eq_self)
      with True show ?thesis
        by (simp add: u64_of_usize_def word_less_nat_alt)
    next
      case False
      then have "18446744073709551616 \<le> k" by simp
      with u64_unat_bound [of maximum] have "unat maximum < k" by linarith
      with False show ?thesis by (simp add: u64_of_usize_def)
    qed
    have "capture_chunk t maximum data r =
        (case read_retry r n of
           (r', Inl text) \<Rightarrow> Inl (Backend (failed_to_read t text))
         | (r', Inr bs) \<Rightarrow>
             if bs = [] then Inr (r', [])
             else if \<not> reservable (length data + length bs) then
               Inl (Backend (failed_to_grow t capacity_overflow))
             else if length bs > 65536 then Inl (Backend (read_exceeded t))
             else if length data + length bs > unat maximum then Inl (Backend (beyond_limit t))
             else Inr (r', bs))"
      using assms False n
      by (simp add: capture_chunk_def Let_def usize_of_u64_def u64_of_usize_def [of "length data"]
          u64_of_usize_def [of 65536] n_def [symmetric])
        (simp add: big split: prod.split sum.split)
    moreover have "\<not> length bs > 65536" if "read_retry r n = (r', Inr bs)" for r' bs
      using read_retry_bytes(1) [OF that n(1)] n(2) by simp
    ultimately show ?thesis
      using chunk [of n] n by (auto split: prod.splits sum.splits)
  qed
qed

lemma capture_chunk_ok:
  assumes "capture_chunk t maximum data r = Inr (r', bs)"
  shows "\<exists>n > 0. read_retry r n = (r', Inr bs)" "bs \<noteq> [] \<Longrightarrow> length data + length bs \<le> unat maximum"
proof -
  have len: "length data < 2 ^ 64"
    using assms by (auto simp: capture_chunk_def u64_of_usize_def split: if_splits)
  have "(\<exists>n > 0. read_retry r n = (r', Inr bs)) \<and> (bs \<noteq> [] \<longrightarrow> length data + length bs \<le> unat maximum)"
    using len
  proof (cases rule: capture_chunk_cases [where t = t and maximum = maximum and r = r])
    case sentinel
    then show ?thesis
      using assms by (auto split: prod.splits sum.splits if_splits)
  next
    case (chunk n)
    then show ?thesis
      using assms by (auto split: prod.splits sum.splits if_splits)
  qed
  then show "\<exists>n > 0. read_retry r n = (r', Inr bs)" "bs \<noteq> [] \<Longrightarrow> length data + length bs \<le> unat maximum"
    by blast+
qed

lemma capture_chunk_progress:
  "capture_chunk t maximum data r = Inr (r', bs) \<Longrightarrow> bs \<noteq> [] \<Longrightarrow> reader_size r' < reader_size r"
  using capture_chunk_ok(1) read_retry_bytes(3) by blast

function capture_loop :: "capture_texts \<Rightarrow> u64 \<Rightarrow> u8 list \<Rightarrow> reader \<Rightarrow> u8 list result" where
  "capture_loop t maximum data r =
     (case capture_chunk t maximum data r of
        Inl e \<Rightarrow> Inl e
      | Inr (r', bs) \<Rightarrow> if bs = [] then Inr data else capture_loop t maximum (data @ bs) r')"
  by pat_completeness auto

termination
  by (relation "measure (\<lambda>(t, m, data, r). reader_size r)") (auto intro: capture_chunk_progress)

declare capture_loop.simps [simp del]

text \<open>The loop returns the whole stream, and exactly when the stream has no error and fits the limit.\<close>

lemma capture_loop_Inr:
  assumes "capture_loop t maximum data r = Inr result" "length data \<le> unat maximum"
  shows "\<exists>content. stream_content r = Inr content \<and> result = data @ content \<and> length result \<le> unat maximum"
  using assms
proof (induction t maximum data r rule: capture_loop.induct)
  case (1 t maximum data r)
  then obtain r' bs where ch: "capture_chunk t maximum data r = Inr (r', bs)"
    by (auto simp: capture_loop.simps [of t maximum data r] split: sum.splits)
  then obtain n where n: "0 < n" "read_retry r n = (r', Inr bs)"
    using capture_chunk_ok(1) by blast
  note content = read_retry_bytes(2) [OF n(2,1)]
  show ?case
  proof (cases "bs = []")
    case True
    then show ?thesis
      using 1(2,3) ch content by (simp add: capture_loop.simps [of t maximum data r])
  next
    case False
    then have "capture_loop t maximum (data @ bs) r' = Inr result"
      using 1(2) ch by (simp add: capture_loop.simps [of t maximum data r])
    moreover have "length (data @ bs) \<le> unat maximum"
      using capture_chunk_ok(2) [OF ch False] by simp
    ultimately show ?thesis
      using 1(1) [OF ch refl False] content False by auto
  qed
qed

lemma saturating_remaining:
  "length data \<le> unat maximum \<Longrightarrow>
     saturating_sub (saturating_add maximum 1) (of_nat (length data)) = 0 \<longleftrightarrow>
     length data = unat maximum \<and> maximum = - 1"
proof -
  assume le: "length data \<le> unat maximum"
  have max: "unat (- 1 :: u64) = 2 ^ 64 - 1"
    by (simp add: unsigned_minus_1_eq_mask mask_eq_exp_minus_1)
  have len: "unat (of_nat (length data) :: u64) = length data"
  proof -
    have "length data < 18446744073709551616"
      using le u64_unat_bound [of maximum] by linarith
    then show ?thesis by (simp add: unat_of_nat take_bit_nat_eq_self)
  qed
  show ?thesis
  proof (cases "maximum = - 1")
    case True
    with le len max show ?thesis
      by (simp add: saturating_sub_def saturating_add_def checked_add_def checked_sub_def
          word_le_nat_alt word_unat_eq_iff unat_sub)
  next
    case False
    then have "unat maximum \<noteq> 18446744073709551615"
      using max by (auto simp: word_unat_eq_iff)
    then have "unat maximum + 1 < 18446744073709551616"
      using u64_unat_bound [of maximum] by linarith
    with le len False show ?thesis
      by (auto simp: saturating_sub_def saturating_add_def checked_add_def checked_sub_def
          word_le_nat_alt word_unat_eq_iff unat_sub unat_word_ariths)
  qed
qed

lemma capture_loop_complete:
  assumes "stream_content r = Inr content" "length data + length content \<le> unat maximum"
    "reservable (length data + length content)"
  shows "capture_loop t maximum data r = Inr (data @ content)"
  using assms
proof (induction t maximum data r arbitrary: content rule: capture_loop.induct)
  case (1 t maximum data r)
  have "length data < 18446744073709551616"
    using 1(3) u64_unat_bound [of maximum] by linarith
  then have len: "length data < 2 ^ 64" by simp
  have nofail: "read_retry r n \<noteq> (r', Inl msg)" for n r' msg
    using read_retry_error 1(2) by fastforce
  from len show ?case
  proof (cases rule: capture_chunk_cases [where t = t and maximum = maximum and r = r])
    case sentinel
    obtain r' bs where rd: "read_retry r 1 = (r', Inr bs)"
      using nofail by (metis prod.exhaust sum.exhaust)
    have "content = []"
      using sentinel(1) saturating_remaining [of data maximum] 1(3) by simp
    then have "bs = []"
      using read_retry_bytes(2) [OF rd] 1(2) by (cases "stream_content r'") (auto split: if_splits)
    then show ?thesis
      using sentinel(2) rd \<open>content = []\<close> by (simp add: capture_loop.simps [of t maximum data r])
  next
    case (chunk n)
    obtain r' bs where rd: "read_retry r n = (r', Inr bs)"
      using nofail by (metis prod.exhaust sum.exhaust)
    note content = read_retry_bytes(2) [OF rd chunk(1)]
    show ?thesis
    proof (cases "bs = []")
      case True
      then show ?thesis
        using chunk(3) rd content 1(2) by (simp add: capture_loop.simps [of t maximum data r])
    next
      case False
      then obtain rest where rest: "stream_content r' = Inr rest" "content = bs @ rest"
        using content 1(2) by (cases "stream_content r'") auto
      have ch: "capture_chunk t maximum data r = Inr (r', bs)"
        using chunk(3) rd False rest(2) 1(3,4) reservable_mono [OF 1(4)] by simp
      have "capture_loop t maximum (data @ bs) r' = Inr ((data @ bs) @ rest)"
        by (rule 1(1) [OF ch refl False rest(1)]) (use rest(2) 1(3,4) in \<open>simp_all add: add.assoc\<close>)
      then show ?thesis
        using ch False rest(2) by (simp add: capture_loop.simps [of t maximum data r])
    qed
  qed
qed

section \<open>Files\<close>

definition file_texts :: "string \<Rightarrow> u64 \<Rightarrow> string \<Rightarrow> capture_texts" where
  "file_texts path maximum description =
     \<lparr>failed_to_read = (\<lambda>e. ''failed to read '' @ path @ '': '' @ e),
      size_not_u64 = description @ '' size does not fit u64'',
      chunk_not_u64 = description @ '' chunk does not fit u64'',
      chunk_not_usize = description @ '' read chunk is too large for this host'',
      chunk_too_small = description @ '' read chunk is too small'',
      failed_to_grow = (\<lambda>e. ''failed to grow '' @ description @ '' buffer: '' @ e),
      read_exceeded = description @ '' read exceeded its chunk buffer'',
      beyond_limit = description @ '' grew beyond '' @ dec (unat maximum) @ '' bytes while being read''\<rparr>"

definition read_file_limited :: "file_system \<Rightarrow> string \<Rightarrow> u64 \<Rightarrow> string \<Rightarrow> u8 list result" where
  "read_file_limited fs path maximum description =
     (if maximum = 0 then Inl (Backend (''maximum '' @ description @ '' size must be non-zero''))
      else
        and_then (map_err (\<lambda>e. Backend (''failed to open '' @ path @ '': '' @ e)) (fs_open fs path)) (\<lambda>f.
        and_then (map_err (\<lambda>e. Backend (''failed to inspect '' @ path @ '': '' @ e)) (file_len f)) (\<lambda>len.
        if len > maximum then
          Inl (Backend (description @ '' size '' @ dec (unat len) @ '' exceeds '' @ dec (unat maximum) @ '' bytes''))
        else
        and_then (ok_or (usize_of_u64 len) (Backend (description @ '' is too large for this host''))) (\<lambda>capacity.
        if \<not> reservable capacity then
          Inl (Backend (''failed to allocate '' @ description @ '' buffer: '' @ capacity_overflow))
        else capture_loop (file_texts path maximum description) maximum [] (file_at f 0)))))"

function prefix_loop :: "string \<Rightarrow> usize \<Rightarrow> u8 list \<Rightarrow> reader \<Rightarrow> u8 list result" where
  "prefix_loop path maximum prefix r =
     (if length prefix < maximum then
        let requested = min (maximum - length prefix) 8192 in
        if requested > 8192 then Inl (Backend ''artifact prefix chunk is too small'')
        else
          (case read_retry r requested of
             (r', Inl e) \<Rightarrow> Inl (Backend (''failed to read '' @ path @ '': '' @ e))
           | (r', Inr bs) \<Rightarrow>
               if length bs = 0 then Inr prefix
               else if \<not> reservable (length prefix + length bs) then
                 Inl (Backend (''failed to grow artifact prefix buffer: '' @ capacity_overflow))
               else if length bs > 8192 then Inl (Backend ''artifact prefix read exceeded its buffer'')
               else prefix_loop path maximum (prefix @ bs) r')
      else Inr prefix)"
  by pat_completeness auto

termination
proof (relation "measure (\<lambda>(path, m, prefix, r). reader_size r)", simp)
  fix path :: string and maximum r requested r' res bs and prefix :: "u8 list"
  assume *: "length prefix < maximum" "requested = min (maximum - length prefix) 8192"
    "(r', res) = read_retry r requested" "res = Inr bs" "length bs \<noteq> 0"
  have "reader_size r' < reader_size r"
    by (rule read_retry_bytes(3) [of r requested r' bs]) (use * in auto)
  then show "((path, maximum, prefix @ bs, r'), (path, maximum, prefix, r)) \<in>
      measure (\<lambda>(path, m, prefix, r). reader_size r)"
    by simp
qed

declare prefix_loop.simps [simp del]

definition read_file_prefix :: "file_system \<Rightarrow> string \<Rightarrow> usize \<Rightarrow> u8 list result" where
  "read_file_prefix fs path maximum =
     and_then (map_err (\<lambda>e. Backend (''failed to open '' @ path @ '': '' @ e)) (fs_open fs path)) (\<lambda>f.
     if \<not> reservable maximum then
       Inl (Backend (''failed to allocate artifact prefix buffer: '' @ capacity_overflow))
     else prefix_loop path maximum [] (file_at f 0))"

definition raw_file_with_limit :: "file_system \<Rightarrow> string \<Rightarrow> gpa \<Rightarrow> u64 \<Rightarrow> snapshot_bundle result" where
  "raw_file_with_limit fs path base max_file_size =
     and_then (read_file_limited fs path max_file_size ''raw artifact'') (\<lambda>data. try_from_raw path base data)"

definition raw_file :: "file_system \<Rightarrow> string \<Rightarrow> gpa \<Rightarrow> snapshot_bundle result" where
  "raw_file fs path base = raw_file_with_limit fs path base DEFAULT_MAX_ARTIFACT_SIZE"

definition elf_vmcore_file_with_limits ::
  "file_system \<Rightarrow> string \<Rightarrow> u64 \<Rightarrow> u64 \<Rightarrow> snapshot_bundle result" where
  "elf_vmcore_file_with_limits fs path max_file_size max_memory_size =
     and_then (read_file_limited fs path max_file_size ''ELF artifact'') (\<lambda>data.
       from_elf_with_limits path data ''elf-vmcore'' max_memory_size)"

definition elf_vmcore_file :: "file_system \<Rightarrow> string \<Rightarrow> snapshot_bundle result" where
  "elf_vmcore_file fs path =
     elf_vmcore_file_with_limits fs path DEFAULT_MAX_ARTIFACT_SIZE DEFAULT_MAX_ARTIFACT_SIZE"

definition xen_core_file_with_limits ::
  "file_system \<Rightarrow> string \<Rightarrow> u64 \<Rightarrow> u64 \<Rightarrow> snapshot_bundle result" where
  "xen_core_file_with_limits fs path max_file_size max_memory_size =
     and_then (read_file_limited fs path max_file_size ''Xen core artifact'') (\<lambda>data.
       from_elf_with_limits path data ''xen-core'' max_memory_size)"

definition xen_core_file :: "file_system \<Rightarrow> string \<Rightarrow> snapshot_bundle result" where
  "xen_core_file fs path =
     xen_core_file_with_limits fs path DEFAULT_MAX_ARTIFACT_SIZE DEFAULT_MAX_ARTIFACT_SIZE"

definition lime_file_with_limit :: "file_system \<Rightarrow> string \<Rightarrow> u64 \<Rightarrow> snapshot_bundle result" where
  "lime_file_with_limit fs path max_file_size =
     and_then (read_file_limited fs path max_file_size ''LiME artifact'') (\<lambda>data. from_lime path data)"

definition lime_file :: "file_system \<Rightarrow> string \<Rightarrow> snapshot_bundle result" where
  "lime_file fs path = lime_file_with_limit fs path DEFAULT_MAX_ARTIFACT_SIZE"

section \<open>Compressed crash dumps\<close>

record decoders =
  gz_decoder :: "u8 list \<Rightarrow> reader"
  bz_decoder :: "u8 list \<Rightarrow> reader"
  xz_decoder :: "u8 list \<Rightarrow> reader"
  zlib_decoder :: "u8 list \<Rightarrow> reader"
  zstd_decoder :: "u8 list \<Rightarrow> string + reader"

definition decode_texts :: "string \<Rightarrow> u64 \<Rightarrow> capture_texts" where
  "decode_texts encoding maximum =
     \<lparr>failed_to_read = (\<lambda>e. ''failed to decode '' @ encoding @ ''-compressed KDMP: '' @ e),
      size_not_u64 = ''decoded KDMP size does not fit u64'',
      chunk_not_u64 = ''decoded KDMP chunk does not fit u64'',
      chunk_not_usize = ''decoded KDMP chunk length does not fit this host'',
      chunk_too_small = ''decoded KDMP chunk is too small'',
      failed_to_grow = (\<lambda>e. ''failed to grow decoded '' @ encoding @ '' KDMP buffer: '' @ e),
      read_exceeded = ''decoded KDMP read exceeded its chunk buffer'',
      beyond_limit = ''decoded '' @ encoding @ '' KDMP exceeds configured limit of '' @ dec (unat maximum)
        @ '' bytes''\<rparr>"

definition decode_compressed_kdmp :: "reader \<Rightarrow> string \<Rightarrow> u64 \<Rightarrow> u8 list result" where
  "decode_compressed_kdmp decoder encoding max_decoded_size =
     and_then (capture_loop (decode_texts encoding max_decoded_size) max_decoded_size [] decoder) (\<lambda>decoded.
     if \<not> starts_with decoded (bytes_of ''PAGEDU64'') then
       Inl (Backend (encoding @ '' payload is not an AMD64 KDMP''))
     else Inr decoded)"

definition decode_kdmp :: "decoders \<Rightarrow> u64 \<Rightarrow> u8 list \<Rightarrow> u8 list result" where
  "decode_kdmp d max_decoded_size data =
     (if starts_with data [0x1f, 0x8b] then
        decode_compressed_kdmp (gz_decoder d data) ''gzip'' max_decoded_size
      else if starts_with data (bytes_of ''BZh'') then
        decode_compressed_kdmp (bz_decoder d data) ''bzip2'' max_decoded_size
      else if starts_with data (0xfd # bytes_of ''7zXZ'' @ [0]) then
        decode_compressed_kdmp (xz_decoder d data) ''xz'' max_decoded_size
      else if starts_with data [0x28, 0xb5, 0x2f, 0xfd] then
        and_then (map_err (\<lambda>e. Backend (''failed to initialize zstd KDMP decoder: '' @ e)) (zstd_decoder d data))
          (\<lambda>decoder. decode_compressed_kdmp decoder ''zstd'' max_decoded_size)
      else if get_at data 0 = Some 0x78 then
        decode_compressed_kdmp (zlib_decoder d data) ''zlib'' max_decoded_size
      else Inr data)"

definition kdmp_file_with_limit :: "decoders \<Rightarrow> file_system \<Rightarrow> string \<Rightarrow> u64 \<Rightarrow> snapshot_bundle result" where
  "kdmp_file_with_limit d fs path max_decoded_size =
     (if max_decoded_size = 0 then Inl (Backend ''maximum decoded KDMP size must be non-zero'')
      else
        and_then (read_file_limited fs path max_decoded_size ''encoded KDMP artifact'') (\<lambda>data.
        and_then (decode_kdmp d max_decoded_size data) (\<lambda>decoded. from_kdmp path decoded)))"

definition DEFAULT_MAX_DECODED_KDMP_SIZE :: u64 where
  "DEFAULT_MAX_DECODED_KDMP_SIZE = 64 * 1024 * 1024 * 1024"

definition kdmp_file :: "decoders \<Rightarrow> file_system \<Rightarrow> string \<Rightarrow> snapshot_bundle result" where
  "kdmp_file d fs path = kdmp_file_with_limit d fs path DEFAULT_MAX_DECODED_KDMP_SIZE"

definition converted_core_file :: "decoders \<Rightarrow> file_system \<Rightarrow> string \<Rightarrow> snapshot_bundle result" where
  "converted_core_file d fs path =
     and_then (read_file_prefix fs path 8) (\<lambda>prefix.
     if starts_with prefix (0x7f # bytes_of ''ELF'') then elf_vmcore_file fs path
     else if starts_with prefix (bytes_of ''PAGEDU64'') \<or> starts_with prefix [0x1f, 0x8b]
       \<or> starts_with prefix (bytes_of ''BZh'') \<or> starts_with prefix (0xfd # bytes_of ''7zXZ'' @ [0])
       \<or> starts_with prefix [0x28, 0xb5, 0x2f, 0xfd] \<or> get_at prefix 0 = Some 0x78
     then kdmp_file d fs path
     else Inl (Backend ''converted core is neither ELF nor Windows KDMP''))"

section \<open>Snapshot manifests\<close>

text \<open>The operations of \<open>serde_json::Value\<close> that the manifest and profile readers call.\<close>

record 'v json_ops =
  json_from_str :: "string \<Rightarrow> string + 'v"
  as_object :: "'v \<Rightarrow> (string \<Rightarrow> 'v option) option"
  object_entries :: "'v \<Rightarrow> (string \<times> 'v) list option"
  as_array :: "'v \<Rightarrow> 'v list option"
  as_u64 :: "'v \<Rightarrow> u64 option"
  as_str_value :: "'v \<Rightarrow> string option"

definition manifest_segment_text :: "usize \<Rightarrow> string \<Rightarrow> vmi_error" where
  "manifest_segment_text index rest = Backend (''snapshot manifest segment '' @ dec index @ rest)"

definition manifest_u64 :: "'v json_ops \<Rightarrow> 'v option \<Rightarrow> string \<Rightarrow> usize \<Rightarrow> u64 result" where
  "manifest_u64 js value field index =
     and_then (ok_or value (manifest_segment_text index ('' '' @ field @ '' is missing''))) (\<lambda>v.
     case as_u64 js v of
       Some number \<Rightarrow> Inr number
     | None \<Rightarrow>
         and_then (ok_or (as_str_value js v) (manifest_segment_text index ('' '' @ field @ '' must be unsigned'')))
           (\<lambda>txt.
         map_err (\<lambda>e. Backend (''invalid snapshot manifest segment '' @ dec index @ '' '' @ field @ '': '' @ e))
           (if starts_with txt ''0x'' then from_str_radix 16 (drop 2 txt) else from_str_radix 10 txt)))"

definition manifest_path :: "'v json_ops \<Rightarrow> file_system \<Rightarrow> string \<Rightarrow> usize \<Rightarrow> (string \<Rightarrow> 'v option) \<Rightarrow> string result" where
  "manifest_path js fs base index entry =
     and_then (ok_or (Option.bind (entry ''file'') (as_str_value js))
       (manifest_segment_text index '' file is missing'')) (\<lambda>name.
     if is_absolute name then Inl (manifest_segment_text index '' file must be relative'')
     else
       and_then (map_err (\<lambda>e. Backend (''failed to resolve manifest file '' @ name @ '': '' @ e))
         (fs_canonicalize fs (path_join base name))) (\<lambda>file_path.
       if \<not> path_starts_with file_path base then
         Inl (manifest_segment_text index '' escapes the manifest directory'')
       else Inr file_path))"

definition manifest_slice :: "file_system \<Rightarrow> usize \<Rightarrow> string \<Rightarrow> u64 \<Rightarrow> u64 \<Rightarrow> usize \<Rightarrow> u8 list result" where
  "manifest_slice fs index file_path file_offset stop len =
     and_then (map_err (\<lambda>e. Backend (''failed to open manifest file '' @ file_path @ '': '' @ e))
       (fs_open fs file_path)) (\<lambda>source.
     and_then (map_err (\<lambda>e. Backend (''failed to inspect manifest file '' @ file_path @ '': '' @ e))
       (file_len source)) (\<lambda>available.
     if stop > available then Inl (manifest_segment_text index ('' exceeds '' @ file_path))
     else
     and_then (map_err (\<lambda>e. Backend (''failed to seek manifest file '' @ file_path @ '': '' @ e))
       (file_seek source file_offset)) (\<lambda>_.
     if \<not> reservable len then
       Inl (Backend (''failed to allocate snapshot manifest segment '' @ dec index @ '': '' @ capacity_overflow))
     else
       map_err (\<lambda>e. Backend (''failed to read manifest segment '' @ dec index @ '' from '' @ file_path @ '': '' @ e))
         (read_exact (file_at source file_offset) len))))"

definition manifest_entry ::
  "'v json_ops \<Rightarrow> file_system \<Rightarrow> string \<Rightarrow> u64 \<Rightarrow> usize \<Rightarrow> 'v \<Rightarrow> u64 \<Rightarrow> (u64 \<times> snapshot_segment) result" where
  "manifest_entry js fs base max_total_bytes index value total_len =
     and_then (ok_or (as_object js value) (manifest_segment_text index '' must be an object'')) (\<lambda>entry.
     and_then (manifest_path js fs base index entry) (\<lambda>file_path.
     and_then (manifest_u64 js (entry ''gpa'') ''gpa'' index) (\<lambda>gpa.
     and_then (manifest_u64 js (entry ''file_offset'') ''file_offset'' index) (\<lambda>file_offset.
     and_then (manifest_u64 js (entry ''length'') ''length'' index) (\<lambda>len64.
     if len64 = 0 then Inl (manifest_segment_text index '' length is zero'')
     else
     and_then (ok_or (usize_of_u64 len64) (manifest_segment_text index '' length is too large'')) (\<lambda>len.
     and_then (ok_or (checked_add file_offset len64) (manifest_segment_text index '' file range overflow''))
       (\<lambda>stop.
     and_then (ok_or (checked_add total_len len64) (Backend ''snapshot manifest total byte count overflow''))
       (\<lambda>total_len'.
     if total_len' > max_total_bytes then
       Inl (Backend (''snapshot manifest data exceeds configured limit of '' @ dec (unat max_total_bytes)
         @ '' bytes''))
     else
     and_then (manifest_slice fs index file_path file_offset stop len) (\<lambda>slice.
     and_then (ok_or (checked_add gpa len64) (manifest_segment_text index '' GPA range overflow'')) (\<lambda>_.
       Inr (total_len', segment_new (Gpa gpa) slice)))))))))))"

fun manifest_loop ::
  "'v json_ops \<Rightarrow> file_system \<Rightarrow> string \<Rightarrow> u64 \<Rightarrow> usize \<Rightarrow> 'v list \<Rightarrow> u64 \<Rightarrow> snapshot_segment list
   \<Rightarrow> snapshot_segment list result" where
  "manifest_loop js fs base max_total_bytes index [] total_len segs = Inr segs"
| "manifest_loop js fs base max_total_bytes index (value # values) total_len segs =
     and_then (manifest_entry js fs base max_total_bytes index value total_len) (\<lambda>(total_len', segment).
     and_then (reserve_segment segs ''snapshot manifest'') (\<lambda>_.
       manifest_loop js fs base max_total_bytes (index + 1) values total_len' (segs @ [segment])))"

definition DEFAULT_MAX_MANIFEST_SIZE :: u64 where
  "DEFAULT_MAX_MANIFEST_SIZE = 16 * 1024 * 1024"

definition manifest_root :: "'v json_ops \<Rightarrow> string \<Rightarrow> u8 list \<Rightarrow> (string \<times> 'v list) result" where
  "manifest_root js path contents =
     and_then (map_err (\<lambda>e. Backend (''snapshot manifest '' @ path @ '' is not UTF-8: '' @ e))
       (from_utf8 contents)) (\<lambda>txt.
     and_then (map_err (\<lambda>e. Backend (''invalid snapshot manifest JSON: '' @ e)) (json_from_str js txt)) (\<lambda>value.
     and_then (ok_or (as_object js value) (Backend ''snapshot manifest root must be an object'')) (\<lambda>root.
     if Option.bind (root ''version'') (as_u64 js) \<noteq> Some 1 then
       Inl (Backend ''unsupported snapshot manifest version'')
     else
     and_then (ok_or (Option.bind (root ''format'') (as_str_value js))
       (Backend ''snapshot manifest format must be a string'')) (\<lambda>fmt.
     and_then (ok_or (Option.bind (root ''segments'') (as_array js))
       (Backend ''snapshot manifest segments must be an array'')) (\<lambda>entries.
       Inr (fmt, entries))))))"

definition manifest_base :: "file_system \<Rightarrow> string \<Rightarrow> string result" where
  "manifest_base fs path =
     map_err (\<lambda>e. Backend (''failed to resolve manifest directory for '' @ path @ '': '' @ e))
       (fs_canonicalize fs (case path_parent path of Some p \<Rightarrow> p | None \<Rightarrow> ''.''))"

definition manifest_file_with_limits ::
  "'v json_ops \<Rightarrow> file_system \<Rightarrow> string \<Rightarrow> usize \<Rightarrow> u64 \<Rightarrow> snapshot_bundle result" where
  "manifest_file_with_limits js fs path max_segments max_total_bytes =
     (if max_segments = 0 \<or> max_total_bytes = 0 then
        Inl (Backend ''manifest segment and byte limits must be non-zero'')
      else
        and_then (read_file_limited fs path DEFAULT_MAX_MANIFEST_SIZE ''snapshot manifest'') (\<lambda>contents.
        and_then (manifest_root js path contents) (\<lambda>(fmt, entries).
        if entries = [] then Inl (Backend ''snapshot manifest contains no segments'')
        else if length entries > max_segments then
          Inl (Backend (''snapshot manifest contains '' @ dec (length entries) @ '' segments, exceeding limit ''
            @ dec max_segments))
        else
        and_then (manifest_base fs path) (\<lambda>base.
        if \<not> reservable (32 * length entries) then
          Inl (Backend (''failed to allocate snapshot manifest segment table: '' @ capacity_overflow))
        else
        and_then (manifest_loop js fs base max_total_bytes 0 entries 0 []) (\<lambda>segs.
        and_then (finish_segments ''snapshot manifest physical ranges overlap'' segs) (\<lambda>sorted.
          Inr (bundle_of fmt path sorted)))))))"

definition DEFAULT_MAX_MANIFEST_SEGMENTS :: usize where
  "DEFAULT_MAX_MANIFEST_SEGMENTS = 65536"

definition DEFAULT_MAX_MANIFEST_BYTES :: u64 where
  "DEFAULT_MAX_MANIFEST_BYTES = 64 * 1024 * 1024 * 1024"

definition manifest_file :: "'v json_ops \<Rightarrow> file_system \<Rightarrow> string \<Rightarrow> snapshot_bundle result" where
  "manifest_file js fs path =
     manifest_file_with_limits js fs path DEFAULT_MAX_MANIFEST_SEGMENTS DEFAULT_MAX_MANIFEST_BYTES"

section \<open>What the readers deliver\<close>

lemma capture_loop_iff:
  assumes "reservable (unat maximum)"
  shows "capture_loop t maximum [] r = Inr data \<longleftrightarrow> stream_content r = Inr data \<and> length data \<le> unat maximum"
  using capture_loop_Inr [of t maximum "[]" r data] capture_loop_complete [of r data "[]" maximum t]
    reservable_mono [OF assms] by auto

lemma manifest_slice_read:
  "manifest_slice fs index path offset stop len = Inr bytes \<Longrightarrow>
     \<exists>f. fs_open fs path = Inr f \<and> read_exact (file_at f offset) len = Inr bytes"
  by (auto simp: manifest_slice_def split: if_splits)

lemma read_exact_length: "read_exact r n = Inr bs \<Longrightarrow> length bs = n"
proof (induction r n arbitrary: bs rule: read_exact.induct)
  case (1 r n)
  show ?case
  proof (cases "n = 0")
    case False
    obtain r' res where rd: "reader_read r n = (r', res)" by fastforce
    show ?thesis
    proof (cases res)
      case (Inl e)
      then show ?thesis
        using 1(1) [OF False rd [symmetric] Inl] 1(3) rd False
        by (cases e) (simp_all add: read_exact.simps [of r])
    next
      case (Inr cs)
      then obtain rest where "cs \<noteq> []" "read_exact r' (n - length cs) = Inr rest" "bs = cs @ rest"
        using 1(3) rd False by (auto simp: read_exact.simps [of r] split: if_splits)
      moreover have "length cs \<le> n"
        using reader_read_content(1) rd Inr False by blast
      ultimately show ?thesis
        using 1(2) [OF False rd [symmetric] Inr, of rest] by simp
    qed
  qed (use 1(3) in \<open>simp add: read_exact.simps\<close>)
qed

text \<open>A number of a manifest: an unsigned JSON number, or a string of decimal or hexadecimal digits.\<close>

definition manifest_number :: "'v json_ops \<Rightarrow> 'v option \<Rightarrow> u64 \<Rightarrow> bool" where
  "manifest_number js field_value n \<longleftrightarrow>
     (\<exists>v. field_value = Some v \<and>
       (as_u64 js v = Some n \<or> as_u64 js v = None \<and>
         (\<exists>digits. as_str_value js v = Some digits \<and>
           (if starts_with digits ''0x'' then from_str_radix 16 (drop 2 digits) else from_str_radix 10 digits) = Inr n)))"

text \<open>
  What an entry of a manifest denotes: its file, resolved from the manifest's directory, is below this directory, and the
  segment holds at the entry's address exactly the slice of that file which the entry names.
\<close>

definition manifest_slice_of :: "'v json_ops \<Rightarrow> file_system \<Rightarrow> string \<Rightarrow> 'v \<Rightarrow> snapshot_segment \<Rightarrow> bool" where
  "manifest_slice_of js fs base value s \<longleftrightarrow> live_segment s \<and> seg_end s < 2 ^ 64 \<and>
     (\<exists>entry name path f gpa offset n. as_object js value = Some entry \<and>
        Option.bind (entry ''file'') (as_str_value js) = Some name \<and> \<not> is_absolute name \<and>
        fs_canonicalize fs (path_join base name) = Inr path \<and>
        (\<exists>rest. path_components path = path_components base @ rest) \<and> fs_open fs path = Inr f \<and>
        manifest_number js (entry ''gpa'') gpa \<and> manifest_number js (entry ''file_offset'') offset \<and>
        manifest_number js (entry ''length'') n \<and>
        seg_start s = unat gpa \<and> length (seg_data s) = unat n \<and>
        read_exact (file_at f offset) (unat n) = Inr (seg_data s))"

lemma manifest_u64_number: "manifest_u64 js value field index = Inr n \<Longrightarrow> manifest_number js value n"
proof -
  assume number: "manifest_u64 js value field index = Inr n"
  then obtain v where v: "value = Some v" by (cases "value") (auto simp: manifest_u64_def)
  show ?thesis
  proof (cases "as_u64 js v")
    case None
    with number v obtain digits where "as_str_value js v = Some digits" by (auto simp: manifest_u64_def)
    with number v None show ?thesis
      by (cases "starts_with digits ''0x''") (auto simp: manifest_u64_def manifest_number_def map_err_def split: sum.splits)
  next
    case (Some m)
    with number v show ?thesis by (simp add: manifest_u64_def manifest_number_def)
  qed
qed

lemma manifest_entry_segment:
  assumes "manifest_entry js fs base max_total index value total_len = Inr (total_len', s)"
  shows "manifest_slice_of js fs base value s" "unat total_len' = unat total_len + length (seg_data s)" "total_len' \<le> max_total"
proof -
  from assms obtain entry path gpa offset len64 stop slice gpa_end where
    entry: "as_object js value = Some entry" and path: "manifest_path js fs base index entry = Inr path" and len64: "len64 \<noteq> 0"
    and numbers: "manifest_u64 js (entry ''gpa'') ''gpa'' index = Inr gpa"
      "manifest_u64 js (entry ''file_offset'') ''file_offset'' index = Inr offset"
      "manifest_u64 js (entry ''length'') ''length'' index = Inr len64"
    and sum: "checked_add total_len len64 = Some total_len'" "\<not> total_len' > max_total"
    and slice: "manifest_slice fs index path offset stop (unat len64) = Inr slice"
    and gpa: "checked_add gpa len64 = Some gpa_end" and s: "s = segment_new (Gpa gpa) slice"
    by (fastforce simp: manifest_entry_def usize_of_u64_def split: if_splits)
  from manifest_slice_read [OF slice] obtain f where
    f: "fs_open fs path = Inr f" "read_exact (file_at f offset) (unat len64) = Inr slice" by blast
  have len: "length slice = unat len64"
    by (rule read_exact_length [OF f(2)])
  from path obtain name where name: "Option.bind (entry ''file'') (as_str_value js) = Some name" "\<not> is_absolute name"
      "fs_canonicalize fs (path_join base name) = Inr path" "path_starts_with path base"
    by (auto simp: manifest_path_def map_err_def split: if_splits sum.splits)
  have below: "path_components path = path_components base @ drop (length (path_components base)) (path_components path)"
    using name(4) by (metis append_take_drop_id path_starts_with_def starts_with_def)
  have ok: "segment_ok s"
    unfolding s by (rule segment_new_ok) (simp add: len)
  moreover have "seg_data s \<noteq> []"
    using len len64 by (auto simp: s word_unat_eq_iff)
  moreover have "seg_end s < 2 ^ 64"
    using gpa len seg_end_ok [OF ok] by (auto simp: s checked_add_def split: if_splits)
  moreover have "seg_start s = unat gpa" by (simp add: s seg_start_def segment_new_def range_new_def)
  moreover have "seg_data s = slice" by (simp add: s)
  ultimately show "manifest_slice_of js fs base value s"
    unfolding manifest_slice_of_def live_segment_def
    using f len entry name below numbers [THEN manifest_u64_number] by blast
  show "unat total_len' = unat total_len + length (seg_data s)" "total_len' \<le> max_total"
    using unat_checked_add [OF sum(1)] sum(2) len by (simp_all add: s)
qed

lemma manifest_loop_segments:
  assumes "manifest_loop js fs base max_total index vals total_len segs = Inr segs'"
    "total_bytes segs = unat total_len" "total_len \<le> max_total"
  shows "\<exists>added. segs' = segs @ added \<and> list_all2 (manifest_slice_of js fs base) vals added \<and>
    total_bytes segs' \<le> unat max_total"
  using assms
proof (induction vals arbitrary: index total_len segs)
  case Nil
  then show ?case by (simp add: word_le_nat_alt)
next
  case (Cons v vs)
  then obtain total_len' s where e: "manifest_entry js fs base max_total index v total_len = Inr (total_len', s)"
    and rest: "manifest_loop js fs base max_total (index + 1) vs total_len' (segs @ [s]) = Inr segs'"
    by (auto split: prod.splits)
  note seg = manifest_entry_segment [OF e]
  have "total_bytes (segs @ [s]) = unat total_len'"
    using Cons.prems seg by auto
  from Cons.IH [OF rest this seg(3)] seg(1) show ?case by auto
qed

section \<open>Properties of the file readers\<close>

text \<open>
  C16: \<open>read_file_limited\<close> returns the whole content of the file or an error. However the reads are
  chunked, interrupted or cut short, and whatever size the file had when it was inspected, the call
  succeeds exactly when the stream ends without an error within the limit, and then with all its bytes.
\<close>

theorem read_file_limited_exact:
  assumes "fs_open fs path = Inr f" "file_len f = Inr len" "len \<le> maximum" "maximum \<noteq> 0"
    "unat maximum \<le> isize_max"
  shows "read_file_limited fs path maximum description = Inr data \<longleftrightarrow>
    stream_content (file_at f 0) = Inr data \<and> length data \<le> unat maximum"
proof -
  have "reservable (unat maximum)" "reservable (unat len)"
    using assms(3,5) by (auto simp: reservable_def word_le_nat_alt)
  moreover have "\<not> len > maximum"
    using assms(3) by simp
  ultimately show ?thesis
    using assms(1-4) capture_loop_iff by (simp add: read_file_limited_def usize_of_u64_def)
qed

definition script_file :: "u64 \<Rightarrow> reader \<Rightarrow> file_handle" where
  "script_file len r = \<lparr>file_len = Inr len, file_seek = (\<lambda>_. Inr ()), file_at = (\<lambda>_. r)\<rparr>"

definition script_fs :: "(string \<times> file_handle) list \<Rightarrow> file_system" where
  "script_fs files =
     \<lparr>fs_open = (\<lambda>p. case map_of files p of Some f \<Rightarrow> Inr f | None \<Rightarrow> Inl ''not found''),
      fs_canonicalize = (\<lambda>p. if p = '''' then Inl ''not found'' else Inr p)\<rparr>"

theorem read_file_limited_exact_witness:
  "read_file_limited (script_fs [(''a'', script_file 1 [Interrupted, Chunk [7], Interrupted, Chunk [8]])]) ''a'' 2 ''x''
     = Inr [7, 8] \<and>
   (\<forall>data. read_file_limited (script_fs [(''a'', script_file 1 [Chunk [7], Chunk [8, 9]])]) ''a'' 2 ''x'' \<noteq> Inr data)"
proof -
  have opened: "fs_open (script_fs [(''a'', f)]) ''a'' = Inr f" for f
    by (simp add: script_fs_def)
  have small: "unat (2 :: u64) \<le> isize_max" "(1 :: u64) \<le> 2" "(2 :: u64) \<noteq> 0"
    by (simp_all add: isize_max_def)
  note exact = read_file_limited_exact [OF opened _ small(2,3,1)]
  show ?thesis
    using exact [of "script_file 1 [Interrupted, Chunk [7], Interrupted, Chunk [8]]" "''x''" "[7, 8]"]
      exact [of "script_file 1 [Chunk [7], Chunk [8, 9]]"]
    by (auto simp: script_file_def)
qed

lemma manifest_segments:
  assumes "manifest_file_with_limits js fs path max_segments max_total = Inr b"
  shows "\<exists>contents fmt entries base segs.
    read_file_limited fs path DEFAULT_MAX_MANIFEST_SIZE ''snapshot manifest'' = Inr contents \<and>
    manifest_root js path contents = Inr (fmt, entries) \<and> manifest_base fs path = Inr base \<and>
    list_all2 (manifest_slice_of js fs base) entries segs \<and> segments b = sort_segments segs \<and>
    bundle_ok b \<and> segments b \<noteq> [] \<and> segments_disjoint (segments b) \<and> length (segments b) \<le> max_segments \<and>
    total_bytes (segments b) \<le> unat max_total"
proof -
  from assms obtain contents fmt entries base segs out where n: "entries \<noteq> []" "length entries \<le> max_segments"
    and source: "read_file_limited fs path DEFAULT_MAX_MANIFEST_SIZE ''snapshot manifest'' = Inr contents"
      "manifest_root js path contents = Inr (fmt, entries)"
    and base: "manifest_base fs path = Inr base"
    and loop: "manifest_loop js fs base max_total 0 entries 0 [] = Inr segs"
    and fin: "finish_segments ''snapshot manifest physical ranges overlap'' segs = Inr out"
    and b: "b = bundle_of fmt path out"
    by (auto simp: manifest_file_with_limits_def not_less split: if_splits prod.splits)
  have segs: "list_all2 (manifest_slice_of js fs base) entries segs" "total_bytes segs \<le> unat max_total"
    using manifest_loop_segments [OF loop] by simp_all
  then have live: "\<forall>s \<in> set segs. live_segment s"
    by (auto simp: manifest_slice_of_def list_all2_conv_all_nth in_set_conv_nth)
  have out: "out = sort_segments segs"
    using fin by (auto simp: finish_segments_def Let_def split: if_splits)
  have "length out = length entries"
    using list_all2_lengthD [OF segs(1)] by (simp add: out sort_segments_def)
  moreover have "total_bytes out = total_bytes segs"
    by (simp add: out total_bytes_sort)
  moreover have "out \<noteq> []"
    using n calculation(1) by auto
  moreover have "segments b = sort_segments segs" by (simp add: b bundle_of_def out)
  ultimately show ?thesis
    using finish_segments_live [OF fin live, of fmt path] segs n base source by (auto simp: b bundle_of_def)
qed

text \<open>
  What is documented of \<open>std::fs::canonicalize\<close>: the result is absolute, has no parent components, and is its own
  canonical form, so no symbolic link is left in it.
\<close>

definition canonical_paths :: "file_system \<Rightarrow> bool" where
  "canonical_paths fs \<longleftrightarrow>
     (\<forall>p q. fs_canonicalize fs p = Inr q \<longrightarrow>
       is_absolute q \<and> ''..'' \<notin> set (path_components q) \<and> fs_canonicalize fs q = Inr q)"

text \<open>A file below a directory, both without links and parent components.\<close>

definition really_below :: "file_system \<Rightarrow> string \<Rightarrow> string \<Rightarrow> bool" where
  "really_below fs base path \<longleftrightarrow> fs_canonicalize fs base = Inr base \<and> fs_canonicalize fs path = Inr path \<and>
     ''..'' \<notin> set (path_components path) \<and> take (length (path_components base)) (path_components path) = path_components base"

text \<open>
  C17: An accepted snapshot manifest denotes exactly its entries. Each entry gives one segment: the slice at the
  entry's offset and of its length, of the file that the entry's relative name resolves to, at the entry's address.
  The resolved file is below the manifest's directory, with no link and no parent component left in either path, so
  neither parent traversal nor an escaping link is accepted. The bundle has these segments in the order of their
  addresses; they are not empty, do not overlap, end below \<open>2 ^ 64\<close> and respect both limits.
\<close>

theorem manifest_file_well_formed:
  assumes "manifest_file_with_limits js fs path max_segments max_total = Inr b" "canonical_paths fs"
  shows "\<exists>contents fmt entries base segs.
    read_file_limited fs path DEFAULT_MAX_MANIFEST_SIZE ''snapshot manifest'' = Inr contents \<and>
    manifest_root js path contents = Inr (fmt, entries) \<and> manifest_base fs path = Inr base \<and>
    list_all2 (manifest_slice_of js fs base) entries segs \<and>
    (\<forall>value \<in> set entries. \<exists>entry name file_path. as_object js value = Some entry \<and>
      Option.bind (entry ''file'') (as_str_value js) = Some name \<and>
      fs_canonicalize fs (path_join base name) = Inr file_path \<and> really_below fs base file_path) \<and>
    segments b = sort_segments segs \<and> bundle_ok b \<and> segments b \<noteq> [] \<and> segments_disjoint (segments b) \<and>
    length (segments b) \<le> max_segments \<and> total_bytes (segments b) \<le> unat max_total"
proof -
  from manifest_segments [OF assms(1)] obtain contents fmt entries base segs where found:
    "read_file_limited fs path DEFAULT_MAX_MANIFEST_SIZE ''snapshot manifest'' = Inr contents"
    "manifest_root js path contents = Inr (fmt, entries)" "manifest_base fs path = Inr base"
    "list_all2 (manifest_slice_of js fs base) entries segs" "segments b = sort_segments segs" "bundle_ok b" "segments b \<noteq> []"
    "segments_disjoint (segments b)" "length (segments b) \<le> max_segments" "total_bytes (segments b) \<le> unat max_total"
    by blast
  have real: "fs_canonicalize fs base = Inr base"
    using found(3) assms(2) by (auto simp: manifest_base_def map_err_def canonical_paths_def split: sum.splits)
  have "\<exists>entry name file_path. as_object js value = Some entry \<and>
      Option.bind (entry ''file'') (as_str_value js) = Some name \<and>
      fs_canonicalize fs (path_join base name) = Inr file_path \<and> really_below fs base file_path"
    if listed: "value \<in> set entries" for "value"
  proof -
    obtain s where "manifest_slice_of js fs base value s"
      using listed found(4) by (auto simp: list_all2_conv_all_nth in_set_conv_nth)
    then obtain entry name file_path rest where entry: "as_object js value = Some entry"
        "Option.bind (entry ''file'') (as_str_value js) = Some name" "fs_canonicalize fs (path_join base name) = Inr file_path"
        "path_components file_path = path_components base @ rest"
      unfolding manifest_slice_of_def by blast
    have "''..'' \<notin> set (path_components file_path)" "fs_canonicalize fs file_path = Inr file_path"
      using entry(3) assms(2) unfolding canonical_paths_def by blast+
    with real entry show ?thesis by (auto simp: really_below_def)
  qed
  with found show ?thesis by blast
qed

text \<open>A manifest of one segment, as the JSON library would deliver it.\<close>

datatype json = JNumber u64 | JString string | JArray "json list" | JObject "(string \<times> json) list"

definition json_fixture :: "json \<Rightarrow> json json_ops" where
  "json_fixture v =
     \<lparr>json_from_str = (\<lambda>_. Inr v),
      as_object = (\<lambda>x. case x of JObject kvs \<Rightarrow> Some (map_of kvs) | _ \<Rightarrow> None),
      object_entries = (\<lambda>x. case x of JObject kvs \<Rightarrow> Some kvs | _ \<Rightarrow> None),
      as_array = (\<lambda>x. case x of JArray xs \<Rightarrow> Some xs | _ \<Rightarrow> None),
      as_u64 = (\<lambda>x. case x of JNumber n \<Rightarrow> Some n | _ \<Rightarrow> None),
      as_str_value = (\<lambda>x. case x of JString s \<Rightarrow> Some s | _ \<Rightarrow> None)\<rparr>"

definition manifest_value :: json where
  "manifest_value = JObject [(''version'', JNumber 1), (''format'', JString ''x''), (''segments'',
     JArray [JObject [(''file'', JString ''a''), (''gpa'', JString ''0x1000''), (''file_offset'', JNumber 0),
       (''length'', JString ''2'')]])]"

definition manifest_fs :: file_system where
  "manifest_fs = (script_fs [(''/d/m'', script_file 0 []), (''/d/a'', script_file 2 [Chunk [5], Chunk [6]])])
     \<lparr>fs_canonicalize := (\<lambda>p. if p \<in> {''/d'', ''/d/a''} then Inr p else Inl ''not found'')\<rparr>"

lemma manifest_fs_open:
  "fs_open manifest_fs ''/d/m'' = Inr (script_file 0 [])"
  "fs_open manifest_fs ''/d/a'' = Inr (script_file 2 [Chunk [5], Chunk [6]])"
  "fs_canonicalize manifest_fs ''/d'' = Inr ''/d''" "fs_canonicalize manifest_fs ''/d/a'' = Inr ''/d/a''"
  by (simp_all add: manifest_fs_def script_fs_def)

lemma manifest_fs_canonical: "canonical_paths manifest_fs"
  by (auto simp: canonical_paths_def manifest_fs_def is_absolute_def starts_with_def path_components_def Let_def split: if_splits)

lemma manifest_paths:
  "manifest_base manifest_fs ''/d/m'' = Inr ''/d''" "path_join ''/d'' ''a'' = ''/d/a''"
  "path_starts_with ''/d/a'' ''/d''" "\<not> is_absolute ''a''"
  by (simp_all add: manifest_base_def path_parent_def path_components_def is_absolute_def starts_with_def
      manifest_fs_open path_join_def path_starts_with_def Let_def)

lemma manifest_numbers: "from_str_radix 16 ''1000'' = Inr 0x1000" "from_str_radix 10 ''2'' = Inr 2"
  by (simp_all add: from_str_radix_def to_digit_def checked_mul_def checked_add_def Let_def ok_or_def)

lemma manifest_fixture_entry:
  "manifest_entry (json_fixture v) manifest_fs ''/d'' 4096 0
     (JObject [(''file'', JString ''a''), (''gpa'', JString ''0x1000''), (''file_offset'', JNumber 0),
       (''length'', JString ''2'')]) 0 = Inr (2, segment_new (Gpa 0x1000) [5, 6])"
proof -
  let ?js = "json_fixture v"
  let ?entry = "map_of [(''file'', JString ''a''), (''gpa'', JString ''0x1000''), (''file_offset'', JNumber 0),
       (''length'', JString ''2'')]"
  have fields: "manifest_path ?js manifest_fs ''/d'' 0 ?entry = Inr ''/d/a''"
    "manifest_u64 ?js (?entry ''gpa'') ''gpa'' 0 = Inr 0x1000"
    "manifest_u64 ?js (?entry ''file_offset'') ''file_offset'' 0 = Inr 0"
    "manifest_u64 ?js (?entry ''length'') ''length'' 0 = Inr 2"
    by (simp_all add: manifest_path_def json_fixture_def manifest_paths manifest_fs_open manifest_u64_def
        manifest_numbers starts_with_def map_err_def ok_or_def)
  have slice: "manifest_slice manifest_fs 0 ''/d/a'' 0 2 2 = Inr [5, 6]"
    using read_exact_content [of "[Chunk [5], Chunk [6]]" "[5, 6]" 2]
    by (simp add: manifest_slice_def manifest_fs_open script_file_def reservable_def isize_max_def map_err_def)
  have "as_object ?js (JObject [(''file'', JString ''a''), (''gpa'', JString ''0x1000''),
      (''file_offset'', JNumber 0), (''length'', JString ''2'')]) = Some ?entry"
    by (simp add: json_fixture_def)
  then show ?thesis
    unfolding manifest_entry_def
    by (simp only: ok_or_simps and_then_simps fields) (simp add: slice usize_of_u64_def checked_add_def)
qed

theorem manifest_file_well_formed_witness:
  "\<exists>b. manifest_file_with_limits (json_fixture manifest_value) manifest_fs ''/d/m'' 1 4096 = Inr b \<and>
     bundle_ok b \<and> segments b = [segment_new (Gpa 0x1000) [5, 6]]"
proof -
  have "read_file_limited manifest_fs ''/d/m'' DEFAULT_MAX_MANIFEST_SIZE ''snapshot manifest'' = Inr []"
    using capture_loop_iff [of DEFAULT_MAX_MANIFEST_SIZE _ "[]" "[]"]
    by (simp add: read_file_limited_def manifest_fs_open script_file_def DEFAULT_MAX_MANIFEST_SIZE_def
        usize_of_u64_def reservable_def isize_max_def map_err_def ok_or_def)
  moreover have "manifest_root (json_fixture manifest_value) ''/d/m'' [] =
      Inr (''x'', [JObject [(''file'', JString ''a''), (''gpa'', JString ''0x1000''), (''file_offset'', JNumber 0),
       (''length'', JString ''2'')]])"
    by (simp add: manifest_root_def json_fixture_def manifest_value_def from_utf8_def string_of_def map_err_def
        ok_or_def)
  ultimately have run: "manifest_file_with_limits (json_fixture manifest_value) manifest_fs ''/d/m'' 1 4096 =
      Inr (bundle_of ''x'' ''/d/m'' [segment_new (Gpa 0x1000) [5, 6]])"
    by (simp add: manifest_file_with_limits_def manifest_paths manifest_fixture_entry reserve_segment_def
        reservable_def isize_max_def finish_segments_def sort_segments_def)
  then have "bundle_ok (bundle_of ''x'' ''/d/m'' [segment_new (Gpa 0x1000) [5, 6]])"
    using manifest_file_well_formed [OF run manifest_fs_canonical] by blast
  with run show ?thesis
    by (simp add: bundle_of_def)
qed

text \<open>
  Compression is transparent. If the decoder that the magic number selects (gzip, bzip2, xz, zstd
  or zlib) delivers a crash dump within the limit, opening the compressed file gives the same bundle as
  parsing the plain dump; if it delivers anything longer, opening fails.
\<close>

lemma kdmp_file_decodes:
  assumes "fs_open fs path = Inr f" "file_len f = Inr len" "len \<le> maximum" "maximum \<noteq> 0" "unat maximum \<le> isize_max"
    and "stream_content (file_at f 0) = Inr packed" "length packed \<le> unat maximum"
    and decoder: "starts_with packed [0x1f, 0x8b] \<and> r = gz_decoder d packed \<or>
      starts_with packed (bytes_of ''BZh'') \<and> r = bz_decoder d packed \<or>
      starts_with packed (0xfd # bytes_of ''7zXZ'' @ [0]) \<and> r = xz_decoder d packed \<or>
      starts_with packed [0x28, 0xb5, 0x2f, 0xfd] \<and> zstd_decoder d packed = Inr r \<or>
      get_at packed 0 = Some 0x78 \<and> r = zlib_decoder d packed"
    and plain: "stream_content r = Inr plain" "starts_with plain (bytes_of ''PAGEDU64'')"
  shows "if length plain \<le> unat maximum then kdmp_file_with_limit d fs path maximum = from_kdmp path plain
    else isl (kdmp_file_with_limit d fs path maximum)"
proof -
  have res: "reservable (unat maximum)" "reservable (unat len)"
    using assms(3,5) by (auto simp: reservable_def word_le_nat_alt)
  moreover have "\<not> len > maximum" using assms(3) by simp
  ultimately have content: "read_file_limited fs path maximum t = Inr packed" for t
    using assms(1-4,6,7) capture_loop_iff by (simp add: read_file_limited_def usize_of_u64_def)
  have magic: "starts_with (x # xs) (p # ps) \<longleftrightarrow> x = p \<and> starts_with xs ps" for x p :: u8 and xs ps
    by (auto simp: starts_with_def)
  have "packed \<noteq> []"
    using decoder by (auto simp: starts_with_def get_at_def bytes_of_def)
  then obtain x xs where packed: "packed = x # xs" by (cases packed) auto
  from decoder have "\<exists>encoding. decode_kdmp d maximum packed = decode_compressed_kdmp r encoding maximum"
    unfolding packed by (auto simp: decode_kdmp_def magic bytes_of_def get_at_def)
  then obtain encoding where dk: "decode_kdmp d maximum packed = decode_compressed_kdmp r encoding maximum" by blast
  show ?thesis
  proof (cases "length plain \<le> unat maximum")
    case True
    then have "decode_compressed_kdmp r encoding maximum = Inr plain"
      using plain capture_loop_iff [OF res(1)] by (simp add: decode_compressed_kdmp_def)
    with True dk content assms(4) show ?thesis
      by (simp add: kdmp_file_with_limit_def)
  next
    case False
    have "capture_loop t maximum [] r \<noteq> Inr out" for t out
      using False plain(1) capture_loop_iff [OF res(1)] by auto
    then have "\<exists>e. decode_compressed_kdmp r encoding maximum = Inl e"
      unfolding decode_compressed_kdmp_def
      by (cases "capture_loop (decode_texts encoding maximum) maximum [] r") simp_all
    with False dk content assms(4) show ?thesis
      by (auto simp: kdmp_file_with_limit_def)
  qed
qed

definition toy_decoders :: decoders where
  "toy_decoders =
     \<lparr>gz_decoder = (\<lambda>data. [Chunk (drop 2 data)]), bz_decoder = (\<lambda>_. []), xz_decoder = (\<lambda>_. []),
      zlib_decoder = (\<lambda>_. []), zstd_decoder = (\<lambda>_. Inl ''unsupported'')\<rparr>"

text \<open>
  C18: A manifest that is named by a bare file name, without a directory, can never be opened: its parent
  is the empty path, which \<open>canonicalize\<close> does not resolve, and the fallback to \<open>.\<close> applies to a path
  without a parent only.
\<close>

theorem bare_manifest_rejected:
  assumes "CHR ''/'' \<notin> set path" "path \<noteq> []" "fs_canonicalize fs [] = Inl e"
  shows "manifest_base fs path =
      Inl (Backend (''failed to resolve manifest directory for '' @ path @ '': '' @ e)) \<and>
    isl (manifest_file js fs path)"
proof -
  have split: "split_sep acc p = [rev acc @ p]" if "CHR ''/'' \<notin> set p" for acc p
    using that by (induction p arbitrary: acc) auto
  have "\<not> is_absolute path"
    using assms(1,2) by (cases path) (auto simp: is_absolute_def starts_with_def)
  then have "path_components path = [path]"
    using assms(2) split [OF assms(1), of "[]"] by (auto simp: path_components_def Let_def)
  then have "path_parent path = Some []"
    using assms(1) by (auto simp: path_parent_def Let_def)
  then have base: "manifest_base fs path =
      Inl (Backend (''failed to resolve manifest directory for '' @ path @ '': '' @ e))"
    using assms(3) by (simp add: manifest_base_def map_err_def)
  then have "manifest_file js fs path \<noteq> Inr b" for b
    by (auto simp: manifest_file_def manifest_file_with_limits_def split: if_splits prod.splits)
  then have "isl (manifest_file js fs path)"
    by (cases "manifest_file js fs path") auto
  with base show ?thesis by simp
qed

theorem bare_manifest_rejected_witness:
  "isl (manifest_file (json_fixture manifest_value)
     (script_fs [(''m'', script_file 0 []), (''a'', script_file 2 [Chunk [5, 6]])]) ''m'')"
  using bare_manifest_rejected [of "''m''"
      "script_fs [(''m'', script_file 0 []), (''a'', script_file 2 [Chunk [5, 6]])]" "''not found''"
      "json_fixture manifest_value"]
  by (simp add: script_fs_def)

end
