(* ===== verification/Driver_Snapshot.thy ===== *)
theory Driver_Snapshot
  imports Vmi_Core Artifact_Io
begin

text \<open>
  The crates \<open>vmi-driver-dump\<close> and \<open>vmi-driver-snapshot\<close>: connectors over snapshot bundles. The four
  structs of the two crates have the same three fields, so one record serves for all. The locale
  \<open>attach_provider\<close> is the contract of \<open>Connector::connect\<close> that the session layer relies on.
\<close>

section \<open>The contract of connect\<close>

text \<open>
  A connector \<open>c\<close> rejects a request exactly when a required capability is missing, or when its
  selector names another target; otherwise the session reports the connector's descriptor.
\<close>

locale attach_provider =
  fixes fl :: flag_ops
    and usable :: "'c \<Rightarrow> bool"
    and described :: "'c \<Rightarrow> provider_descriptor"
    and named :: "'c \<Rightarrow> string \<Rightarrow> bool"
    and attach_to :: "'c \<Rightarrow> attach_request \<Rightarrow> ('s session \<times> 's) result"
  assumes accepts: "usable c \<Longrightarrow> (\<exists>ops s. attach_to c rq = Inr (ops, s)) \<longleftrightarrow>
      fl_is_empty fl (cap_bits (difference_of fl (required_capabilities rq) (provider_capabilities (described c)))) \<and>
      (\<forall>n. request_selector rq = NamedTarget n \<longrightarrow> named c n)"
    and session_caps: "usable c \<Longrightarrow> attach_to c rq = Inr (ops, s) \<Longrightarrow> capabilities ops s = provider_capabilities (described c)"
    and session_descriptor: "usable c \<Longrightarrow> attach_to c rq = Inr (ops, s) \<Longrightarrow> provider ops s = described c"
begin

text \<open>The connector object that the registry stores.\<close>

definition as_connector :: "'c \<Rightarrow> 's connector" where
  "as_connector c = \<lparr>descriptor = described c, connect = attach_to c\<rparr>"

lemma attach_Inr:
  "vmi_attach (as_connector c) rq = Inr v \<longleftrightarrow>
     (\<exists>ops s. attach_to c rq = Inr (ops, s) \<and> v = \<lparr>session_ops = ops, session_state = s,
        translation_store = \<lparr>capacity = 4096, entries = [], order = []\<rparr>, cache_lock_poisoned = False\<rparr>)"
  by (auto simp: vmi_attach_def as_connector_def cache_new_4096)

lemma attach_capabilities:
  assumes "flags_documented fl" "usable c" "vmi_attach (as_connector c) rq = Inr v"
    "contains_capability fl (required_capabilities rq) cap"
  shows "contains_capability fl (capabilities (session_ops v) (session_state v)) cap"
proof -
  from assms(3) obtain ops s where a: "attach_to c rq = Inr (ops, s)" and v: "session_ops v = ops" "session_state v = s"
    by (auto simp: attach_Inr)
  have "fl_is_empty fl (cap_bits (difference_of fl (required_capabilities rq) (provider_capabilities (described c))))"
    using accepts [OF assms(2), of rq] a by blast
  from difference_empty_imp_contains [OF assms(1) this assms(4)] show ?thesis
    by (simp add: v session_caps [OF assms(2) a])
qed

lemma attach_any_succeeds:
  assumes "usable c" "fl_is_empty fl (cap_bits (difference_of fl caps (provider_capabilities (described c))))"
  shows "\<exists>v. vmi_attach (as_connector c) (attach_any caps) = Inr v"
proof -
  have "\<exists>ops s. attach_to c (attach_any caps) = Inr (ops, s)"
    using assms by (simp add: accepts attach_any_def)
  then show ?thesis by (auto simp: attach_Inr)
qed

end

section \<open>Sessions over a bundle\<close>

record bundle_session =
  bs_descriptor :: provider_descriptor
  bs_target :: target_descriptor
  bs_bundle :: snapshot_bundle

text \<open>Every facet but memory keeps the default of the trait.\<close>

definition dump_read_into :: "bundle_session \<Rightarrow> read_into" where
  "dump_read_into s = bundle_read_into (bs_bundle s)"

definition dump_session_ops :: "bundle_session session" where
  "dump_session_ops =
     \<lparr>provider = bs_descriptor, target = bs_target, capabilities = (\<lambda>s. provider_capabilities (bs_descriptor s)),
      memory_impl = Some (\<lambda>s. Inr dump_read_into), memory_write_impl = None, cpu_impl = None,
      control_impl = None, events_impl = None, views_impl = None, acquisition_impl = None, lifecycle_impl = None\<rparr>"

definition snapshot_read_into :: "bundle_session \<Rightarrow> read_into" where
  "snapshot_read_into s = bundle_read_into (bs_bundle s)"

definition snapshot_session_ops :: "bundle_session session" where
  "snapshot_session_ops =
     \<lparr>provider = bs_descriptor, target = bs_target, capabilities = (\<lambda>s. provider_capabilities (bs_descriptor s)),
      memory_impl = Some (\<lambda>s. Inr snapshot_read_into), memory_write_impl = None, cpu_impl = None,
      control_impl = None, events_impl = None, views_impl = None, acquisition_impl = None, lifecycle_impl = None\<rparr>"

section \<open>The dump connector (vmi-driver-dump/src/lib.rs)\<close>

definition dump_connector_new :: "flag_ops \<Rightarrow> snapshot_bundle \<Rightarrow> guest_architecture \<Rightarrow> bundle_session" where
  "dump_connector_new fl b architecture =
     (let target_name = provenance_source (provenance b) in
      \<lparr>bs_descriptor = provider_descriptor_new ''raw-dump'' ''Raw Memory Dump'' Preview (from_caps fl [MemoryRead]),
       bs_target = target_descriptor_new target_name (Some target_name) architecture ImmutableSnapshot,
       bs_bundle = b\<rparr>)"

definition try_owned_provider_id :: "string \<Rightarrow> string result" where
  "try_owned_provider_id i = try_clone_text Backend ''failed to allocate dump provider ID'' i"

definition dump_connect :: "flag_ops \<Rightarrow> bundle_session \<Rightarrow> attach_request \<Rightarrow> (bundle_session session \<times> bundle_session) result" where
  "dump_connect fl c request =
     (let missing = difference_of fl (required_capabilities request) (provider_capabilities (bs_descriptor c)) in
      if \<not> fl_is_empty fl (cap_bits missing) then
        and_then (try_owned_provider_id (provider_id (bs_descriptor c))) (\<lambda>i. Inl (AttachRejected i missing))
      else
        (case request_selector request of
           NamedTarget expected \<Rightarrow>
             if expected \<noteq> target_id (bs_target c) then
               Inl (Backend (''dump target '' @ expected @ '' not found''))
             else Inr (dump_session_ops, c)
         | AnyTarget \<Rightarrow> Inr (dump_session_ops, c)))"

section \<open>The snapshot connector (vmi-driver-snapshot/src/lib.rs)\<close>

definition try_owned_text :: "string \<Rightarrow> string \<Rightarrow> string result" where
  "try_owned_text v description = try_clone_text Backend (''failed to allocate '' @ description) v"

definition try_snapshot_target_name :: "string \<Rightarrow> string \<Rightarrow> string result" where
  "try_snapshot_target_name source format_name =
     and_then (ok_or (Option.bind (usize_checked_add (length source) (length format_name)) (\<lambda>n. usize_checked_add n 3))
       (Backend ''snapshot target name length overflow'')) (\<lambda>cap.
     if \<not> reservable cap then
       Inl (Backend (''failed to allocate snapshot target name: '' @ capacity_overflow))
     else Inr (source @ '' ('' @ format_name @ '')''))"

definition snapshot_connector_new ::
  "flag_ops \<Rightarrow> string \<Rightarrow> string \<Rightarrow> guest_architecture \<Rightarrow> snapshot_bundle \<Rightarrow> bundle_session result" where
  "snapshot_connector_new fl i name architecture b =
     (if i = [] \<or> name = [] then Inl (Backend ''snapshot provider ID and display name must not be empty'')
      else
        and_then (try_owned_text (provenance_source (provenance b)) ''snapshot target ID'') (\<lambda>source.
        and_then (try_snapshot_target_name (provenance_source (provenance b)) (provenance_format (provenance b)))
          (\<lambda>target_name.
          Inr \<lparr>bs_descriptor = provider_descriptor_new i name Preview (from_caps fl [MemoryRead]),
               bs_target = target_descriptor_new source (Some target_name) architecture ImmutableSnapshot,
               bs_bundle = b\<rparr>)))"

definition snapshot_connect ::
  "flag_ops \<Rightarrow> bundle_session \<Rightarrow> attach_request \<Rightarrow> (bundle_session session \<times> bundle_session) result" where
  "snapshot_connect fl c request =
     (let missing = difference_of fl (required_capabilities request) (provider_capabilities (bs_descriptor c)) in
      if \<not> fl_is_empty fl (cap_bits missing) then
        and_then (try_owned_text (provider_id (bs_descriptor c)) ''snapshot provider ID'')
          (\<lambda>i. Inl (AttachRejected i missing))
      else
        (case request_selector request of
           NamedTarget expected \<Rightarrow>
             if expected \<noteq> target_id (bs_target c) \<and> target_display_name (bs_target c) \<noteq> Some expected then
               Inl (Backend (''snapshot target '' @ expected @ '' not found''))
             else Inr (snapshot_session_ops, c)
         | AnyTarget \<Rightarrow> Inr (snapshot_session_ops, c)))"

definition open_virtualbox_core :: "flag_ops \<Rightarrow> file_system \<Rightarrow> guest_architecture \<Rightarrow> string \<Rightarrow> bundle_session result" where
  "open_virtualbox_core fl fs architecture path =
     and_then (elf_vmcore_file fs path) (snapshot_connector_new fl ''virtualbox-core'' ''VirtualBox VM Core'' architecture)"

definition open_vmware_vmem ::
  "flag_ops \<Rightarrow> file_system \<Rightarrow> guest_architecture \<Rightarrow> string \<Rightarrow> gpa \<Rightarrow> bundle_session result" where
  "open_vmware_vmem fl fs architecture path physical_base =
     and_then (raw_file fs path physical_base) (snapshot_connector_new fl ''vmware'' ''VMware VMEM Snapshot'' architecture)"

definition open_vmware_converted_core ::
  "flag_ops \<Rightarrow> decoders \<Rightarrow> file_system \<Rightarrow> guest_architecture \<Rightarrow> string \<Rightarrow> bundle_session result" where
  "open_vmware_converted_core fl d fs architecture path =
     and_then (converted_core_file d fs path)
       (snapshot_connector_new fl ''vmware-core'' ''VMware Converted Core'' architecture)"

definition open_manifest ::
  "flag_ops \<Rightarrow> 'v json_ops \<Rightarrow> file_system \<Rightarrow> string \<Rightarrow> string \<Rightarrow> guest_architecture \<Rightarrow> string \<Rightarrow> bundle_session result" where
  "open_manifest fl js fs i name architecture path =
     and_then (manifest_file js fs path) (snapshot_connector_new fl i name architecture)"

definition open_hyperv_manifest ::
  "flag_ops \<Rightarrow> 'v json_ops \<Rightarrow> file_system \<Rightarrow> guest_architecture \<Rightarrow> string \<Rightarrow> bundle_session result" where
  "open_hyperv_manifest fl js fs architecture path =
     open_manifest fl js fs ''hyperv'' ''Hyper-V Saved State'' architecture path"

definition open_hyperv_converted_core ::
  "flag_ops \<Rightarrow> decoders \<Rightarrow> file_system \<Rightarrow> guest_architecture \<Rightarrow> string \<Rightarrow> bundle_session result" where
  "open_hyperv_converted_core fl d fs architecture path =
     and_then (converted_core_file d fs path)
       (snapshot_connector_new fl ''hyperv-core'' ''Hyper-V Converted Core'' architecture)"

definition open_bhyve_manifest :: "flag_ops \<Rightarrow> 'v json_ops \<Rightarrow> file_system \<Rightarrow> string \<Rightarrow> bundle_session result" where
  "open_bhyve_manifest fl js fs path = open_manifest fl js fs ''bhyve'' ''bhyve Saved State'' Amd64 path"

definition open_bhyve_converted_core :: "flag_ops \<Rightarrow> decoders \<Rightarrow> file_system \<Rightarrow> string \<Rightarrow> bundle_session result" where
  "open_bhyve_converted_core fl d fs path =
     and_then (converted_core_file d fs path) (snapshot_connector_new fl ''bhyve-core'' ''bhyve Converted Core'' Amd64)"

definition open_firecracker_manifest :: "flag_ops \<Rightarrow> 'v json_ops \<Rightarrow> file_system \<Rightarrow> string \<Rightarrow> bundle_session result" where
  "open_firecracker_manifest fl js fs path =
     open_manifest fl js fs ''firecracker'' ''Firecracker Snapshot'' Amd64 path"

definition open_cloud_hypervisor_manifest ::
  "flag_ops \<Rightarrow> 'v json_ops \<Rightarrow> file_system \<Rightarrow> guest_architecture \<Rightarrow> string \<Rightarrow> bundle_session result" where
  "open_cloud_hypervisor_manifest fl js fs architecture path =
     open_manifest fl js fs ''cloud-hypervisor'' ''Cloud Hypervisor Snapshot'' architecture path"

definition open_xen_core :: "flag_ops \<Rightarrow> file_system \<Rightarrow> guest_architecture \<Rightarrow> string \<Rightarrow> bundle_session result" where
  "open_xen_core fl fs architecture path =
     and_then (xen_core_file fs path) (snapshot_connector_new fl ''xen-core'' ''Xen Core Dump'' architecture)"

definition open_kdmp :: "flag_ops \<Rightarrow> decoders \<Rightarrow> file_system \<Rightarrow> string \<Rightarrow> bundle_session result" where
  "open_kdmp fl d fs path =
     and_then (kdmp_file d fs path)
       (snapshot_connector_new fl ''windows-kdmp'' ''Windows Kernel/Complete Dump'' Amd64)"

section \<open>Both connectors meet the contract\<close>

interpretation dump: attach_provider fl "\<lambda>_. True" bs_descriptor "\<lambda>c n. n = target_id (bs_target c)"
  "dump_connect fl" for fl
  by unfold_locales
    (auto simp: dump_connect_def Let_def dump_session_ops_def split: target_selector.splits if_splits)

interpretation snapshot: attach_provider fl "\<lambda>_. True" bs_descriptor
  "\<lambda>c n. n = target_id (bs_target c) \<or> target_display_name (bs_target c) = Some n" "snapshot_connect fl" for fl
  by unfold_locales
    (auto simp: snapshot_connect_def Let_def snapshot_session_ops_def split: target_selector.splits if_splits)

section \<open>What the openers produce\<close>

lemma from_raw_ok: "try_from_raw source base data = Inr b \<Longrightarrow> bundle_ok b"
  by (auto simp: try_from_raw_def from_raw_def bundle_ok_def segments_sorted_def u64_of_usize_def
      intro!: segment_new_ok split: if_splits)

lemma artifact_files_ok:
  "raw_file fs path base = Inr b \<Longrightarrow> bundle_ok b"
  "elf_vmcore_file fs path = Inr b \<Longrightarrow> bundle_ok b"
  "xen_core_file fs path = Inr b \<Longrightarrow> bundle_ok b"
  "kdmp_file d fs path = Inr b \<Longrightarrow> bundle_ok b"
  "converted_core_file d fs path = Inr b \<Longrightarrow> bundle_ok b"
  "manifest_file js fs path = Inr b \<Longrightarrow> bundle_ok b"
proof -
  show raw: "raw_file fs path base = Inr b \<Longrightarrow> bundle_ok b"
    by (auto simp: raw_file_def raw_file_with_limit_def dest: from_raw_ok)
  show elf: "elf_vmcore_file fs path = Inr b \<Longrightarrow> bundle_ok b"
    by (auto simp: elf_vmcore_file_def elf_vmcore_file_with_limits_def dest: elf_segments)
  show "xen_core_file fs path = Inr b \<Longrightarrow> bundle_ok b"
    by (auto simp: xen_core_file_def xen_core_file_with_limits_def dest: elf_segments)
  show kdmp: "kdmp_file d fs path = Inr b \<Longrightarrow> bundle_ok b"
    by (auto simp: kdmp_file_def kdmp_file_with_limit_def dest: kdmp_segments split: if_splits)
  show "converted_core_file d fs path = Inr b \<Longrightarrow> bundle_ok b"
    using elf kdmp by (auto simp: converted_core_file_def split: if_splits)
  show "manifest_file js fs path = Inr b \<Longrightarrow> bundle_ok b"
    by (auto simp: manifest_file_def dest!: manifest_segments)
qed

lemma snapshot_connector_new_fields:
  "snapshot_connector_new fl i name architecture b = Inr c \<Longrightarrow>
     bs_bundle c = b \<and> provider_id (bs_descriptor c) = i \<and> i \<noteq> [] \<and>
     provider_capabilities (bs_descriptor c) = from_caps fl [MemoryRead] \<and>
     target_id (bs_target c) = provenance_source (provenance b) \<and>
     target_display_name (bs_target c) =
       Some (provenance_source (provenance b) @ '' ('' @ provenance_format (provenance b) @ '')'') \<and>
     target_consistency (bs_target c) = ImmutableSnapshot"
  by (auto simp: snapshot_connector_new_def try_owned_text_def try_clone_text_def try_snapshot_target_name_def
      provider_descriptor_new_def target_descriptor_new_def split: if_splits)

lemmas opener_defs = open_virtualbox_core_def open_vmware_vmem_def open_vmware_converted_core_def open_manifest_def
  open_hyperv_manifest_def open_hyperv_converted_core_def open_bhyve_manifest_def open_bhyve_converted_core_def
  open_firecracker_manifest_def open_cloud_hypervisor_manifest_def open_xen_core_def open_kdmp_def

definition readable_only :: "flag_ops \<Rightarrow> bundle_session \<Rightarrow> bool" where
  "readable_only fl c \<longleftrightarrow> bundle_ok (bs_bundle c) \<and> provider_capabilities (bs_descriptor c) = from_caps fl [MemoryRead] \<and>
     target_consistency (bs_target c) = ImmutableSnapshot"

lemma snapshot_connector_new_ok:
  "snapshot_connector_new fl i name architecture b = Inr c \<Longrightarrow> bundle_ok b \<Longrightarrow> readable_only fl c"
  using snapshot_connector_new_fields by (fastforce simp: readable_only_def)

text \<open>
  C19: Every connector that the snapshot crate opens, from whichever of its eleven artifact kinds,
  holds a well-formed bundle of an immutable target and offers reading of memory as its only capability.
\<close>

theorem opened_connector_ok:
  assumes "Inr c \<in> {open_virtualbox_core fl fs architecture path, open_vmware_vmem fl fs architecture path base,
    open_vmware_converted_core fl d fs architecture path, open_hyperv_manifest fl js fs architecture path,
    open_hyperv_converted_core fl d fs architecture path, open_bhyve_manifest fl js fs path,
    open_bhyve_converted_core fl d fs path, open_firecracker_manifest fl js fs path,
    open_cloud_hypervisor_manifest fl js fs architecture path, open_xen_core fl fs architecture path,
    open_kdmp fl d fs path, open_manifest fl js fs i name architecture path}"
  shows "readable_only fl c"
  using assms unfolding opener_defs
  by (elim insertE) (auto simp: eq_commute [of "Inr c"] intro: snapshot_connector_new_ok artifact_files_ok)

text \<open>The bit operations that the \<open>bitflags\<close> documentation describes.\<close>

definition plain_flags :: flag_ops where
  "plain_flags = \<lparr>fl_insert = (OR), fl_contains = (\<lambda>a b. a AND b = b), fl_difference = (\<lambda>a b. a AND NOT b),
     fl_intersects = (\<lambda>a b. a AND b \<noteq> 0), fl_is_empty = (\<lambda>a. a = 0), fl_empty = 0\<rparr>"

lemma plain_flags_documented: "flags_documented plain_flags"
  by (simp add: flags_documented_def plain_flags_def)

text \<open>A small VMware memory image, as a file and as the connector it opens.\<close>

definition vmem_fs :: "u8 list \<Rightarrow> file_system" where
  "vmem_fs data = script_fs [(''m.vmem'', script_file (of_nat (length data)) [Interrupted, Chunk data])]"

definition vmem_connector :: "u64 \<Rightarrow> u8 list \<Rightarrow> bundle_session" where
  "vmem_connector base data =
     \<lparr>bs_descriptor = provider_descriptor_new ''vmware'' ''VMware VMEM Snapshot'' Preview (from_caps plain_flags [MemoryRead]),
      bs_target = target_descriptor_new ''m.vmem'' (Some ''m.vmem (raw)'') Amd64 ImmutableSnapshot,
      bs_bundle = from_raw ''m.vmem'' (Gpa base) data\<rparr>"

lemma vmem_opens:
  assumes "data \<noteq> []" "length data \<le> 4096" "base \<le> 0x1000"
  shows "read_file_limited (vmem_fs data) ''m.vmem'' DEFAULT_MAX_ARTIFACT_SIZE ''raw artifact'' = Inr data"
    and "open_vmware_vmem plain_flags (vmem_fs data) Amd64 ''m.vmem'' (Gpa base) = Inr (vmem_connector base data)"
proof -
  have len: "unat (of_nat (length data) :: u64) = length data" "u64_of_usize (length data) = Some (of_nat (length data))"
    using assms(2) by (simp_all add: unat_of_nat take_bit_nat_eq_self u64_of_usize_def)
  have "(of_nat (length data) :: u64) \<le> DEFAULT_MAX_ARTIFACT_SIZE"
    using len(1) assms(2) by (simp add: word_le_nat_alt DEFAULT_MAX_ARTIFACT_SIZE_def)
  then show content: "read_file_limited (vmem_fs data) ''m.vmem'' DEFAULT_MAX_ARTIFACT_SIZE ''raw artifact'' = Inr data"
    using capture_loop_iff [of DEFAULT_MAX_ARTIFACT_SIZE _ "[Interrupted, Chunk data]" data] assms len
    by (simp add: read_file_limited_def vmem_fs_def script_fs_def script_file_def DEFAULT_MAX_ARTIFACT_SIZE_def
        usize_of_u64_def reservable_def isize_max_def)
  have "\<not> unat base + length data > u64_limit"
    using assms(2,3) by (simp add: u64_limit_eq word_le_nat_alt)
  then have "raw_file (vmem_fs data) ''m.vmem'' (Gpa base) = Inr (from_raw ''m.vmem'' (Gpa base) data)"
    using content len sat_add_u128_u64 [of base "of_nat (length data)"]
    by (simp add: raw_file_def raw_file_with_limit_def try_from_raw_def)
  then show "open_vmware_vmem plain_flags (vmem_fs data) Amd64 ''m.vmem'' (Gpa base) = Inr (vmem_connector base data)"
    by (simp add: open_vmware_vmem_def snapshot_connector_new_def try_owned_text_def try_clone_text_def
        try_snapshot_target_name_def from_raw_def usize_checked_add_def usize_bound_def reservable_def isize_max_def
        vmem_connector_def)
qed

theorem opened_connector_ok_witness: "readable_only plain_flags (vmem_connector 0x1000 [1, 2, 3, 4])"
  by (rule opened_connector_ok [where fs = "vmem_fs [1, 2, 3, 4]" and architecture = Amd64 and path = "''m.vmem''" and
        base = "Gpa 0x1000" and d = toy_decoders and js = "json_fixture manifest_value"])
    (simp add: vmem_opens)

text \<open>
  C20: Attaching to a dump or to a snapshot succeeds exactly when every required capability is offered
  and the selector is \<open>Any\<close> or names the target (for a snapshot also by its display name); a request for a
  missing capability is rejected with exactly the set of the missing ones.
\<close>

theorem connect_contract:
  assumes "flags_documented fl" "reservable (length (provider_id (bs_descriptor c)))"
  shows "let m = cap_bits (required_capabilities rq) AND NOT (cap_bits (provider_capabilities (bs_descriptor c)));
      rejected = Inl (AttachRejected (provider_id (bs_descriptor c)) (CapabilitySet m)) in
    ((\<exists>s. vmi_attach (dump.as_connector fl c) rq = Inr s) \<longleftrightarrow>
      m = 0 \<and> request_selector rq \<in> {AnyTarget, NamedTarget (target_id (bs_target c))}) \<and>
    ((\<exists>s. vmi_attach (snapshot.as_connector fl c) rq = Inr s) \<longleftrightarrow>
      m = 0 \<and> request_selector rq \<in> {AnyTarget, NamedTarget (target_id (bs_target c))} \<union>
        NamedTarget ` set_option (target_display_name (bs_target c))) \<and>
    (m \<noteq> 0 \<longrightarrow> snapshot_connect fl c rq = rejected \<and> dump_connect fl c rq = rejected)"
proof -
  define m where "m = cap_bits (required_capabilities rq) AND NOT (cap_bits (provider_capabilities (bs_descriptor c)))"
  have "(\<exists>s. vmi_attach (dump.as_connector fl c) rq = Inr s) \<longleftrightarrow>
      m = 0 \<and> request_selector rq \<in> {AnyTarget, NamedTarget (target_id (bs_target c))}"
    using dump.accepts [where c = c and fl = fl and rq = rq]
    by (cases "request_selector rq") (auto simp: dump.attach_Inr flag_laws [OF assms(1)] difference_of_def m_def)
  moreover have "(\<exists>s. vmi_attach (snapshot.as_connector fl c) rq = Inr s) \<longleftrightarrow>
      m = 0 \<and> request_selector rq \<in> {AnyTarget, NamedTarget (target_id (bs_target c))} \<union>
        NamedTarget ` set_option (target_display_name (bs_target c))"
    using snapshot.accepts [where c = c and fl = fl and rq = rq]
    by (cases "request_selector rq")
      (auto simp: snapshot.attach_Inr flag_laws [OF assms(1)] difference_of_def m_def)
  moreover have "m \<noteq> 0 \<Longrightarrow> snapshot_connect fl c rq = Inl (AttachRejected (provider_id (bs_descriptor c)) (CapabilitySet m)) \<and>
        dump_connect fl c rq = Inl (AttachRejected (provider_id (bs_descriptor c)) (CapabilitySet m))"
    using assms(2)
    by (simp add: snapshot_connect_def dump_connect_def Let_def flag_laws [OF assms(1)] difference_of_def
        try_owned_text_def try_owned_provider_id_def try_clone_text_def m_def)
  ultimately show ?thesis
    unfolding m_def [symmetric] Let_def by blast
qed

theorem connect_contract_witness:
  "(\<exists>s. vmi_attach (snapshot.as_connector plain_flags (vmem_connector 0 [1]))
     (attach_named ''m.vmem (raw)'' (CapabilitySet 1)) = Inr s) \<and>
   (\<nexists>s. vmi_attach (dump.as_connector plain_flags (vmem_connector 0 [1]))
     (attach_named ''m.vmem (raw)'' (CapabilitySet 1)) = Inr s) \<and>
   snapshot_connect plain_flags (vmem_connector 0 [1]) (attach_any (CapabilitySet 3)) =
     Inl (AttachRejected ''vmware'' (CapabilitySet 2))"
proof -
  have caps: "cap_bits (provider_capabilities (bs_descriptor (vmem_connector 0 [1]))) = 1"
    by (simp add: vmem_connector_def provider_descriptor_new_def from_caps_def insert_capability_def plain_flags_def)
  have "reservable (length (provider_id (bs_descriptor (vmem_connector 0 [1]))))"
    by (simp add: vmem_connector_def provider_descriptor_new_def reservable_def isize_max_def)
  note law = connect_contract [OF plain_flags_documented this, unfolded Let_def caps]
  show ?thesis
    using law [of "attach_named ''m.vmem (raw)'' (CapabilitySet 1)"] law [of "attach_any (CapabilitySet 3)"]
    by (simp add: attach_named_def attach_any_def)
      (simp add: vmem_connector_def provider_descriptor_new_def target_descriptor_new_def)
qed

text \<open>The bytes of a raw image, by physical address.\<close>

lemma raw_bundle_byte:
  fixes p :: u64
  assumes "try_from_raw source base data = Inr b"
  shows "bundle_byte b (unat p) = Some v \<longleftrightarrow>
    gpa_raw base \<le> p \<and> get_at data (unat p - unat (gpa_raw base)) = Some v"
proof -
  have b: "b = from_raw source base data" "length data < 2 ^ 64"
    using assms by (auto simp: try_from_raw_def u64_of_usize_def split: if_splits)
  have ok: "segment_ok (segment_new base data)"
    by (rule segment_new_ok [OF b(2)])
  have "seg_start (segment_new base data) = unat (gpa_raw base)"
    by (simp add: seg_start_def segment_new_def range_new_def)
  then show ?thesis
    using seg_end_ok [OF ok] u64_unat_bound [of p]
    by (auto simp: b bundle_byte_def from_raw_def get_at_def word_le_nat_alt)
qed

end
