(* ===== verification/Publish.thy ===== *)
theory Publish
  imports Std_Io
begin

text \<open>
  Atomic publication of an acquired artifact, as \<open>vmi-testkit/src/fake_provider.rs\<close> and the
  VirtualBox and Xen drivers do it: write a
  temporary file, synchronise it, link it to its destination without replacing anything, remove the
  temporary name. The disk is a map from paths to contents; any call may fail as \<open>publish_faults\<close> says, a
  failing write after some of its bytes.
\<close>

section \<open>The disk\<close>

type_synonym disk = "(string \<times> u8 list) list"

definition os_exists :: string where
  "os_exists = ''File exists (os error 17)''"

definition os_missing :: string where
  "os_missing = ''No such file or directory (os error 2)''"

definition disk_create_new :: "string option \<Rightarrow> string \<Rightarrow> disk \<Rightarrow> disk \<times> (string + unit)" where
  "disk_create_new fault p d =
     (case fault of
        Some e \<Rightarrow> (d, Inl e)
      | None \<Rightarrow> if map_of d p \<noteq> None then (d, Inl os_exists) else (AList.update p [] d, Inr ()))"

definition disk_write_all :: "(nat \<times> string) option \<Rightarrow> string \<Rightarrow> u8 list \<Rightarrow> disk \<Rightarrow> disk \<times> (string + unit)" where
  "disk_write_all fault p bytes d =
     (case fault of
        Some (n, e) \<Rightarrow> (AList.update p (take n bytes) d, Inl e)
      | None \<Rightarrow> (AList.update p bytes d, Inr ()))"

definition disk_hard_link :: "string option \<Rightarrow> string \<Rightarrow> string \<Rightarrow> disk \<Rightarrow> disk \<times> (string + unit)" where
  "disk_hard_link fault original new d =
     (case fault of
        Some e \<Rightarrow> (d, Inl e)
      | None \<Rightarrow>
          (case map_of d original of
             None \<Rightarrow> (d, Inl os_missing)
           | Some bytes \<Rightarrow>
               if map_of d new \<noteq> None then (d, Inl os_exists) else (AList.update new bytes d, Inr ())))"

definition disk_remove_file :: "string option \<Rightarrow> string \<Rightarrow> disk \<Rightarrow> disk \<times> (string + unit)" where
  "disk_remove_file fault p d =
     (case fault of
        Some e \<Rightarrow> (d, Inl e)
      | None \<Rightarrow> if map_of d p = None then (d, Inl os_missing) else (AList.delete p d, Inr ()))"

record publish_faults =
  fault_open :: "string option"
  fault_write :: "(nat \<times> string) option"
  fault_sync :: "string option"
  fault_link :: "string option"
  fault_remove :: "string option"
  fault_cleanup :: "string option"

section \<open>Temporary names\<close>

text \<open>
  The same protocol is written out in the test kit and in the VirtualBox and Xen drivers; only the texts of its
  errors and names differ, which \<open>publish_texts\<close> collects.
\<close>

record publish_texts =
  text_no_name :: string
  text_sequence :: string
  text_names :: string
  text_suffix :: string
  text_create :: "string \<Rightarrow> vmi_error"
  text_write :: "string \<Rightarrow> vmi_error"
  text_link :: "string \<Rightarrow> string \<Rightarrow> vmi_error"
  text_remove :: "string \<Rightarrow> string \<Rightarrow> vmi_error"

text \<open>
  The identifier counter is shared by all threads: \<open>observed\<close> lists the values that failing
  compare-and-exchange calls saw before one succeeded. The new value of the counter is returned too.
\<close>

fun next_temp_id :: "string \<Rightarrow> u64 \<Rightarrow> u64 list \<Rightarrow> (u64 \<times> u64) result" where
  "next_temp_id description current [] =
     and_then (ok_or (checked_add current 1) (Backend (description @ '' identifier space exhausted''))) (\<lambda>next.
       Inr (current, next))"
| "next_temp_id description current (seen # observed) =
     and_then (ok_or (checked_add current 1) (Backend (description @ '' identifier space exhausted''))) (\<lambda>_.
       next_temp_id description seen observed)"

definition path_file_name :: "string \<Rightarrow> string option" where
  "path_file_name p =
     (let names = path_components p in
      if names = [] \<or> last names \<in> {''/'', ''.'', ''..''} then None else Some (last names))"

definition try_native_temp_name :: "string \<Rightarrow> string \<Rightarrow> string \<Rightarrow> string result" where
  "try_native_temp_name name suffix description =
     and_then (ok_or (Option.bind (usize_checked_add (length name) (length suffix)) (\<lambda>n. usize_checked_add n 1))
       (Backend (description @ '' filename length overflow''))) (\<lambda>cap.
     if \<not> reservable cap then
       Inl (Backend (''failed to allocate '' @ description @ '' filename: '' @ capacity_overflow))
     else Inr (''.'' @ name @ suffix))"

definition try_child_path :: "string \<Rightarrow> string \<Rightarrow> string \<Rightarrow> string result" where
  "try_child_path parent name description =
     and_then (ok_or (Option.bind (usize_checked_add (length parent) (length name)) (\<lambda>n. usize_checked_add n 1))
       (Backend (description @ '' path length overflow''))) (\<lambda>cap.
     if \<not> reservable cap then
       Inl (Backend (''failed to allocate '' @ description @ '' path: '' @ capacity_overflow))
     else Inr (path_join parent name))"

section \<open>Publication\<close>

definition fake_io :: "string \<Rightarrow> vmi_error" where
  "fake_io error = Backend (''fake acquisition I/O failed: '' @ error)"

definition fake_texts :: publish_texts where
  "fake_texts = \<lparr>text_no_name = ''fake acquisition destination has no file name'',
     text_sequence = ''fake acquisition'', text_names = ''fake acquisition'', text_suffix = ''.vmi-tmp-'',
     text_create = fake_io, text_write = fake_io, text_link = (\<lambda>_. fake_io), text_remove = (\<lambda>_. fake_io)\<rparr>"

text \<open>The closure that writes, synchronises, links and removes; the first error ends it.\<close>

definition publish_steps ::
  "publish_texts \<Rightarrow> publish_faults \<Rightarrow> string \<Rightarrow> string \<Rightarrow> u8 list \<Rightarrow> disk \<Rightarrow> disk \<times> unit result" where
  "publish_steps texts faults temp_path path bytes d0 =
     (case disk_create_new (fault_open faults) temp_path d0 of
        (d1, Inl e) \<Rightarrow> (d1, Inl (text_create texts e))
      | (d1, Inr _) \<Rightarrow>
          (case disk_write_all (fault_write faults) temp_path bytes d1 of
             (d2, Inl e) \<Rightarrow> (d2, Inl (text_write texts e))
           | (d2, Inr _) \<Rightarrow>
               (case fault_sync faults of
                  Some e \<Rightarrow> (d2, Inl (text_write texts e))
                | None \<Rightarrow>
                    (case disk_hard_link (fault_link faults) temp_path path d2 of
                       (d3, Inl e) \<Rightarrow> (d3, Inl (text_link texts path e))
                     | (d3, Inr _) \<Rightarrow>
                         (case disk_remove_file (fault_remove faults) temp_path d3 of
                            (d4, r) \<Rightarrow> (d4, map_err (text_remove texts path) r))))))"

definition temp_path_of :: "publish_texts \<Rightarrow> u64 \<Rightarrow> string \<Rightarrow> u64 \<Rightarrow> string result" where
  "temp_path_of texts pid path sequence =
     (let parent = (case path_parent path of Some p \<Rightarrow> p | None \<Rightarrow> ''.'') in
      and_then (ok_or (path_file_name path) (Backend (text_no_name texts))) (\<lambda>name.
      and_then (try_native_temp_name name (text_suffix texts @ dec (unat pid) @ ''-'' @ dec (unat sequence))
          (text_names texts))
        (\<lambda>temp_name. try_child_path parent temp_name (text_names texts))))"

definition publish_atomically ::
  "publish_texts \<Rightarrow> publish_faults \<Rightarrow> u64 \<Rightarrow> u64 list \<Rightarrow> string \<Rightarrow> u8 list \<Rightarrow> disk \<times> u64 \<Rightarrow> (disk \<times> u64) \<times> unit result" where
  "publish_atomically texts faults pid observed path bytes = (\<lambda>(d, counter).
     case path_file_name path of
       None \<Rightarrow> ((d, counter), Inl (Backend (text_no_name texts)))
     | Some _ \<Rightarrow>
         (case next_temp_id (text_sequence texts) counter observed of
            Inl e \<Rightarrow> ((d, counter), Inl e)
          | Inr (sequence, counter') \<Rightarrow>
              (case temp_path_of texts pid path sequence of
                 Inl e \<Rightarrow> ((d, counter'), Inl e)
               | Inr temp_path \<Rightarrow>
                   (case publish_steps texts faults temp_path path bytes d of
                      (d', Inr _) \<Rightarrow> ((d', counter'), Inr ())
                    | (d', Inl e) \<Rightarrow>
                        ((fst (disk_remove_file (fault_cleanup faults) temp_path d'), counter'), Inl e)))))"

section \<open>What publication leaves on the disk\<close>

lemma next_temp_id_fresh: "next_temp_id description c observed = Inr (i, c') \<Longrightarrow> unat c' = unat i + 1"
  by (induction description c observed rule: next_temp_id.induct) (auto dest: unat_checked_add)

lemma publish_steps_disk:
  assumes "publish_steps texts faults temp path bytes d = (d', r)" "temp \<noteq> path"
  shows "\<forall>p. p \<noteq> temp \<and> p \<noteq> path \<longrightarrow> map_of d' p = map_of d p"
    "map_of d' path = map_of d path \<or> map_of d path = None \<and> map_of d' path = Some bytes"
    "r = Inr () \<Longrightarrow> map_of d path = None \<and> map_of d temp = None \<and> map_of d' path = Some bytes \<and> map_of d' temp = None"
    "map_of d temp \<noteq> None \<Longrightarrow> d' = d"
  using assms
  by (auto simp: publish_steps_def disk_create_new_def disk_write_all_def disk_hard_link_def disk_remove_file_def
      map_err_def update_conv' delete_conv' split: option.splits if_splits prod.splits)

text \<open>The temporary path names another file than the destination.\<close>

lemma split_sep_no_sep: "CHR ''/'' \<notin> set t \<Longrightarrow> split_sep acc t = [rev acc @ t]"
  by (induction t arbitrary: acc) auto

lemma split_sep_append: "split_sep acc (xs @ CHR ''/'' # t) = split_sep acc xs @ split_sep [] t"
  by (induction xs arbitrary: acc) auto

lemma split_sep_members: "n \<in> set (split_sep acc p) \<Longrightarrow> CHR ''/'' \<notin> set acc \<Longrightarrow> CHR ''/'' \<notin> set n"
  by (induction p arbitrary: acc) (auto split: if_splits, metis empty_iff list.set(1))

lemma path_components_join:
  assumes "CHR ''/'' \<notin> set t" "t \<noteq> []" "t \<noteq> ''.''"
  shows "last (path_components (path_join base t)) = t"
proof -
  have rel: "\<not> is_absolute t"
    using assms(1,2) by (cases t) (auto simp: is_absolute_def starts_with_def)
  have "\<exists>xs. split_sep [] (path_join base t) = xs @ [t]"
  proof (cases "base = [] \<or> last base = CHR ''/''")
    case True
    then consider "base = []" | ys where "base = ys @ ''/''"
      by (metis append_butlast_last_id)
    then show ?thesis
      by cases (use rel assms(1) in \<open>simp_all add: path_join_def split_sep_append split_sep_no_sep\<close>)
  next
    case False
    then show ?thesis
      using rel assms(1) by (simp add: path_join_def split_sep_append split_sep_no_sep)
  qed
  then show ?thesis
    using assms(2,3) by (auto simp: path_components_def Let_def)
qed

lemma fmt_radix_no_sep: "CHR ''/'' \<notin> set (fmt_radix r n)"
proof (induction r n rule: fmt_radix.induct)
  case (1 r n)
  have "CHR ''/'' \<noteq> digit_char d" for d
    unfolding digit_char_def by (auto simp: less_Suc_eq numeral_eq_Suc)
  then show ?case
    using 1 by (subst fmt_radix.simps) auto
qed

lemma path_file_name_no_sep: "path_file_name p = Some n \<Longrightarrow> CHR ''/'' \<notin> set n"
proof -
  assume n: "path_file_name p = Some n"
  then have "n \<in> set (path_components p)" "n \<noteq> ''/''"
    by (auto simp: path_file_name_def Let_def split: if_splits)
  then show ?thesis
    using split_sep_members [of n "[]" p] by (auto simp: path_components_def Let_def split: if_splits)
qed

lemma temp_path_distinct:
  assumes "temp_path_of texts pid path sequence = Inr temp" "CHR ''/'' \<notin> set (text_suffix texts)"
  shows "temp \<noteq> path"
proof
  assume eq: "temp = path"
  from assms(1) obtain name parent where name: "path_file_name path = Some name"
    and temp: "temp = path_join parent (''.'' @ name @ text_suffix texts @ dec (unat pid) @ ''-'' @ dec (unat sequence))"
    by (auto simp: temp_path_of_def Let_def try_native_temp_name_def try_child_path_def split: if_splits)
  let ?t = "''.'' @ name @ text_suffix texts @ dec (unat pid) @ ''-'' @ dec (unat sequence)"
  have "CHR ''/'' \<notin> set ?t"
    using path_file_name_no_sep [OF name] fmt_radix_no_sep assms(2) by (simp add: dec_def)
  from path_components_join [OF this, of parent] have "last (path_components path) = ?t"
    using eq temp by simp
  moreover have "last (path_components path) = name"
    using name by (auto simp: path_file_name_def Let_def split: if_splits)
  ultimately have "length name = length ?t" by simp
  then show False by simp
qed

text \<open>What a successful publication changes, for the clients of the protocol.\<close>

lemma publish_atomically_Inr:
  assumes "publish_atomically texts faults pid observed path bytes (d, counter) = ((d', counter'), Inr ())"
    "CHR ''/'' \<notin> set (text_suffix texts)"
  shows "map_of d path = None" "map_of d' = (map_of d)(path \<mapsto> bytes)"
proof -
  obtain sequence temp where temp: "temp_path_of texts pid path sequence = Inr temp"
    and steps: "publish_steps texts faults temp path bytes d = (d', Inr ())"
    using assms(1) by (auto simp: publish_atomically_def split: option.splits sum.splits prod.splits)
  note disk = publish_steps_disk [OF steps temp_path_distinct [OF temp assms(2)]]
  show "map_of d path = None" using disk(3) by simp
  show "map_of d' = (map_of d)(path \<mapsto> bytes)"
  proof
    show "map_of d' p = ((map_of d)(path \<mapsto> bytes)) p" for p
      using disk(1,3) by (cases "p = temp") auto
  qed
qed

text \<open>
  C21: Publication is atomic. Whatever calls fail, in whatever order, the destination either keeps its
  previous content or, if it did not exist, holds exactly the published bytes; it is never replaced or
  left half-written. Success means that the destination was created and the temporary name is gone, and no
  third file is ever touched. This holds for each of the crates that publish
  this way, as their suffixes contain no separator.
\<close>

theorem publish_atomically_atomic:
  assumes "publish_atomically texts faults pid observed path bytes (d, counter) = ((d', counter'), r)"
    "CHR ''/'' \<notin> set (text_suffix texts)"
  shows "(map_of d' path = map_of d path \<or> map_of d path = None \<and> map_of d' path = Some bytes) \<and>
    (r = Inr () \<longrightarrow> map_of d path = None \<and> map_of d' path = Some bytes) \<and>
    (\<exists>temp. temp \<noteq> path \<and> (r = Inr () \<longrightarrow> map_of d' temp = None) \<and>
      (\<forall>p. p \<noteq> temp \<and> p \<noteq> path \<longrightarrow> map_of d' p = map_of d p))"
proof (cases "d' = d \<and> isl r")
  case True
  have "path @ ''x'' \<noteq> path" by simp
  with True show ?thesis by auto
next
  case False
  with assms(1) obtain sequence temp d1 r1 where temp: "temp_path_of texts pid path sequence = Inr temp"
    and steps: "publish_steps texts faults temp path bytes d = (d1, r1)"
    and fin: "r1 = Inr () \<and> d' = d1 \<and> r = Inr () \<or>
      isl r1 \<and> isl r \<and> d' = fst (disk_remove_file (fault_cleanup faults) temp d1)"
    by (auto simp: publish_atomically_def split: option.splits sum.splits prod.splits)
  note distinct = temp_path_distinct [OF temp assms(2)]
  note disk = publish_steps_disk [OF steps distinct]
  have "map_of d' p = map_of d1 p" if "p \<noteq> temp" for p
    using fin that by (auto simp: disk_remove_file_def delete_conv' split: option.splits)
  with disk fin distinct show ?thesis by (intro conjI exI [of _ temp]) auto
qed

definition no_faults :: publish_faults where
  "no_faults = \<lparr>fault_open = None, fault_write = None, fault_sync = None, fault_link = None, fault_remove = None,
     fault_cleanup = None\<rparr>"

theorem publish_atomically_atomic_witness:
  "\<exists>d' c. publish_atomically fake_texts no_faults 7 [3] ''a'' [1, 2] ([], 2) = ((d', c), Inr ()) \<and> map_of d' ''a'' = Some [1, 2]"
proof -
  have name: "path_file_name ''a'' = Some ''a''" "path_parent ''a'' = Some []"
    by (simp_all add: path_file_name_def path_parent_def path_components_def is_absolute_def starts_with_def Let_def)
  have dec: "dec 7 = ''7''" "dec 3 = ''3''"
    by (simp_all add: dec_def fmt_radix.simps digit_char_def)
  have "\<exists>d' c. publish_atomically fake_texts no_faults 7 [3] ''a'' [1, 2] ([], 2) = ((d', c), Inr ())"
    by (simp add: publish_atomically_def name checked_add_def temp_path_of_def try_native_temp_name_def
        try_child_path_def usize_checked_add_def usize_bound_def reservable_def isize_max_def dec
        publish_steps_def no_faults_def fake_texts_def disk_create_new_def disk_write_all_def disk_hard_link_def
        disk_remove_file_def path_join_def is_absolute_def starts_with_def)
  then obtain d' c where run: "publish_atomically fake_texts no_faults 7 [3] ''a'' [1, 2] ([], 2) = ((d', c), Inr ())" by blast
  with publish_atomically_atomic [OF run] show ?thesis by (simp add: fake_texts_def)
qed

text \<open>The cleanup after a failure also removes a file of that temporary name that was there before.\<close>

lemma publish_removes_foreign_temp:
  assumes "path_file_name path \<noteq> None" "next_temp_id (text_sequence texts) counter observed = Inr (sequence, counter')"
    "temp_path_of texts pid path sequence = Inr temp" "map_of d temp \<noteq> None"
  shows "\<exists>d' e. publish_atomically texts no_faults pid observed path bytes (d, counter) = ((d', counter'), Inl e) \<and>
    map_of d' temp = None"
  using assms
  by (auto simp: publish_atomically_def publish_steps_def disk_create_new_def disk_remove_file_def no_faults_def
      delete_conv')

end
