(* ===== verification/Fake_Provider.thy ===== *)
theory Fake_Provider
  imports Driver_Snapshot Publish
begin

text \<open>
  The crate \<open>vmi-testkit\<close>: the fake provider, a writable sparse memory with registers, events, views,
  acquisition and injected faults. It implements every trait of the driver API. Each mutex is an entry of
  \<open>fake_mutex\<close> that may be poisoned; the temporary-file counter and the disk, which are global to the
  process, are part of the session's state.
\<close>

section \<open>Connectors (fake_provider.rs)\<close>

record sparse_segment =
  sparse_start :: gpa
  sparse_bytes :: "u8 list"

definition sparse_segment_new :: "gpa \<Rightarrow> u8 list \<Rightarrow> sparse_segment" where
  "sparse_segment_new start bytes = \<lparr>sparse_start = start, sparse_bytes = bytes\<rparr>"

record fake_connector =
  fc_descriptor :: provider_descriptor
  fc_target :: target_descriptor
  fc_capabilities :: capability_set
  fc_segments :: "sparse_segment list"
  fc_registers :: "((u32 \<times> string) \<times> u64) list"
  fc_events :: "vmi_event list"
  fc_read_faults :: "u64 list"
  fc_write_faults :: "u64 list"

definition fake_connector_new :: "flag_ops \<Rightarrow> fake_connector" where
  "fake_connector_new fl =
     (let caps = from_caps fl [MemoryRead] in
      \<lparr>fc_descriptor = provider_descriptor_new ''fake-read-only'' ''Fake Read-Only Provider'' Supported caps,
       fc_target = target_descriptor_new ''fake-target'' (Some ''Fake Target'') Amd64 ImmutableSnapshot,
       fc_capabilities = caps, fc_segments = [], fc_registers = [], fc_events = [],
       fc_read_faults = [], fc_write_faults = []\<rparr>)"

definition with_capabilities :: "fake_connector \<Rightarrow> capability_set \<Rightarrow> fake_connector" where
  "with_capabilities c caps =
     c\<lparr>fc_capabilities := caps, fc_descriptor := (fc_descriptor c)\<lparr>provider_capabilities := caps\<rparr>\<rparr>"

definition with_segment :: "fake_connector \<Rightarrow> gpa \<Rightarrow> u8 list \<Rightarrow> fake_connector" where
  "with_segment c start bytes = c\<lparr>fc_segments := fc_segments c @ [sparse_segment_new start bytes]\<rparr>"

definition with_register :: "fake_connector \<Rightarrow> u32 \<Rightarrow> string \<Rightarrow> u64 \<Rightarrow> fake_connector" where
  "with_register c vcpu reg v = c\<lparr>fc_registers := AList.update (vcpu, reg) v (fc_registers c)\<rparr>"

definition with_event :: "fake_connector \<Rightarrow> vmi_event \<Rightarrow> fake_connector" where
  "with_event c event = c\<lparr>fc_events := fc_events c @ [event]\<rparr>"

definition with_read_fault :: "fake_connector \<Rightarrow> gpa \<Rightarrow> fake_connector" where
  "with_read_fault c address = c\<lparr>fc_read_faults := List.insert (gpa_raw address) (fc_read_faults c)\<rparr>"

definition with_write_fault :: "fake_connector \<Rightarrow> gpa \<Rightarrow> fake_connector" where
  "with_write_fault c address = c\<lparr>fc_write_faults := List.insert (gpa_raw address) (fc_write_faults c)\<rparr>"

definition fake_owned_text :: "string \<Rightarrow> string \<Rightarrow> string result" where
  "fake_owned_text v description = try_clone_text Backend (''failed to allocate '' @ description) v"

text \<open>The ranges of non-empty segments must end by \<open>2 ^ 64\<close> and must not overlap.\<close>

definition sparse_range :: "sparse_segment \<Rightarrow> u128 \<times> u128" where
  "sparse_range s =
     (let start = unat (gpa_raw (sparse_start s)) in (start, sat_add_u128 start (length (sparse_bytes s))))"

fun overlap_check :: "(u128 \<times> u128) list \<Rightarrow> unit result" where
  "overlap_check (previous # current # rest) =
     (if fst current < snd previous then
        Inl (Backend (''fake sparse segments overlap at 0x'' @ fmt_radix 16 (fst current)))
      else overlap_check (current # rest))"
| "overlap_check _ = Inr ()"

definition validate_segments :: "sparse_segment list \<Rightarrow> unit result" where
  "validate_segments segs =
     (let ranges = map sparse_range (filter (\<lambda>s. sparse_bytes s \<noteq> []) segs) in
      case find (\<lambda>r. snd r > sat_add_u128 (2 ^ 64 - 1) 1) ranges of
        Some (start, _) \<Rightarrow>
          Inl (Backend (''fake sparse segment at 0x'' @ fmt_radix 16 start @ '' exceeds the physical address space''))
      | None \<Rightarrow> overlap_check (sort_key fst (sort_key snd ranges)))"

section \<open>Sessions\<close>

datatype fake_mutex = MSegments | MRegisters | MExecution | MEvents | MView | MLifecycle

record fake_session =
  fk_provider :: provider_descriptor
  fk_target :: target_descriptor
  fk_capabilities :: capability_set
  fk_segments :: "sparse_segment list"
  fk_registers :: "((u32 \<times> string) \<times> u64) list"
  fk_execution :: execution_state
  fk_events :: "vmi_event list"
  fk_view :: u16
  fk_read_faults :: "u64 list"
  fk_write_faults :: "u64 list"
  fk_generation :: u64
  fk_lifecycle :: "lifecycle_event list"
  fk_poisoned :: "fake_mutex list"
  fk_disk :: disk
  fk_temp_counter :: u64

definition fake_lock :: "string \<Rightarrow> vmi_error" where
  "fake_lock error = Backend (''fake provider lock failed: '' @ error)"

definition lock_fake :: "(string \<Rightarrow> vmi_error) \<Rightarrow> fake_mutex \<Rightarrow> fake_session \<Rightarrow> unit result" where
  "lock_fake err m s = (if m \<in> set (fk_poisoned s) then Inl (err poisoned_lock) else Inr ())"

definition memory_lock :: "string \<Rightarrow> vmi_error" where
  "memory_lock error = Backend (''fake memory lock failed: '' @ error)"

definition fake_missing :: "fake_session \<Rightarrow> capability \<Rightarrow> vmi_error result" where
  "fake_missing s capability =
     and_then (fake_owned_text (provider_id (fk_provider s)) ''fake provider ID'') (\<lambda>i.
       Inr (CapabilityMissing i capability))"

definition fake_require :: "flag_ops \<Rightarrow> fake_session \<Rightarrow> capability \<Rightarrow> unit result" where
  "fake_require fl s capability =
     (if contains_capability fl (fk_capabilities s) capability then Inr () else err_of (fake_missing s capability))"

definition fake_facet :: "flag_ops \<Rightarrow> capability \<Rightarrow> 'f \<Rightarrow> fake_session \<Rightarrow> 'f result" where
  "fake_facet fl capability v s =
     (if contains_capability fl (fk_capabilities s) capability then Inr v else err_of (fake_missing s capability))"

text \<open>An operation that changes the state behind its guards; a failing guard leaves it as it was.\<close>

definition guarded :: "unit result \<Rightarrow> ('s \<Rightarrow> 's \<times> 'a result) \<Rightarrow> 's \<Rightarrow> 's \<times> 'a result" where
  "guarded g f s = (case g of Inl e \<Rightarrow> (s, Inl e) | Inr _ \<Rightarrow> f s)"

subsection \<open>Memory\<close>

definition segment_offset :: "sparse_segment \<Rightarrow> u64 \<Rightarrow> usize option" where
  "segment_offset seg absolute =
     Option.bind (checked_sub absolute (gpa_raw (sparse_start seg))) (\<lambda>offset.
     Option.bind (usize_of_u64 offset) (\<lambda>n. if n < length (sparse_bytes seg) then Some n else None))"

fun sparse_lookup :: "sparse_segment list \<Rightarrow> u64 \<Rightarrow> u8 option" where
  "sparse_lookup [] absolute = None"
| "sparse_lookup (seg # segs) absolute =
     (case Option.bind (segment_offset seg absolute) (get_at (sparse_bytes seg)) of
        Some byte \<Rightarrow> Some byte
      | None \<Rightarrow> sparse_lookup segs absolute)"

fun sparse_store :: "sparse_segment list \<Rightarrow> u64 \<Rightarrow> u8 \<Rightarrow> sparse_segment list option" where
  "sparse_store [] absolute v = None"
| "sparse_store (seg # segs) absolute v =
     (case segment_offset seg absolute of
        Some offset \<Rightarrow> Some (seg\<lparr>sparse_bytes := (sparse_bytes seg)[offset := v]\<rparr> # segs)
      | None \<Rightarrow> map_option (\<lambda>segs'. seg # segs') (sparse_store segs absolute v))"

definition sparse_read_byte :: "fake_session \<Rightarrow> gpa \<Rightarrow> usize \<Rightarrow> usize \<Rightarrow> u8 result" where
  "sparse_read_byte s address buffer_len index =
     and_then (ok_or (u64_of_usize index) (ReadFailed (gpa_raw address) buffer_len)) (\<lambda>i.
     and_then (ok_or (checked_add (gpa_raw address) i) (ReadFailed (gpa_raw address) buffer_len)) (\<lambda>absolute.
     if absolute \<in> set (fk_read_faults s) then
       Inl (Backend (''injected fake read fault at '' @ hex0x absolute))
     else ok_or (sparse_lookup (fk_segments s) absolute) (ReadFailed absolute 1)))"

fun sparse_read_loop :: "fake_session \<Rightarrow> gpa \<Rightarrow> usize \<Rightarrow> usize \<Rightarrow> u8 list \<Rightarrow> u8 list \<times> unit result" where
  "sparse_read_loop s address buffer_len index [] = ([], Inr ())"
| "sparse_read_loop s address buffer_len index (slot # slots) =
     (case sparse_read_byte s address buffer_len index of
        Inl e \<Rightarrow> (slot # slots, Inl e)
      | Inr byte \<Rightarrow>
          (case sparse_read_loop s address buffer_len (index + 1) slots of (rest, r) \<Rightarrow> (byte # rest, r)))"

definition read_sparse_into :: "fake_session \<Rightarrow> read_into" where
  "read_sparse_into s address buffer =
     (case lock_fake memory_lock MSegments s of
        Inl e \<Rightarrow> (buffer, Inl e)
      | Inr _ \<Rightarrow> sparse_read_loop s address (length buffer) 0 buffer)"

definition fake_read_into :: "flag_ops \<Rightarrow> fake_session \<Rightarrow> read_into" where
  "fake_read_into fl s address buffer =
     (case fake_require fl s MemoryRead of
        Inl e \<Rightarrow> (buffer, Inl e)
      | Inr _ \<Rightarrow> read_sparse_into s address buffer)"

fun sparse_write_loop :: "gpa \<Rightarrow> usize \<Rightarrow> usize \<Rightarrow> u8 list \<Rightarrow> fake_session \<Rightarrow> fake_session \<times> unit result" where
  "sparse_write_loop address len index [] s = (s, Inr ())"
| "sparse_write_loop address len index (v # vs) s =
     (case and_then (ok_or (u64_of_usize index)
          (Backend ''fake sparse write index does not fit the address model'')) (\<lambda>i.
        ok_or (checked_add (gpa_raw address) i) (ReadFailed (gpa_raw address) len)) of
        Inl e \<Rightarrow> (s, Inl e)
      | Inr absolute \<Rightarrow>
          if absolute \<in> set (fk_write_faults s) then
            (s, Inl (Backend (''injected fake write fault at '' @ hex0x absolute)))
          else
            (case sparse_store (fk_segments s) absolute v of
               None \<Rightarrow> (s, Inl (ReadFailed absolute 1))
             | Some segs \<Rightarrow> sparse_write_loop address len (index + 1) vs (s\<lparr>fk_segments := segs\<rparr>)))"

definition fake_write :: "flag_ops \<Rightarrow> fake_session memory_write_access" where
  "fake_write fl s address data =
     guarded (fake_require fl s MemoryWrite) (\<lambda>s.
       guarded (lock_fake memory_lock MSegments s) (sparse_write_loop address (length data) 0 data) s) s"

subsection \<open>The other facets\<close>

definition fake_read_register :: "flag_ops \<Rightarrow> fake_session \<Rightarrow> u32 \<Rightarrow> string \<Rightarrow> u64 result" where
  "fake_read_register fl s vcpu reg =
     (if \<not> contains_capability fl (fk_capabilities s) RegisterRead then err_of (fake_missing s RegisterRead)
      else
        and_then (lock_fake fake_lock MRegisters s) (\<lambda>_.
          ok_or (map_of (fk_registers s) (vcpu, reg))
            (Backend (''fake register '' @ reg @ '' for vCPU '' @ dec (unat vcpu) @ '' is not defined''))))"

definition fake_write_register :: "flag_ops \<Rightarrow> fake_session \<Rightarrow> u32 \<Rightarrow> string \<Rightarrow> u64 \<Rightarrow> fake_session \<times> unit result" where
  "fake_write_register fl s vcpu reg v =
     (if \<not> contains_capability fl (fk_capabilities s) RegisterWrite then (s, err_of (fake_missing s RegisterWrite))
      else
        guarded (lock_fake fake_lock MRegisters s)
          (\<lambda>s. (s\<lparr>fk_registers := AList.update (vcpu, reg) v (fk_registers s)\<rparr>, Inr ())) s)"

definition fake_execution_state :: "flag_ops \<Rightarrow> fake_session \<Rightarrow> execution_state result" where
  "fake_execution_state fl s =
     and_then (fake_require fl s Control) (\<lambda>_.
     and_then (lock_fake fake_lock MExecution s) (\<lambda>_. Inr (fk_execution s)))"

definition fake_pause :: "flag_ops \<Rightarrow> fake_session \<Rightarrow> fake_session \<times> unit result" where
  "fake_pause fl s =
     guarded (fake_require fl s Control) (\<lambda>s.
       guarded (lock_fake fake_lock MExecution s) (\<lambda>s. (s\<lparr>fk_execution := Paused\<rparr>, Inr ())) s) s"

definition fake_resume :: "flag_ops \<Rightarrow> fake_session \<Rightarrow> fake_session \<times> unit result" where
  "fake_resume fl s =
     guarded (fake_require fl s Control) (\<lambda>s.
       guarded (lock_fake fake_lock MExecution s) (\<lambda>s. (s\<lparr>fk_execution := Running\<rparr>, Inr ())) s) s"

definition fake_next_event :: "flag_ops \<Rightarrow> fake_session event_access" where
  "fake_next_event fl s =
     guarded (fake_require fl s Events) (\<lambda>s.
       guarded (lock_fake fake_lock MEvents s) (\<lambda>s.
         case fk_events s of
           [] \<Rightarrow> (s, Inr None)
         | event # rest \<Rightarrow> (s\<lparr>fk_events := rest\<rparr>, Inr (Some event))) s) s"

definition fake_active_view :: "flag_ops \<Rightarrow> fake_session \<Rightarrow> u16 result" where
  "fake_active_view fl s =
     and_then (fake_require fl s MemoryView) (\<lambda>_.
     and_then (lock_fake fake_lock MView s) (\<lambda>_. Inr (fk_view s)))"

definition fake_switch_view :: "flag_ops \<Rightarrow> fake_session \<Rightarrow> u16 \<Rightarrow> fake_session \<times> unit result" where
  "fake_switch_view fl s view =
     guarded (fake_require fl s MemoryView) (\<lambda>s.
       guarded (lock_fake fake_lock MView s) (\<lambda>s. (s\<lparr>fk_view := view\<rparr>, Inr ())) s) s"

text \<open>What the environment decides about one acquisition: failing calls, the process and contention.\<close>

record acquisition_env =
  env_faults :: publish_faults
  env_pid :: u64
  env_observed :: "u64 list"

definition fake_publish :: "acquisition_env \<Rightarrow> string \<Rightarrow> u8 list \<Rightarrow> fake_session \<Rightarrow> fake_session \<times> unit result" where
  "fake_publish env path bytes s =
     (case publish_atomically fake_texts (env_faults env) (env_pid env) (env_observed env) path bytes
        (fk_disk s, fk_temp_counter s) of
        ((d, counter), r) \<Rightarrow> (s\<lparr>fk_disk := d, fk_temp_counter := counter\<rparr>, r))"

definition fake_save_physical_range ::
  "flag_ops \<Rightarrow> acquisition_env \<Rightarrow> fake_session \<Rightarrow> string \<Rightarrow> gpa \<Rightarrow> u64 \<Rightarrow> fake_session \<times> unit result" where
  "fake_save_physical_range fl env s path start len64 =
     guarded (fake_require fl s Acquisition) (\<lambda>s.
       case ok_or (usize_of_u64 len64) (ReadFailed (gpa_raw start) (usize_bound - 1)) of
         Inl e \<Rightarrow> (s, Inl e)
       | Inr len \<Rightarrow>
           if \<not> reservable len then
             (s, Inl (Backend (''failed to allocate fake acquisition: '' @ capacity_overflow)))
           else
             (case read_sparse_into s start (replicate len 0) of
                (bytes, Inl e) \<Rightarrow> (s, Inl e)
              | (bytes, Inr _) \<Rightarrow> fake_publish env path bytes s)) s"

fun snapshot_records :: "u8 list \<Rightarrow> sparse_segment list \<Rightarrow> u8 list result" where
  "snapshot_records bytes [] = Inr bytes"
| "snapshot_records bytes (seg # segs) =
     and_then (ok_or (u64_of_usize (length (sparse_bytes seg)))
       (Backend ''fake snapshot segment length exceeds the file format'')) (\<lambda>segment_length.
     and_then (ok_or (usize_checked_add 16 (length (sparse_bytes seg)))
       (Backend ''fake snapshot record length overflow'')) (\<lambda>record_length.
     if \<not> reservable (length bytes + record_length) then
       Inl (Backend (''failed to allocate fake snapshot: '' @ capacity_overflow))
     else
       snapshot_records (bytes @ to_le_bytes (gpa_raw (sparse_start seg)) @ to_le_bytes segment_length @
         sparse_bytes seg) segs))"

definition fake_save_snapshot ::
  "flag_ops \<Rightarrow> acquisition_env \<Rightarrow> fake_session \<Rightarrow> string \<Rightarrow> fake_session \<times> unit result" where
  "fake_save_snapshot fl env s path =
     guarded (fake_require fl s Acquisition) (\<lambda>s.
       guarded (lock_fake fake_lock MSegments s) (\<lambda>s.
         case snapshot_records [] (fk_segments s) of
           Inl e \<Rightarrow> (s, Inl e)
         | Inr bytes \<Rightarrow> fake_publish env path bytes s) s) s"

definition lifecycle_lock :: "string \<Rightarrow> vmi_error" where
  "lifecycle_lock error = Backend (''fake lifecycle lock failed: '' @ error)"

definition fake_next_lifecycle_event :: "flag_ops \<Rightarrow> fake_session \<Rightarrow> fake_session \<times> lifecycle_event option result" where
  "fake_next_lifecycle_event fl s =
     guarded (fake_require fl s Lifecycle) (\<lambda>s.
       guarded (lock_fake lifecycle_lock MLifecycle s) (\<lambda>s.
         case fk_lifecycle s of
           [] \<Rightarrow> (s, Inr None)
         | event # rest \<Rightarrow>
             (s\<lparr>fk_lifecycle := rest, fk_generation := max (fk_generation s) (event_generation event)\<rparr>,
              Inr (Some event))) s) s"

definition fake_cpu :: "flag_ops \<Rightarrow> fake_session \<Rightarrow> fake_session cpu_access result" where
  "fake_cpu fl s =
     (if fl_intersects fl (cap_bits (fk_capabilities s))
           (fl_insert fl (cap_bits (capability_bit RegisterRead)) (cap_bits (capability_bit RegisterWrite)))
      then Inr \<lparr>read_register = fake_read_register fl, write_register = fake_write_register fl\<rparr>
      else err_of (fake_missing s RegisterRead))"

definition fake_memory_write :: "flag_ops \<Rightarrow> fake_session \<Rightarrow> fake_session memory_write_access result" where
  "fake_memory_write fl s =
     (if contains_capability fl (fk_capabilities s) MemoryWrite then Inr (fake_write fl)
      else err_of (fake_missing s MemoryWrite))"

definition fake_session_ops :: "flag_ops \<Rightarrow> acquisition_env \<Rightarrow> fake_session session" where
  "fake_session_ops fl env =
     \<lparr>provider = fk_provider, target = fk_target, capabilities = fk_capabilities,
      memory_impl = Some (fake_facet fl MemoryRead (fake_read_into fl)),
      memory_write_impl = Some (fake_memory_write fl),
      cpu_impl = Some (fake_cpu fl),
      control_impl = Some (fake_facet fl Control
        \<lparr>execution_state_of = fake_execution_state fl, pause = fake_pause fl, resume = fake_resume fl\<rparr>),
      events_impl = Some (fake_facet fl Events (fake_next_event fl)),
      views_impl = Some (fake_facet fl MemoryView
        \<lparr>active_view = fake_active_view fl, switch_view = fake_switch_view fl\<rparr>),
      acquisition_impl = Some (fake_facet fl Acquisition
        \<lparr>save_physical_range = fake_save_physical_range fl env, save_snapshot = fake_save_snapshot fl env\<rparr>),
      lifecycle_impl = Some (fake_facet fl Lifecycle
        \<lparr>generation = fk_generation, next_lifecycle_event = fake_next_lifecycle_event fl\<rparr>)\<rparr>"

subsection \<open>Attaching\<close>

definition fake_session_of :: "fake_connector \<Rightarrow> disk \<Rightarrow> u64 \<Rightarrow> fake_session" where
  "fake_session_of c d counter =
     \<lparr>fk_provider = fc_descriptor c, fk_target = fc_target c, fk_capabilities = fc_capabilities c,
      fk_segments = fc_segments c, fk_registers = fc_registers c, fk_execution = Running, fk_events = fc_events c,
      fk_view = 0, fk_read_faults = fc_read_faults c, fk_write_faults = fc_write_faults c, fk_generation = 1,
      fk_lifecycle = [], fk_poisoned = [], fk_disk = d, fk_temp_counter = counter\<rparr>"

definition fake_connect ::
  "flag_ops \<Rightarrow> acquisition_env \<Rightarrow> disk \<Rightarrow> u64 \<Rightarrow> fake_connector \<Rightarrow> attach_request
   \<Rightarrow> (fake_session session \<times> fake_session) result" where
  "fake_connect fl env d counter c request =
     and_then (validate_segments (fc_segments c)) (\<lambda>_.
     let missing = difference_of fl (required_capabilities request) (fc_capabilities c) in
     if \<not> fl_is_empty fl (cap_bits missing) then
       and_then (fake_owned_text (provider_id (fc_descriptor c)) ''fake provider ID'')
         (\<lambda>i. Inl (AttachRejected i missing))
     else
       (case request_selector request of
          NamedTarget expected \<Rightarrow>
            if expected \<noteq> target_id (fc_target c) \<and>
              expected \<noteq> (case target_display_name (fc_target c) of Some n \<Rightarrow> n | None \<Rightarrow> [])
            then Inl (Backend (''target '' @ expected @ '' not found for provider '' @ provider_id (fc_descriptor c)))
            else Inr (fake_session_ops fl env, fake_session_of c d counter)
        | AnyTarget \<Rightarrow> Inr (fake_session_ops fl env, fake_session_of c d counter)))"

definition fake_connector_ok :: "fake_connector \<Rightarrow> bool" where
  "fake_connector_ok c \<longleftrightarrow> validate_segments (fc_segments c) = Inr () \<and>
     fc_capabilities c = provider_capabilities (fc_descriptor c)"

interpretation fake: attach_provider fl fake_connector_ok fc_descriptor
  "\<lambda>c n. n = target_id (fc_target c) \<or> n = (case target_display_name (fc_target c) of Some n \<Rightarrow> n | None \<Rightarrow> [])"
  "fake_connect fl env d counter" for fl env d counter
  by unfold_locales
    (auto simp: fake_connect_def fake_connector_ok_def Let_def fake_session_ops_def fake_session_of_def
      split: target_selector.splits if_splits)

section \<open>The sparse memory as a byte map\<close>

definition sparse_content :: "fake_session \<Rightarrow> nat \<Rightarrow> u8 option" where
  "sparse_content s n = (if n < 2 ^ 64 then sparse_lookup (fk_segments s) (of_nat n) else None)"

definition fake_byte :: "fake_session \<Rightarrow> nat \<Rightarrow> u8 option" where
  "fake_byte s n = (if of_nat n \<in> set (fk_read_faults s) then None else sparse_content s n)"

lemma absolute_address:
  "idx < 2 ^ 64 \<Longrightarrow> checked_add a (of_nat idx) =
     (if unat a + idx < 2 ^ 64 then Some (of_nat (unat a + idx)) else None)" for a :: u64
  by (simp add: checked_add_def unat_of_nat)

lemma sparse_read_byte_eq:
  "idx < 2 ^ 64 \<Longrightarrow> sparse_read_byte s (Gpa a) len idx = Inr b \<longleftrightarrow> fake_byte s (unat a + idx) = Some b"
  by (auto simp: sparse_read_byte_def u64_of_usize_def absolute_address fake_byte_def sparse_content_def)

lemma sparse_read_loop_eq:
  assumes "idx + length slots \<le> 2 ^ 64" "sparse_read_loop s (Gpa a) len idx slots = (buf, r)"
  shows "length buf = length slots \<and>
    (r = Inr () \<longleftrightarrow> (\<forall>j < length slots. fake_byte s (unat a + idx + j) \<noteq> None)) \<and>
    (r = Inr () \<longrightarrow> (\<forall>j < length slots. fake_byte s (unat a + idx + j) = Some (buf ! j)))"
  using assms
proof (induction slots arbitrary: idx buf)
  case (Cons slot slots)
  have idx: "idx < 2 ^ 64" using Cons.prems(1) by simp
  have split: "(\<forall>j < length (slot # slots). P (unat a + idx + j)) \<longleftrightarrow>
      P (unat a + idx) \<and> (\<forall>j < length slots. P (unat a + (idx + 1) + j))" for P
    by (simp add: All_less_Suc2)
  show ?case
  proof (cases "sparse_read_byte s (Gpa a) len idx")
    case (Inl e)
    then have "fake_byte s (unat a + idx) = None"
      using sparse_read_byte_eq [OF idx, of s a len] by (cases "fake_byte s (unat a + idx)") auto
    with Inl Cons.prems(2) show ?thesis by force
  next
    case (Inr b)
    then have b: "fake_byte s (unat a + idx) = Some b"
      using sparse_read_byte_eq [OF idx] by blast
    obtain rest r' where rest: "sparse_read_loop s (Gpa a) len (idx + 1) slots = (rest, r')" by fastforce
    with Inr Cons.prems(2) have buf: "buf = b # rest" "r = r'" by simp_all
    have le: "idx + 1 + length slots \<le> 2 ^ 64" using Cons.prems(1) by simp
    note IH = Cons.IH [OF le rest [folded buf(2)]]
    have "(\<forall>j < length slots. fake_byte s (unat a + (idx + 1) + j) = Some (rest ! j)) \<Longrightarrow>
        \<forall>j < length (slot # slots). fake_byte s (unat a + idx + j) = Some (buf ! j)"
      using b buf by (auto simp: less_Suc_eq_0_disj)
    with IH b buf split [of "\<lambda>n. fake_byte s n \<noteq> None"] show ?thesis by simp
  qed
qed simp

definition fake_readable :: "flag_ops \<Rightarrow> fake_session \<Rightarrow> bool" where
  "fake_readable fl s \<longleftrightarrow> contains_capability fl (fk_capabilities s) MemoryRead \<and> MSegments \<notin> set (fk_poisoned s)"

lemma fake_read_into_eq:
  "fake_readable fl s \<Longrightarrow> fake_read_into fl s a buf = sparse_read_loop s a (length buf) 0 buf"
  by (simp add: fake_readable_def fake_read_into_def fake_require_def read_sparse_into_def lock_fake_def)

interpretation fakemem: byte_memory "fake_read_into fl" fake_byte "fake_readable fl" for fl
proof
  fix s a i and buf :: "u8 list"
  assume ok: "fake_readable fl s" and len: "length buf < usize_bound"
  obtain buf' r where rd: "sparse_read_loop s (Gpa (gpa_raw a)) (length buf) 0 buf = (buf', r)" by fastforce
  then have eq: "fake_read_into fl s a buf = (buf', r)" using fake_read_into_eq [OF ok] by simp
  note loop = sparse_read_loop_eq [OF _ rd]
  show "length (fst (fake_read_into fl s a buf)) = length buf"
    using loop len eq by (simp add: usize_bound_def)
  show "snd (fake_read_into fl s a buf) = Inr () \<longleftrightarrow> (\<forall>i < length buf. fake_byte s (unat (gpa_raw a) + i) \<noteq> None)"
    using loop len eq by (simp add: usize_bound_def)
  assume "snd (fake_read_into fl s a buf) = Inr ()" "i < length buf"
  then show "fake_byte s (unat (gpa_raw a) + i) = Some (fst (fake_read_into fl s a buf) ! i)"
    using loop len eq by (simp add: usize_bound_def)
qed

section \<open>Writes\<close>

lemma segment_offset_Some:
  "segment_offset seg x = Some n \<longleftrightarrow>
     gpa_raw (sparse_start seg) \<le> x \<and> n = unat (x - gpa_raw (sparse_start seg)) \<and> n < length (sparse_bytes seg)"
  by (auto simp: segment_offset_def checked_sub_def usize_of_u64_def bind_eq_Some_conv split: if_splits)

lemma sparse_lookup_Cons:
  "sparse_lookup (seg # segs) x =
     (case segment_offset seg x of Some n \<Rightarrow> Some (sparse_bytes seg ! n) | None \<Rightarrow> sparse_lookup segs x)"
proof (cases "segment_offset seg x")
  case (Some n)
  then have "n < length (sparse_bytes seg)" by (simp add: segment_offset_Some)
  with Some show ?thesis by (simp add: get_at_def)
qed simp

lemma sparse_store_lookup:
  "(case sparse_store segs x v of
      None \<Rightarrow> sparse_lookup segs x = None
    | Some segs' \<Rightarrow> sparse_lookup segs x \<noteq> None \<and> sparse_lookup segs' = (sparse_lookup segs)(x \<mapsto> v) \<and>
        map sparse_range segs' = map sparse_range segs)"
proof (induction segs)
  case (Cons seg segs)
  show ?case
  proof (cases "segment_offset seg x")
    case None
    with Cons show ?thesis
      by (auto simp: sparse_lookup_Cons fun_eq_iff simp del: sparse_lookup.simps split: option.splits)
  next
    case (Some n)
    let ?seg = "seg\<lparr>sparse_bytes := (sparse_bytes seg)[n := v]\<rparr>"
    have same: "segment_offset ?seg y = segment_offset seg y" for y
      by (simp add: segment_offset_def)
    have "unat (y - gpa_raw (sparse_start seg)) = n \<Longrightarrow> y = x" for y
      using Some by (simp add: segment_offset_Some word_unat_eq_iff [symmetric])
    then have "(sparse_bytes seg)[n := v] ! m = (if y = x then v else sparse_bytes seg ! m)"
      if "segment_offset seg y = Some m" for y m
      using that Some by (auto simp: segment_offset_Some nth_list_update)
    then have "sparse_lookup (?seg # segs) y = ((sparse_lookup (seg # segs))(x \<mapsto> v)) y" for y
      using Some by (auto simp: sparse_lookup_Cons same simp del: sparse_lookup.simps split: option.splits)
    moreover have "sparse_range ?seg = sparse_range seg"
      by (simp add: sparse_range_def)
    ultimately show ?thesis
      using Some by (simp add: fun_eq_iff sparse_lookup_Cons del: sparse_lookup.simps)
  qed
qed simp

lemma sparse_write_loop_eq:
  assumes "idx + length vs \<le> 2 ^ 64" "sparse_write_loop (Gpa a) len idx vs s = (s', r)"
  shows "\<exists>k \<le> length vs. \<exists>segs. s' = s\<lparr>fk_segments := segs\<rparr> \<and>
    map sparse_range segs = map sparse_range (fk_segments s) \<and> (r = Inr () \<longleftrightarrow> k = length vs) \<and>
    (\<forall>n. sparse_content s' n =
      (if unat a + idx \<le> n \<and> n < unat a + idx + k then Some (vs ! (n - (unat a + idx))) else sparse_content s n))"
  using assms
proof (induction vs arbitrary: idx s)
  case Nil
  then show ?case by (auto intro: exI [of _ "fk_segments s"])
next
  case (Cons v vs)
  have idx: "idx < 2 ^ 64" using Cons.prems(1) by simp
  note step = absolute_address [OF idx, of a]
  have stop: ?case if "(s', r) = (s, Inl e)" for e
    using that by (intro exI [of _ 0] conjI exI [of _ "fk_segments s"]) auto
  show ?case
  proof (cases "unat a + idx < 2 ^ 64 \<and> of_nat (unat a + idx) \<notin> set (fk_write_faults s) \<and>
      sparse_store (fk_segments s) (of_nat (unat a + idx)) v \<noteq> None")
    case False
    have "\<exists>e. (s', r) = (s, Inl e)"
      using False Cons.prems(2) idx by (auto simp: step u64_of_usize_def split: if_splits option.splits)
    then show ?thesis using stop by blast
  next
    case True
    then obtain segs where segs: "sparse_store (fk_segments s) (of_nat (unat a + idx)) v = Some segs" by blast
    let ?s = "s\<lparr>fk_segments := segs\<rparr>"
    have rest: "sparse_write_loop (Gpa a) len (idx + 1) vs ?s = (s', r)"
      using True segs Cons.prems(2) idx by (simp add: step u64_of_usize_def)
    have le: "idx + 1 + length vs \<le> 2 ^ 64" using Cons.prems(1) by simp
    from Cons.IH [OF le rest] obtain k segs' where k: "k \<le> length vs" "s' = s\<lparr>fk_segments := segs'\<rparr>"
      "map sparse_range segs' = map sparse_range segs" "r = Inr () \<longleftrightarrow> k = length vs"
      and cont: "\<And>n. sparse_content s' n = (if unat a + (idx + 1) \<le> n \<and> n < unat a + (idx + 1) + k
         then Some (vs ! (n - (unat a + (idx + 1)))) else sparse_content ?s n)"
      by auto
    have store: "sparse_lookup segs = (sparse_lookup (fk_segments s))(of_nat (unat a + idx) \<mapsto> v)"
      "map sparse_range segs = map sparse_range (fk_segments s)"
      using sparse_store_lookup [of "fk_segments s" "of_nat (unat a + idx)" v] segs by auto
    have inj: "(of_nat n :: u64) = of_nat m \<longleftrightarrow> n = m" if "n < 2 ^ 64" "m < 2 ^ 64" for n m
      using that by (simp add: word_unat_eq_iff unat_of_nat take_bit_nat_eq_self)
    have one: "sparse_content ?s n = (if n = unat a + idx then Some v else sparse_content s n)" for n
      using True inj [of n "unat a + idx"] by (simp add: sparse_content_def store(1))
    have "sparse_content s' n = (if unat a + idx \<le> n \<and> n < unat a + idx + Suc k
        then Some ((v # vs) ! (n - (unat a + idx))) else sparse_content s n)" for n
    proof -
      consider "n < unat a + idx" | "n = unat a + idx" | m where "n = unat a + idx + Suc m"
        by (metis less_iff_Suc_add linorder_neqE_nat add_Suc_right)
      then show ?thesis
        by cases (simp_all add: cont one)
    qed
    with k store(2) show ?thesis
      by (intro exI [of _ "Suc k"]) auto
  qed
qed

section \<open>Properties of the fake provider\<close>

text \<open>
  C22: A write to the fake memory stores a prefix of its data and nothing else: all of it exactly when it
  succeeds, and up to the first unmapped or faulty address otherwise. The layout of the segments does not
  change, and after a success a read of the range that meets no injected read fault returns the data.
\<close>

theorem fake_read_after_write:
  assumes "fake_write fl s (Gpa a) data = (s', r)" "reservable (length data)" "fake_readable fl s"
    "contains_capability fl (fk_capabilities s) MemoryWrite"
  shows "(\<exists>k \<le> length data. (r = Inr () \<longleftrightarrow> k = length data) \<and> (\<forall>n. sparse_content s' n =
      (if unat a \<le> n \<and> n < unat a + k then Some (data ! (n - unat a)) else sparse_content s n))) \<and>
    map sparse_range (fk_segments s') = map sparse_range (fk_segments s) \<and>
    (r = Inr () \<and> (\<forall>i < length data. of_nat (unat a + i) \<notin> set (fk_read_faults s)) \<longrightarrow>
      read_bytes (fake_read_into fl s') (Gpa a) (length data) = Inr data)"
proof -
  have "sparse_write_loop (Gpa a) (length data) 0 data s = (s', r)"
    using assms(1,3,4)
    by (simp add: fake_write_def guarded_def fake_require_def lock_fake_def fake_readable_def)
  moreover have "length data \<le> 2 ^ 64"
    using reservable_less [OF assms(2)] by simp
  ultimately obtain k segs where k: "k \<le> length data" "s' = s\<lparr>fk_segments := segs\<rparr>"
    "map sparse_range segs = map sparse_range (fk_segments s)" "r = Inr () \<longleftrightarrow> k = length data"
    and cont: "\<And>n. sparse_content s' n =
      (if unat a \<le> n \<and> n < unat a + k then Some (data ! (n - unat a)) else sparse_content s n)"
    using sparse_write_loop_eq [of 0 data a "length data" s s' r] by auto
  have "fake_readable fl s'" using assms(3) k(2) by (simp add: fake_readable_def)
  then have "read_bytes (fake_read_into fl s') (Gpa a) (length data) = Inr data"
    if "r = Inr ()" "\<forall>i < length data. of_nat (unat a + i) \<notin> set (fk_read_faults s)"
    using that k(2,4) cont by (simp add: fakemem.read_bytes_Inr [OF _ assms(2)] fake_byte_def)
  with k cont show ?thesis by auto
qed

definition fake_fixture :: "fake_session" where
  "fake_fixture = fake_session_of (with_segment (with_capabilities (fake_connector_new plain_flags) (CapabilitySet 3))
     (Gpa 0x1000) [1, 2, 3, 4]) [] 0"

lemma fake_fixture_fields [simp]:
  "fk_capabilities fake_fixture = CapabilitySet 3" "fk_poisoned fake_fixture = []"
  "fk_segments fake_fixture = [\<lparr>sparse_start = Gpa 0x1000, sparse_bytes = [1, 2, 3, 4]\<rparr>]"
  "fk_read_faults fake_fixture = []" "fk_write_faults fake_fixture = []"
  by (simp_all add: fake_fixture_def fake_session_of_def with_segment_def with_capabilities_def fake_connector_new_def
      sparse_segment_new_def Let_def)

lemma fake_fixture_caps:
  "contains_capability plain_flags (CapabilitySet 3) MemoryWrite"
  "contains_capability plain_flags (CapabilitySet 3) MemoryRead"
  by (simp_all add: contains_capability_def plain_flags_def)

theorem fake_read_after_write_witness:
  "\<exists>s'. fake_write plain_flags fake_fixture (Gpa 0x1001) [8, 9] = (s', Inr ()) \<and>
     read_bytes (fake_read_into plain_flags s') (Gpa 0x1001) 2 = Inr [8, 9] \<and> sparse_content s' 0x1003 = Some 4"
proof -
  have "\<exists>s'. fake_write plain_flags fake_fixture (Gpa 0x1001) [8, 9] = (s', Inr ())"
    by (simp add: fake_write_def guarded_def fake_require_def lock_fake_def fake_fixture_caps u64_of_usize_def
        checked_add_def segment_offset_def checked_sub_def usize_of_u64_def)
  then obtain s' where w: "fake_write plain_flags fake_fixture (Gpa 0x1001) [8, 9] = (s', Inr ())" by blast
  have ok: "fake_readable plain_flags fake_fixture" "reservable (length [8, 9 :: u8])"
    "contains_capability plain_flags (fk_capabilities fake_fixture) MemoryWrite"
    by (simp_all add: fake_readable_def fake_fixture_caps reservable_def isize_max_def)
  have "sparse_content fake_fixture 0x1003 = Some 4"
    by (simp add: sparse_content_def segment_offset_def checked_sub_def usize_of_u64_def get_at_def)
  moreover have "length [8, 9 :: u8] = 2" by simp
  note law = fake_read_after_write [OF w ok(2,1,3), unfolded this]
  from law have "read_bytes (fake_read_into plain_flags s') (Gpa 0x1001) 2 = Inr [8, 9]" by simp
  moreover from law have "sparse_content s' 0x1003 = sparse_content fake_fixture 0x1003" by auto
  ultimately show ?thesis using w by metis
qed

lemma err_of_isl: "isl (err_of r)"
  by (simp add: err_of_def split: sum.split)

text \<open>
  Every operation of the fake session is gated by its capability: without it the call fails, and
  the session, its memory, its registers and the disk stay exactly as they were.
\<close>

lemma fake_capability_gating:
  assumes "\<not> contains_capability fl (fk_capabilities s) cap"
  shows "case cap of
      MemoryRead \<Rightarrow> fst (fake_read_into fl s a buf) = buf \<and> isl (snd (fake_read_into fl s a buf)) \<and>
        isl (session_memory (fake_session_ops fl env) s)
    | MemoryWrite \<Rightarrow> fst (fake_write fl s a buf) = s \<and> isl (snd (fake_write fl s a buf)) \<and>
        isl (session_memory_write (fake_session_ops fl env) s)
    | RegisterRead \<Rightarrow> isl (fake_read_register fl s vcpu reg)
    | RegisterWrite \<Rightarrow> fst (fake_write_register fl s vcpu reg v) = s \<and> isl (snd (fake_write_register fl s vcpu reg v))
    | Control \<Rightarrow> isl (fake_execution_state fl s) \<and> fst (fake_pause fl s) = s \<and> isl (snd (fake_pause fl s)) \<and>
        fst (fake_resume fl s) = s \<and> isl (snd (fake_resume fl s)) \<and> isl (session_control (fake_session_ops fl env) s)
    | Events \<Rightarrow> fst (fake_next_event fl s) = s \<and> isl (snd (fake_next_event fl s)) \<and>
        isl (session_events (fake_session_ops fl env) s)
    | MemoryView \<Rightarrow> isl (fake_active_view fl s) \<and> fst (fake_switch_view fl s view) = s \<and>
        isl (snd (fake_switch_view fl s view)) \<and> isl (session_views (fake_session_ops fl env) s)
    | Acquisition \<Rightarrow> fst (fake_save_physical_range fl env s path a len) = s \<and>
        isl (snd (fake_save_physical_range fl env s path a len)) \<and> fst (fake_save_snapshot fl env s path) = s \<and>
        isl (snd (fake_save_snapshot fl env s path)) \<and> isl (session_acquisition (fake_session_ops fl env) s)
    | Lifecycle \<Rightarrow> fst (fake_next_lifecycle_event fl s) = s \<and> isl (snd (fake_next_lifecycle_event fl s)) \<and>
        isl (session_lifecycle (fake_session_ops fl env) s)"
proof -
  obtain e where e: "fake_require fl s cap = Inl e"
    using assms err_of_isl [of "fake_missing s cap"] by (auto simp: fake_require_def isl_def)
  note facets = session_memory_def session_memory_write_def session_control_def session_events_def session_views_def
    session_acquisition_def session_lifecycle_def facet_or_missing_def fake_session_ops_def fake_facet_def
    fake_memory_write_def
  note operations = fake_read_into_def fake_write_def fake_read_register_def fake_write_register_def
    fake_execution_state_def fake_pause_def fake_resume_def fake_next_event_def fake_active_view_def
    fake_switch_view_def fake_save_physical_range_def fake_save_snapshot_def fake_next_lifecycle_event_def guarded_def
  show ?thesis
    using assms e by (cases cap) (simp_all add: facets operations err_of_isl)
qed

end
