(* ===== verification/Events.thy ===== *)
theory Events
  imports Driver_Api
begin

text \<open>
  The crate \<open>vmi-events\<close>: the bounded event queue. \<open>next_event\<close> releases the lock while it waits
  on the condition variable, so a call is a sequence of critical sections: one when it is entered
  and one after each wake-up. Clock readings and the cause of a wake-up are inputs of these
  sections; instants and durations are numbers of nanoseconds. The step relation \<open>event_step\<close>
  interleaves the critical sections of any number of producers and consumers; the condition
  variable is the lists of the consumers that sleep and of those that were notified.
\<close>

section \<open>The queue (lib.rs)\<close>

record event_queue =
  queue_capacity :: usize
  queue_events :: "vmi_event list"
  queue_closed :: bool
  queue_poisoned :: bool

text \<open>An event takes 48 bytes.\<close>

definition queue_new :: "usize \<Rightarrow> event_queue result" where
  "queue_new cap =
     (if cap = 0 then Inl (Backend ''event queue capacity must be non-zero'')
      else if \<not> reservable (48 * cap) then
        Inl (Backend (''failed to allocate event queue capacity '' @ dec cap @ '': '' @ capacity_overflow))
      else Inr \<lparr>queue_capacity = cap, queue_events = [], queue_closed = False, queue_poisoned = False\<rparr>)"

definition events_poisoned :: "string \<Rightarrow> vmi_error" where
  "events_poisoned error = Backend (''event queue synchronization failed: '' @ error)"

definition push :: "event_queue \<Rightarrow> vmi_event \<Rightarrow> event_queue \<times> unit result" where
  "push q event =
     (if queue_poisoned q then (q, Inl (events_poisoned poisoned_lock))
      else if queue_closed q then (q, Inl (Backend ''event queue is closed''))
      else if length (queue_events q) = queue_capacity q then
        (q, Inl (Backend (''event queue capacity '' @ dec (queue_capacity q) @ '' exceeded'')))
      else (q\<lparr>queue_events := queue_events q @ [event]\<rparr>, Inr ()))"

definition close_queue :: "event_queue \<Rightarrow> event_queue \<times> unit result" where
  "close_queue q =
     (if queue_poisoned q then (q, Inl (events_poisoned poisoned_lock))
      else (q\<lparr>queue_closed := True\<rparr>, Inr ()))"

definition queue_len :: "event_queue \<Rightarrow> usize result" where
  "queue_len q =
     (if queue_poisoned q then Inl (events_poisoned poisoned_lock) else Inr (length (queue_events q)))"

definition queue_is_empty :: "event_queue \<Rightarrow> bool result" where
  "queue_is_empty q = and_then (queue_len q) (\<lambda>n. Inr (n = 0))"

section \<open>Waiting for an event\<close>

definition MAX_WAIT_SLICE :: nat where
  "MAX_WAIT_SLICE = 24 * 60 * 60 * 1000000000"

text \<open>The outcome of a critical section: the call returns, or waits for at most a duration.\<close>

datatype poll = Return "vmi_event option" | Wait nat

definition next_event_poll :: "nat option \<Rightarrow> nat \<Rightarrow> event_queue \<Rightarrow> event_queue \<times> poll" where
  "next_event_poll deadline now q =
     (case queue_events q of
        event # rest \<Rightarrow> (q\<lparr>queue_events := rest\<rparr>, Return (Some event))
      | [] \<Rightarrow>
          if queue_closed q then (q, Return None)
          else
            (case deadline of
               Some d \<Rightarrow> if now \<ge> d then (q, Return None) else (q, Wait (d - now))
             | None \<Rightarrow> (q, Wait MAX_WAIT_SLICE)))"

definition next_event_enter :: "nat option \<Rightarrow> nat \<Rightarrow> event_queue \<Rightarrow> event_queue \<times> poll result" where
  "next_event_enter deadline now q =
     (if queue_poisoned q then (q, Inl (events_poisoned poisoned_lock))
      else (case next_event_poll deadline now q of (q', p) \<Rightarrow> (q', Inr p)))"

definition next_event_wake :: "nat option \<Rightarrow> bool \<Rightarrow> nat \<Rightarrow> event_queue \<Rightarrow> event_queue \<times> poll result" where
  "next_event_wake deadline timed_out now q =
     (if queue_poisoned q then (q, Inl (events_poisoned poisoned_lock))
      else if timed_out \<and> queue_events q = [] \<and> deadline \<noteq> None then (q, Inr (Return None))
      else (case next_event_poll deadline now q of (q', p) \<Rightarrow> (q', Inr p)))"

section \<open>The contract of a channel\<close>

text \<open>
  A channel accepts or refuses an element and hands its elements out in order; nothing is lost or
  duplicated, whatever the sequence of operations.
\<close>

datatype 'e channel_op = Put 'e | Take

locale fifo_channel =
  fixes contents :: "'q \<Rightarrow> 'e list"
    and put :: "'q \<Rightarrow> 'e \<Rightarrow> 'q \<times> unit result"
    and takes :: "'q \<Rightarrow> 'q \<times> 'e option"
  assumes put_law: "put q e = (q', r) \<Longrightarrow> contents q' = (if is_ok r then contents q @ [e] else contents q)"
    and takes_law: "takes q = (q', x) \<Longrightarrow>
      contents q = (case x of Some e \<Rightarrow> e # contents q' | None \<Rightarrow> contents q')"
begin

primrec run :: "'e channel_op list \<Rightarrow> 'q \<Rightarrow> 'e list \<times> 'e list \<times> 'q" where
  "run [] q = ([], [], q)"
| "run (op # ops) q =
     (case op of
        Put e \<Rightarrow>
          (case put q e of (q', r) \<Rightarrow>
             case run ops q' of (accepted, out, q'') \<Rightarrow> (if is_ok r then e # accepted else accepted, out, q''))
      | Take \<Rightarrow>
          (case takes q of (q', r) \<Rightarrow>
             case run ops q' of (accepted, out, q'') \<Rightarrow>
               (accepted, case r of Some e \<Rightarrow> e # out | None \<Rightarrow> out, q'')))"

lemma run_conserves: "run ops q = (accepted, out, q') \<Longrightarrow> contents q @ accepted = out @ contents q'"
proof (induction ops arbitrary: q accepted out)
  case (Cons op ops)
  from Cons.prems show ?case
    by (auto split: channel_op.splits prod.splits option.splits if_splits dest!: put_law takes_law Cons.IH)
qed simp

end

definition take_event :: "event_queue \<Rightarrow> event_queue \<times> vmi_event option" where
  "take_event q =
     (case next_event_poll (Some 0) 0 q of
        (q', Return r) \<Rightarrow> (q', r)
      | (q', Wait d) \<Rightarrow> (q', None))"

interpretation evq: fifo_channel queue_events push take_event
proof
  fix q e q' and r :: "unit result"
  assume "push q e = (q', r)"
  then show "queue_events q' = (if is_ok r then queue_events q @ [e] else queue_events q)"
    by (auto simp: push_def split: if_splits)
next
  fix q q' r
  assume "take_event q = (q', r)"
  then show "queue_events q = (case r of Some e \<Rightarrow> e # queue_events q' | None \<Rightarrow> queue_events q')"
    by (auto simp: take_event_def next_event_poll_def split: list.splits if_splits)
qed

section \<open>Interleavings\<close>

text \<open>
  A call of \<open>next_event\<close> inside \<open>wait_timeout\<close>: its caller, its deadline, when it began to wait and for how long.
\<close>

record waiter =
  consumer :: nat
  wait_deadline :: "nat option"
  wait_since :: nat
  wait_span :: nat

text \<open>
  \<open>accepted\<close> and \<open>delivered\<close> record the events of successful pushes and of returned calls;
  \<open>sleepers\<close> and \<open>notified\<close> are the waiters of the condition variable.
\<close>

record event_system =
  sys_queue :: event_queue
  accepted :: "vmi_event list"
  delivered :: "vmi_event list"
  sleepers :: "waiter list"
  notified :: "waiter list"

definition remove_nth :: "nat \<Rightarrow> 'a list \<Rightarrow> 'a list" where
  "remove_nth i xs = take i xs @ drop (Suc i) xs"

text \<open>\<open>Condvar\<close>: \<open>notify_one\<close> wakes some sleeper, of the scheduler's choice, if there is one.\<close>

definition notify_one :: "nat \<Rightarrow> event_system \<Rightarrow> event_system" where
  "notify_one choice s =
     (if sleepers s = [] then s
      else
        (let i = choice mod length (sleepers s) in
         s\<lparr>sleepers := remove_nth i (sleepers s), notified := sleepers s ! i # notified s\<rparr>))"

definition notify_all :: "event_system \<Rightarrow> event_system" where
  "notify_all s = s\<lparr>sleepers := [], notified := sleepers s @ notified s\<rparr>"

definition push_call :: "nat \<Rightarrow> event_system \<Rightarrow> vmi_event \<Rightarrow> event_system" where
  "push_call choice s e =
     (case push (sys_queue s) e of
        (q, Inl err) \<Rightarrow> s\<lparr>sys_queue := q\<rparr>
      | (q, Inr _) \<Rightarrow> notify_one choice (s\<lparr>sys_queue := q, accepted := accepted s @ [e]\<rparr>))"

definition close_call :: "event_system \<Rightarrow> event_system" where
  "close_call s =
     (case close_queue (sys_queue s) of
        (q, Inl err) \<Rightarrow> s\<lparr>sys_queue := q\<rparr>
      | (q, Inr _) \<Rightarrow> notify_all (s\<lparr>sys_queue := q\<rparr>))"

text \<open>The end of a critical section of a consumer: the call returns, or goes to sleep.\<close>

definition deliver :: "event_system \<Rightarrow> event_queue \<Rightarrow> poll \<Rightarrow> nat \<Rightarrow> nat option \<Rightarrow> nat \<Rightarrow> event_system" where
  "deliver s q p c deadline now =
     (case p of
        Return None \<Rightarrow> s\<lparr>sys_queue := q\<rparr>
      | Return (Some e) \<Rightarrow> s\<lparr>sys_queue := q, delivered := delivered s @ [e]\<rparr>
      | Wait d \<Rightarrow> s\<lparr>sys_queue := q, sleepers :=
          \<lparr>consumer = c, wait_deadline = deadline, wait_since = now, wait_span = d\<rparr> # sleepers s\<rparr>)"

text \<open>
  A waiter wakes up because it was notified, because its time is over, or spuriously; the flag \<open>timed_out\<close> is arbitrary.
\<close>

inductive event_step :: "event_system \<Rightarrow> event_system \<Rightarrow> bool" where
  pushed: "event_step s (push_call choice s e)"
| closed: "event_step s (close_call s)"
| entered: "c \<notin> consumer ` set (sleepers s @ notified s) \<Longrightarrow>
    next_event_enter deadline now (sys_queue s) = (q, Inr p) \<Longrightarrow> event_step s (deliver s q p c deadline now)"
| woken: "i < length (notified s) \<Longrightarrow> w = notified s ! i \<Longrightarrow>
    next_event_wake (wait_deadline w) timed_out now (sys_queue s) = (q, Inr p) \<Longrightarrow>
    event_step s (deliver (s\<lparr>notified := remove_nth i (notified s)\<rparr>) q p (consumer w) (wait_deadline w) now)"
| unprompted: "i < length (sleepers s) \<Longrightarrow> w = sleepers s ! i \<Longrightarrow>
    next_event_wake (wait_deadline w) timed_out now (sys_queue s) = (q, Inr p) \<Longrightarrow>
    event_step s (deliver (s\<lparr>sleepers := remove_nth i (sleepers s)\<rparr>) q p (consumer w) (wait_deadline w) now)"

definition event_init :: "event_queue \<Rightarrow> event_system" where
  "event_init q = \<lparr>sys_queue = q, accepted = [], delivered = [], sleepers = [], notified = []\<rparr>"

inductive event_reachable :: "event_queue \<Rightarrow> event_system \<Rightarrow> bool" for q0 where
  init: "event_reachable q0 (event_init q0)"
| step: "event_reachable q0 s \<Longrightarrow> event_step s s' \<Longrightarrow> event_reachable q0 s'"

inductive_cases event_stepE: "event_step s s'"

text \<open>
  The invariant of the events, and the one of the waiters: while a consumer sleeps without being notified, the queue is
  open and every queued event has a notified consumer of its own.
\<close>

definition event_inv :: "event_system \<Rightarrow> bool" where
  "event_inv s \<longleftrightarrow> accepted s = delivered s @ queue_events (sys_queue s) \<and>
     length (queue_events (sys_queue s)) \<le> queue_capacity (sys_queue s) \<and> \<not> queue_poisoned (sys_queue s)"

definition bounded_wait :: "waiter \<Rightarrow> bool" where
  "bounded_wait w \<longleftrightarrow>
     (case wait_deadline w of
        Some d \<Rightarrow> 0 < wait_span w \<and> wait_since w + wait_span w = d
      | None \<Rightarrow> wait_span w = 86400 * 10 ^ 9)"

definition waiters_inv :: "event_system \<Rightarrow> bool" where
  "waiters_inv s \<longleftrightarrow>
     (sleepers s \<noteq> [] \<longrightarrow> \<not> queue_closed (sys_queue s) \<and> length (queue_events (sys_queue s)) \<le> length (notified s)) \<and>
     (\<forall>w \<in> set (sleepers s @ notified s). bounded_wait w)"

lemma poll_conserves:
  assumes "next_event_poll deadline now q = (q', p)"
  shows "queue_events q = (case p of Return (Some e) \<Rightarrow> e # queue_events q' | _ \<Rightarrow> queue_events q')"
    "queue_capacity q' = queue_capacity q" "queue_closed q' = queue_closed q" "queue_poisoned q' = queue_poisoned q"
  using assms by (auto simp: next_event_poll_def split: list.splits if_splits option.splits)

lemma poll_waits:
  assumes "next_event_poll deadline now q = (q', Wait d)"
  shows "q' = q" "queue_events q = []" "\<not> queue_closed q"
    "bounded_wait \<lparr>consumer = c, wait_deadline = deadline, wait_since = now, wait_span = d\<rparr>"
  using assms by (auto simp: next_event_poll_def bounded_wait_def MAX_WAIT_SLICE_def split: list.splits if_splits option.splits)

text \<open>A critical section after a wake-up is a poll, or the end of a call whose time is over and that finds nothing.\<close>

lemma enter_poll:
  "next_event_enter deadline now q = (q', Inr p) \<Longrightarrow> next_event_poll deadline now q = (q', p)"
  by (auto simp: next_event_enter_def split: if_splits prod.splits)

lemma wake_poll:
  "next_event_wake deadline timed_out now q = (q', Inr p) \<Longrightarrow>
   next_event_poll deadline now q = (q', p) \<or> q' = q \<and> p = Return None \<and> queue_events q = []"
  by (auto simp: next_event_wake_def split: if_splits prod.splits)

lemma event_inv_deliver:
  assumes "event_inv s" "next_event_poll deadline now (sys_queue s) = (q, p) \<or> q = sys_queue s \<and> p = Return None"
  shows "event_inv (deliver s q p c d n)"
  using assms poll_conserves [of deadline now "sys_queue s" q p]
  by (auto simp: event_inv_def deliver_def split: poll.splits option.splits)

lemma event_inv_waiters:
  "event_inv (s\<lparr>sleepers := ws\<rparr>) = event_inv s" "event_inv (s\<lparr>notified := ws\<rparr>) = event_inv s"
  "event_inv (notify_one choice s) = event_inv s" "event_inv (notify_all s) = event_inv s"
  by (simp_all add: event_inv_def notify_one_def notify_all_def Let_def)

lemma push_cases:
  "push q e = (q\<lparr>queue_events := queue_events q @ [e]\<rparr>, Inr ()) \<and> \<not> queue_closed q \<and> \<not> queue_poisoned q \<and>
     length (queue_events q) \<noteq> queue_capacity q \<or>
   (\<exists>err. push q e = (q, Inl err))"
  by (auto simp: push_def)

lemma event_inv_step: "event_step s s' \<Longrightarrow> event_inv s \<Longrightarrow> event_inv s'"
proof (induction rule: event_step.induct)
  case (pushed s choice e)
  with push_cases [of "sys_queue s" e] show ?case
    by (elim disjE conjE exE) (simp_all add: push_call_def event_inv_waiters, auto simp: event_inv_def)
next
  case (closed s)
  then show ?case
    by (simp add: close_call_def close_queue_def event_inv_waiters) (simp add: event_inv_def)
next
  case (entered c s deadline now q p)
  then show ?case by (intro event_inv_deliver) (auto dest: enter_poll)
next
  case (woken i s w timed_out now q p)
  then show ?case by (intro event_inv_deliver [where deadline = "wait_deadline w" and now = now])
      (auto simp: event_inv_waiters dest: wake_poll)
next
  case (unprompted i s w timed_out now q p)
  then show ?case by (intro event_inv_deliver [where deadline = "wait_deadline w" and now = now])
      (auto simp: event_inv_waiters dest: wake_poll)
qed

lemma event_inv_reachable:
  assumes "queue_new cap = Inr q0" "event_reachable q0 s"
  shows "event_inv s"
  using assms(2)
proof (induction rule: event_reachable.induct)
  case init
  show ?case
    using assms(1) by (auto simp: queue_new_def event_init_def event_inv_def split: if_splits)
qed (rule event_inv_step)

section \<open>No wake-up is lost\<close>

lemma length_remove_nth [simp]: "i < length xs \<Longrightarrow> length (remove_nth i xs) = length xs - 1"
  by (simp add: remove_nth_def)

lemma set_remove_nth: "set (remove_nth i xs) \<subseteq> set xs"
  using set_take_subset [of i xs] set_drop_subset [of "Suc i" xs] by (auto simp: remove_nth_def)

lemma waiters_inv_notify_one:
  assumes "sleepers s \<noteq> [] \<longrightarrow> \<not> queue_closed (sys_queue s) \<and> length (queue_events (sys_queue s)) \<le> Suc (length (notified s))"
    "\<forall>w \<in> set (sleepers s @ notified s). bounded_wait w"
  shows "waiters_inv (notify_one choice s)"
proof (cases "sleepers s = []")
  case True
  then show ?thesis using assms by (simp add: waiters_inv_def notify_one_def)
next
  case False
  then have "choice mod length (sleepers s) < length (sleepers s)" by simp
  moreover from this have "sleepers s ! (choice mod length (sleepers s)) \<in> set (sleepers s)" by (rule nth_mem)
  ultimately show ?thesis
    using False assms set_remove_nth [of "choice mod length (sleepers s)" "sleepers s"]
    by (auto simp: waiters_inv_def notify_one_def Let_def)
qed

text \<open>A critical section keeps the invariant if one more event than there are notified consumers is left for it.\<close>

lemma waiters_inv_deliver:
  assumes "next_event_poll deadline now (sys_queue s) = (q, p) \<or>
      q = sys_queue s \<and> p = Return None \<and> queue_events (sys_queue s) = []"
    "sleepers s \<noteq> [] \<longrightarrow> \<not> queue_closed (sys_queue s) \<and> length (queue_events (sys_queue s)) \<le> Suc (length (notified s))"
    "\<forall>w \<in> set (sleepers s @ notified s). bounded_wait w"
  shows "waiters_inv (deliver s q p c deadline now)"
proof (cases p)
  case (Wait d)
  then have "next_event_poll deadline now (sys_queue s) = (q, Wait d)" using assms(1) by auto
  from poll_waits [OF this] assms(3) Wait show ?thesis by (simp add: waiters_inv_def deliver_def)
next
  case (Return x)
  show ?thesis
  proof (cases x)
    case None
    then have "queue_events q = []" "queue_closed q = queue_closed (sys_queue s)"
      using assms(1) Return by (auto simp: next_event_poll_def split: list.splits if_splits option.splits)
    with assms(2,3) Return None show ?thesis by (simp add: waiters_inv_def deliver_def)
  next
    case (Some e)
    then have "queue_events (sys_queue s) = e # queue_events q" "queue_closed q = queue_closed (sys_queue s)"
      using assms(1) Return poll_conserves [of deadline now "sys_queue s" q p] by auto
    with assms(2,3) Return Some show ?thesis by (simp add: waiters_inv_def deliver_def)
  qed
qed

lemma waiters_inv_step: "event_step s s' \<Longrightarrow> waiters_inv s \<Longrightarrow> waiters_inv s'"
proof (induction rule: event_step.induct)
  case (pushed s choice e)
  from push_cases [of "sys_queue s" e] show ?case
  proof (elim disjE conjE exE)
    assume "push (sys_queue s) e = (sys_queue s\<lparr>queue_events := queue_events (sys_queue s) @ [e]\<rparr>, Inr ())"
    then have "push_call choice s e = notify_one choice
        (s\<lparr>sys_queue := sys_queue s\<lparr>queue_events := queue_events (sys_queue s) @ [e]\<rparr>, accepted := accepted s @ [e]\<rparr>)"
      by (simp add: push_call_def)
    then show ?thesis
      by (simp only:) (rule waiters_inv_notify_one; use pushed in \<open>simp add: waiters_inv_def\<close>)
  next
    fix err
    assume "push (sys_queue s) e = (sys_queue s, Inl err)"
    with pushed show ?thesis by (simp add: push_call_def)
  qed
next
  case (closed s)
  then show ?case by (auto simp: close_call_def close_queue_def notify_all_def waiters_inv_def)
next
  case (entered c s deadline now q p)
  then show ?case by (intro waiters_inv_deliver) (auto simp: waiters_inv_def dest: enter_poll)
next
  case (woken i s w timed_out now q p)
  then show ?case
    using set_remove_nth [of i "notified s"] by (intro waiters_inv_deliver) (auto simp: waiters_inv_def dest: wake_poll)
next
  case (unprompted i s w timed_out now q p)
  have "sleepers s \<noteq> []" using unprompted(1) by auto
  with unprompted show ?case
    using set_remove_nth [of i "sleepers s"] by (intro waiters_inv_deliver) (auto simp: waiters_inv_def dest: wake_poll)
qed

lemma waiters_inv_reachable:
  assumes "event_reachable q0 s"
  shows "waiters_inv s"
  using assms
proof (induction rule: event_reachable.induct)
  case init
  show ?case by (simp add: event_init_def waiters_inv_def)
qed (rule waiters_inv_step)

section \<open>Properties\<close>

text \<open>
  C12: under every interleaving of producers and consumers the queue delivers each accepted event
  exactly once and in order of acceptance: what was accepted is what was delivered followed by what
  is queued, and the queue never exceeds its capacity.
\<close>

theorem events_exactly_once:
  assumes "queue_new cap = Inr q0" "event_reachable q0 s"
  shows "accepted s = delivered s @ queue_events (sys_queue s) \<and>
    length (queue_events (sys_queue s)) \<le> queue_capacity (sys_queue s)"
  using event_inv_reachable [OF assms] by (simp add: event_inv_def)

lemma event_fixture:
  "queue_new 1 = Inr \<lparr>queue_capacity = 1, queue_events = [], queue_closed = False, queue_poisoned = False\<rparr>"
  by (simp add: queue_new_def reservable_def isize_max_def)

theorem events_exactly_once_witness:
  "\<exists>q0 s. queue_new 1 = Inr q0 \<and> event_reachable q0 s \<and>
    delivered s = [\<lparr>event_kind = ''x'', event_vcpu = None, event_address = None\<rparr>] \<and>
    accepted s = delivered s @ queue_events (sys_queue s)"
proof -
  let ?e = "\<lparr>event_kind = ''x'', event_vcpu = None, event_address = None\<rparr>"
  let ?q0 = "\<lparr>queue_capacity = 1, queue_events = [], queue_closed = False, queue_poisoned = False\<rparr>"
  let ?q1 = "?q0\<lparr>queue_events := [?e]\<rparr>"
  let ?s1 = "push_call 0 (event_init ?q0) ?e"
  have s1: "?s1 = (event_init ?q0)\<lparr>sys_queue := ?q1, accepted := [?e]\<rparr>"
    by (simp add: push_call_def push_def event_init_def notify_one_def)
  have "next_event_enter (Some 5) 3 (sys_queue ?s1) = (?q0, Inr (Return (Some ?e)))"
    unfolding s1 by (simp add: next_event_enter_def next_event_poll_def)
  then have "event_step ?s1 (deliver ?s1 ?q0 (Return (Some ?e)) 0 (Some 5) 3)"
    by (rule event_step.entered [rotated]) (simp only: s1, simp add: event_init_def)
  then have reach: "event_reachable ?q0 (deliver ?s1 ?q0 (Return (Some ?e)) 0 (Some 5) 3)"
    by (meson event_reachable.init event_reachable.step event_step.pushed)
  have "delivered (deliver ?s1 ?q0 (Return (Some ?e)) 0 (Some 5) 3) = [?e]"
    unfolding s1 by (simp add: deliver_def event_init_def)
  with events_exactly_once [OF event_fixture reach] reach event_fixture show ?thesis by blast
qed

text \<open>
  C13: No wake-up is lost and no wait is unbounded. In every reachable state, while a consumer sleeps without being
  notified the queue is open and there are at least as many notified consumers as queued events, so that every
  queued event has a consumer of its own that is about to run; such a consumer, whenever it runs and whether or not its
  time is over, returns the oldest event. Every wait with a deadline ends at the deadline, and every other one lasts a
  day, after which the consumer looks at the queue again. After a close nobody sleeps.
\<close>

theorem no_lost_wakeup:
  assumes "queue_new cap = Inr q0" "event_reachable q0 s"
  shows "(sleepers s \<noteq> [] \<longrightarrow>
      \<not> queue_closed (sys_queue s) \<and> length (queue_events (sys_queue s)) \<le> length (notified s)) \<and>
    (\<forall>w \<in> set (sleepers s @ notified s).
      (case wait_deadline w of
         Some d \<Rightarrow> 0 < wait_span w \<and> wait_since w + wait_span w = d
       | None \<Rightarrow> wait_span w = 86400 * 10 ^ 9) \<and>
      (\<forall>timed_out now e rest. queue_events (sys_queue s) = e # rest \<longrightarrow>
        next_event_wake (wait_deadline w) timed_out now (sys_queue s) =
          ((sys_queue s)\<lparr>queue_events := rest\<rparr>, Inr (Return (Some e)))))"
proof -
  have "waiters_inv s" by (rule waiters_inv_reachable [OF assms(2)])
  moreover have "\<not> queue_poisoned (sys_queue s)" using event_inv_reachable [OF assms] by (simp add: event_inv_def)
  ultimately show ?thesis
    by (auto simp: waiters_inv_def bounded_wait_def next_event_wake_def next_event_poll_def)
qed

theorem no_lost_wakeup_witness:
  "\<exists>q0 s. queue_new 1 = Inr q0 \<and> event_reachable q0 s \<and> length (sleepers s) = 1 \<and> length (notified s) = 1 \<and>
    length (queue_events (sys_queue s)) = 1 \<and> length (queue_events (sys_queue s)) \<le> length (notified s)"
proof -
  let ?e = "\<lparr>event_kind = ''x'', event_vcpu = None, event_address = None\<rparr>"
  let ?q0 = "\<lparr>queue_capacity = 1, queue_events = [], queue_closed = False, queue_poisoned = False\<rparr>"
  let ?s1 = "deliver (event_init ?q0) ?q0 (Wait 2) 0 (Some 5) 3"
  let ?s2 = "deliver ?s1 ?q0 (Wait MAX_WAIT_SLICE) 1 None 4"
  let ?s3 = "push_call 0 ?s2 ?e"
  have "event_step (event_init ?q0) ?s1"
    by (intro event_step.entered) (simp_all add: event_init_def next_event_enter_def next_event_poll_def)
  moreover have "event_step ?s1 ?s2"
    by (intro event_step.entered) (simp_all add: deliver_def event_init_def next_event_enter_def next_event_poll_def)
  ultimately have reach: "event_reachable ?q0 ?s3"
    by (meson event_reachable.init event_reachable.step event_step.pushed)
  have "sleepers ?s3 \<noteq> []" "length (sleepers ?s3) = 1" "length (notified ?s3) = 1" "length (queue_events (sys_queue ?s3)) = 1"
    by (simp_all add: push_call_def push_def deliver_def event_init_def notify_one_def remove_nth_def)
  with no_lost_wakeup [OF event_fixture reach] show ?thesis using reach event_fixture by blast
qed

end
