(* ===== verification/Views.thy ===== *)
theory Views
  imports Driver_Api
begin

text \<open>
  The crate \<open>vmi-views\<close>: identifiers of alternative memory views, kept as a bitmap of 1024 words
  with a count. \<open>create\<close> scans the 16-bit identifiers cyclically; its loop is a recursion that
  terminates because the distance to the starting identifier shrinks. The locale
  \<open>view_registry\<close> is the contract of the manager over the set of its identifiers.
\<close>

section \<open>The bitmap (lib.rs)\<close>

record view_state =
  view_words :: "u64 list"
  view_count :: usize
  view_active :: u16
  view_next :: u16

definition view_location :: "u16 \<Rightarrow> (usize \<times> u64) result" where
  "view_location view =
     (let raw = unat view; word = raw div 64 in
      and_then (ok_or (if raw mod 64 < 2 ^ 32 then Some (raw mod 64) else None)
        (Backend ''memory view bitmap shift overflow'')) (\<lambda>shift.
      and_then (ok_or (checked_shl 1 shift) (Backend ''memory view bitmap mask overflow'')) (\<lambda>m.
        Inr (word, m))))"

definition word_or_default :: "view_state \<Rightarrow> usize \<Rightarrow> u64" where
  "word_or_default st word = (case get_at (view_words st) word of Some w \<Rightarrow> w | None \<Rightarrow> 0)"

definition view_contains :: "view_state \<Rightarrow> u16 \<Rightarrow> bool result" where
  "view_contains st view =
     (if view = 0 then Inr True
      else and_then (view_location view) (\<lambda>(word, m). Inr (word_or_default st word AND m \<noteq> 0)))"

definition view_insert :: "view_state \<Rightarrow> u16 \<Rightarrow> view_state \<times> bool result" where
  "view_insert st view =
     (case view_location view of
        Inl e \<Rightarrow> (st, Inl e)
      | Inr (word, m) \<Rightarrow>
          if word_or_default st word AND m \<noteq> 0 then (st, Inr False)
          else
            (case usize_checked_add (view_count st) 1 of
               None \<Rightarrow> (st, Inl (Backend ''memory view count overflow''))
             | Some next_count \<Rightarrow>
                 (case get_at (view_words st) word of
                    None \<Rightarrow> (st, Inl (Backend ''memory view bitmap index overflow''))
                  | Some entry \<Rightarrow>
                      (st\<lparr>view_words := (view_words st)[word := entry OR m], view_count := next_count\<rparr>,
                       Inr True))))"

definition view_remove :: "view_state \<Rightarrow> u16 \<Rightarrow> view_state \<times> bool result" where
  "view_remove st view =
     (case view_location view of
        Inl e \<Rightarrow> (st, Inl e)
      | Inr (word, m) \<Rightarrow>
          if word_or_default st word AND m = 0 then (st, Inr False)
          else
            (case usize_checked_sub (view_count st) 1 of
               None \<Rightarrow> (st, Inl (Backend ''memory view count underflow''))
             | Some next_count \<Rightarrow>
                 (case get_at (view_words st) word of
                    None \<Rightarrow> (st, Inl (Backend ''memory view bitmap index overflow''))
                  | Some entry \<Rightarrow>
                      (st\<lparr>view_words := (view_words st)[word := entry AND NOT m], view_count := next_count\<rparr>,
                       Inr True))))"

section \<open>The manager\<close>

record view_manager =
  manager_state :: view_state
  manager_poisoned :: bool

definition manager_new :: view_manager where
  "manager_new =
     \<lparr>manager_state = \<lparr>view_words = replicate 1024 0, view_count = 1, view_active = 0, view_next = 1\<rparr>,
      manager_poisoned = False\<rparr>"

definition views_poisoned :: "string \<Rightarrow> vmi_error" where
  "views_poisoned error = Backend (''memory view synchronization failed: '' @ error)"

definition with_views ::
  "view_manager \<Rightarrow> (view_state \<Rightarrow> view_state \<times> 'a result) \<Rightarrow> view_manager \<times> 'a result" where
  "with_views m f =
     (if manager_poisoned m then (m, Inl (views_poisoned poisoned_lock))
      else (case f (manager_state m) of (st, r) \<Rightarrow> (m\<lparr>manager_state := st\<rparr>, r)))"

lemma cyclic_distance: "c + 1 \<noteq> start \<Longrightarrow> unat (start - c - 1) = Suc (unat (start - (c + 1) - 1))"
  for c start :: u16
proof -
  assume "c + 1 \<noteq> start"
  define d where "d = start - c - 1"
  have "d \<noteq> 0"
    using \<open>c + 1 \<noteq> start\<close> by (auto simp: d_def algebra_simps)
  then have "unat (d - 1) = unat d - 1" "unat d \<noteq> 0"
    by (simp_all add: unat_minus_one unat_eq_zero)
  moreover have "start - (c + 1) - 1 = d - 1"
    by (simp add: d_def algebra_simps)
  ultimately show ?thesis
    by (simp flip: d_def)
qed

lemma view_insert_next: "view_insert st v = (st', r) \<Longrightarrow> view_next st' = view_next st"
  by (auto simp: view_insert_def split: sum.splits if_splits option.splits)

function create_loop :: "u16 \<Rightarrow> view_state \<Rightarrow> view_state \<times> u16 result" where
  "create_loop start st =
     (let candidate = view_next st; st1 = st\<lparr>view_next := view_next st + 1\<rparr> in
      case (if candidate \<noteq> 0 then view_insert st1 candidate else (st1, Inr False)) of
        (st2, Inl e) \<Rightarrow> (st2, Inl e)
      | (st2, Inr True) \<Rightarrow> (st2, Inr candidate)
      | (st2, Inr False) \<Rightarrow>
          if view_next st2 = start then (st2, Inl (Backend ''memory view identifiers exhausted''))
          else create_loop start st2)"
  by pat_completeness auto

termination
proof (relation "measure (\<lambda>(start, st). unat (start - view_next st - 1))", simp)
  fix start st candidate st1 p st2 and r :: "bool result" and b
  assume *: "candidate = view_next st" "st1 = st\<lparr>view_next := view_next st + 1\<rparr>"
    "(st2, r) = (if candidate \<noteq> 0 then view_insert st1 candidate else (st1, Inr False))"
    "view_next st2 \<noteq> start"
  have "view_next st2 = view_next st + 1"
    using *(1-3) view_insert_next [of st1 candidate st2 r] by (auto split: if_splits)
  with *(4) cyclic_distance [of "view_next st" start]
  show "((start, st2), (start, st)) \<in> measure (\<lambda>(start, st). unat (start - view_next st - 1))"
    by simp
qed

declare create_loop.simps [simp del]

definition create_view :: "view_manager \<Rightarrow> view_manager \<times> u16 result" where
  "create_view m = with_views m (\<lambda>st. create_loop (view_next st) st)"

definition destroy_view :: "view_manager \<Rightarrow> u16 \<Rightarrow> view_manager \<times> unit result" where
  "destroy_view m view =
     with_views m (\<lambda>st.
       if view = 0 then (st, Inl (Backend ''default memory view cannot be destroyed''))
       else if view = view_active st then
         (st, Inl (Backend (''active memory view '' @ dec (unat view) @ '' cannot be destroyed'')))
       else
         (case view_remove st view of
            (st', Inl e) \<Rightarrow> (st', Inl e)
          | (st', Inr removed) \<Rightarrow>
              if \<not> removed then (st', Inl (Backend (''memory view '' @ dec (unat view) @ '' does not exist'')))
              else (st', Inr ())))"

fun list_views_loop :: "view_state \<Rightarrow> u16 list \<Rightarrow> u16 list result" where
  "list_views_loop st [] = Inr []"
| "list_views_loop st (v # vs) =
     and_then (view_contains st v) (\<lambda>present.
     and_then (list_views_loop st vs) (\<lambda>rest. Inr (if present then v # rest else rest)))"

definition list_views :: "view_manager \<Rightarrow> u16 list result" where
  "list_views m =
     snd (with_views m (\<lambda>st.
       (st, if \<not> reservable (2 * view_count st) then
              Inl (Backend (''failed to allocate memory view list: '' @ capacity_overflow))
            else list_views_loop st (map of_nat [0 ..< 2 ^ 16]))))"

definition manager_active_view :: "view_manager \<Rightarrow> u16 result" where
  "manager_active_view m = snd (with_views m (\<lambda>st. (st, Inr (view_active st))))"

definition manager_switch_view :: "view_manager \<Rightarrow> u16 \<Rightarrow> view_manager \<times> unit result" where
  "manager_switch_view m view =
     with_views m (\<lambda>st.
       case view_contains st view of
         Inl e \<Rightarrow> (st, Inl e)
       | Inr present \<Rightarrow>
           if \<not> present then (st, Inl (Backend (''memory view '' @ dec (unat view) @ '' does not exist'')))
           else (st\<lparr>view_active := view\<rparr>, Inr ()))"

section \<open>The bitmap as a set\<close>

definition bitmap_views :: "view_state \<Rightarrow> u16 set" where
  "bitmap_views st = {v. bit (view_words st ! (unat v div 64)) (unat v mod 64)}"

definition view_set :: "view_state \<Rightarrow> u16 set" where
  "view_set st = insert 0 (bitmap_views st)"

definition view_ok :: "view_state \<Rightarrow> bool" where
  "view_ok st \<longleftrightarrow> length (view_words st) = 1024 \<and> 0 \<notin> bitmap_views st \<and>
     view_count st = card (view_set st) \<and> view_active st \<in> view_set st"

lemma view_index: "unat (v :: u16) div 64 < 1024" "unat (v :: u16) mod 64 < 64"
proof -
  have "unat v < 65536"
    using unsigned_less [of v] by simp
  then show "unat v div 64 < 1024"
    by (simp add: less_mult_imp_div_less)
qed simp

lemma view_location_eq: "view_location v = Inr (unat v div 64, push_bit (unat v mod 64) 1)"
proof -
  have "unat v mod 64 < 2 ^ 32" "unat v mod 64 < 64"
    using view_index(2) [of v] by simp_all
  then show ?thesis
    by (simp add: view_location_def checked_shl_def Let_def)
qed

lemma word_bit_test: "w AND push_bit n 1 = 0 \<longleftrightarrow> \<not> bit w n" if "n < 64" for w :: u64
proof -
  have eq: "w AND push_bit n 1 = (if bit w n then push_bit n 1 else 0)"
    by (rule bit_word_eqI) (auto simp: bit_simps)
  have "bit (push_bit n 1 :: u64) n"
    using that by (simp add: bit_simps)
  then have "(push_bit n 1 :: u64) \<noteq> 0"
    by (metis bit_0_eq bot_apply bot_bool_def)
  then show ?thesis
    unfolding eq by simp
qed

lemma word_or_default_in:
  assumes "length (view_words st) = 1024"
  shows "word_or_default st (unat (v :: u16) div 64) = view_words st ! (unat v div 64)"
    "get_at (view_words st) (unat v div 64) = Some (view_words st ! (unat v div 64))"
  using assms view_index(1) [of v] by (simp_all add: word_or_default_def get_at_def)

lemma view_bit_test:
  assumes "length (view_words st) = 1024"
  shows "word_or_default st (unat v div 64) AND push_bit (unat v mod 64) 1 = 0 \<longleftrightarrow> v \<notin> bitmap_views st"
  unfolding word_or_default_in [OF assms] bitmap_views_def mem_Collect_eq
  by (rule word_bit_test) simp

lemma same_location: "unat v div 64 = unat w div 64 \<Longrightarrow> unat v mod 64 = unat w mod 64 \<Longrightarrow> v = w" for v w :: u16
  by (metis div_mult_mod_eq word_unat_eq_iff)

text \<open>Setting and clearing one bit of one word is inserting and removing one identifier.\<close>

lemma bitmap_views_update:
  assumes "length (view_words st) = 1024"
    and bits: "\<And>n. n < 64 \<Longrightarrow> bit w n = (if n = unat v mod 64 then b else bit (view_words st ! (unat v div 64)) n)"
  shows "bitmap_views (st\<lparr>view_words := (view_words st)[unat v div 64 := w], view_count := k\<rparr>) =
    (if b then insert v (bitmap_views st) else bitmap_views st - {v})"
proof -
  have mem: "u \<in> bitmap_views (st\<lparr>view_words := (view_words st)[unat v div 64 := w], view_count := k\<rparr>) \<longleftrightarrow>
      (if u = v then b else u \<in> bitmap_views st)" for u
  proof (cases "unat u div 64 = unat v div 64")
    case True
    then have "u = v \<longleftrightarrow> unat u mod 64 = unat v mod 64"
      using same_location [of u v] by auto
    moreover have "bit w (unat u mod 64) =
        (if unat u mod 64 = unat v mod 64 then b else bit (view_words st ! (unat v div 64)) (unat u mod 64))"
      by (rule bits) simp
    ultimately show ?thesis
      using True assms(1) view_index(1) [of v] by (simp add: bitmap_views_def)
  next
    case False
    then show ?thesis by (auto simp: bitmap_views_def)
  qed
  show ?thesis
    by (rule set_eqI) (simp only: mem insert_iff Diff_iff empty_iff split: if_split, blast)
qed

lemma view_insert_eq:
  assumes "length (view_words st) = 1024" "view_count st < 2 ^ 63"
  shows "if v \<in> bitmap_views st then view_insert st v = (st, Inr False)
    else \<exists>st'. view_insert st v = (st', Inr True) \<and> bitmap_views st' = insert v (bitmap_views st) \<and>
      length (view_words st') = 1024 \<and> view_count st' = Suc (view_count st) \<and>
      view_active st' = view_active st \<and> view_next st' = view_next st"
proof (cases "v \<in> bitmap_views st")
  case True
  then show ?thesis
    using view_bit_test [OF assms(1), of v] by (simp add: view_insert_def view_location_eq)
next
  case False
  have count: "usize_checked_add (view_count st) 1 = Some (Suc (view_count st))"
    using assms(2) by (simp add: usize_checked_add_def usize_bound_def)
  let ?w = "view_words st ! (unat v div 64) OR push_bit (unat v mod 64) 1"
  let ?st = "st\<lparr>view_words := (view_words st)[unat v div 64 := ?w], view_count := Suc (view_count st)\<rparr>"
  have "view_insert st v = (?st, Inr True)"
    using False view_bit_test [OF assms(1), of v] word_or_default_in [OF assms(1), of v] count
    by (simp add: view_insert_def view_location_eq)
  moreover have "bitmap_views ?st = insert v (bitmap_views st)"
    using bitmap_views_update [OF assms(1), of ?w v True] by (simp add: bit_simps)
  ultimately show ?thesis
    using False assms(1) by simp
qed

lemma view_remove_eq:
  assumes "length (view_words st) = 1024" "0 < view_count st"
  shows "if v \<notin> bitmap_views st then view_remove st v = (st, Inr False)
    else \<exists>st'. view_remove st v = (st', Inr True) \<and> bitmap_views st' = bitmap_views st - {v} \<and>
      length (view_words st') = 1024 \<and> view_count st' = view_count st - 1 \<and>
      view_active st' = view_active st \<and> view_next st' = view_next st"
proof (cases "v \<in> bitmap_views st")
  case False
  then show ?thesis
    using view_bit_test [OF assms(1), of v] by (simp add: view_remove_def view_location_eq)
next
  case True
  let ?w = "view_words st ! (unat v div 64) AND NOT (push_bit (unat v mod 64) 1)"
  let ?st = "st\<lparr>view_words := (view_words st)[unat v div 64 := ?w], view_count := view_count st - 1\<rparr>"
  have "view_remove st v = (?st, Inr True)"
    using True view_bit_test [OF assms(1), of v] word_or_default_in [OF assms(1), of v] assms(2)
    by (simp add: view_remove_def view_location_eq usize_checked_sub_def)
  moreover have "bitmap_views ?st = bitmap_views st - {v}"
    using bitmap_views_update [OF assms(1), of ?w v False] by (simp add: bit_simps)
  ultimately show ?thesis
    using True assms(1) by simp
qed

section \<open>Allocation of identifiers\<close>

definition loop_ok :: "view_state \<Rightarrow> bool" where
  "loop_ok st \<longleftrightarrow> length (view_words st) = 1024 \<and> 0 \<notin> bitmap_views st \<and> view_count st < 2 ^ 63"

lemma bitmap_views_next [simp]: "bitmap_views (st\<lparr>view_next := n\<rparr>) = bitmap_views st"
  by (simp add: bitmap_views_def)

lemma create_loop_taken:
  assumes "loop_ok st" "view_next st \<in> view_set st"
  shows "create_loop start st =
    (let st1 = st\<lparr>view_next := view_next st + 1\<rparr> in
     if view_next st + 1 = start then (st1, Inl (Backend ''memory view identifiers exhausted''))
     else create_loop start st1)"
proof -
  let ?st1 = "st\<lparr>view_next := view_next st + 1\<rparr>"
  have "(if view_next st \<noteq> 0 then view_insert ?st1 (view_next st) else (?st1, Inr False)) = (?st1, Inr False)"
    using assms view_insert_eq [of ?st1 "view_next st"] by (auto simp: loop_ok_def view_set_def)
  then show ?thesis
    by (simp add: create_loop.simps [of start st] Let_def)
qed

lemma create_loop_free:
  assumes "loop_ok st" "view_next st \<notin> view_set st"
  shows "\<exists>st'. create_loop start st = (st', Inr (view_next st)) \<and>
    bitmap_views st' = insert (view_next st) (bitmap_views st) \<and> length (view_words st') = 1024 \<and>
    view_count st' = Suc (view_count st) \<and> view_active st' = view_active st"
proof -
  let ?st1 = "st\<lparr>view_next := view_next st + 1\<rparr>"
  have "view_next st \<noteq> 0" "view_next st \<notin> bitmap_views ?st1"
    using assms(2) by (simp_all add: view_set_def)
  moreover from this obtain st' where "view_insert ?st1 (view_next st) = (st', Inr True)"
    "bitmap_views st' = insert (view_next st) (bitmap_views st)" "length (view_words st') = 1024"
    "view_count st' = Suc (view_count st)" "view_active st' = view_active st"
    using view_insert_eq [of ?st1 "view_next st"] assms(1) by (auto simp: loop_ok_def)
  ultimately show ?thesis
    by (simp add: create_loop.simps [of start st] Let_def)
qed

text \<open>The identifiers in the order in which the loop tries them.\<close>

definition scan :: "u16 \<Rightarrow> u16 \<Rightarrow> u16 list" where
  "scan c start = map (\<lambda>k. c + of_nat k) [0 ..< Suc (unat (start - c - 1))]"

lemma scan_last: "c + 1 = start \<Longrightarrow> scan c start = [c]"
  by (auto simp: scan_def)

lemma scan_step: "c + 1 \<noteq> start \<Longrightarrow> scan c start = c # scan (c + 1) start"
proof -
  assume "c + 1 \<noteq> start"
  from cyclic_distance [OF this] show ?thesis
    unfolding scan_def by (subst upt_conv_Cons) (simp_all add: map_Suc_upt [symmetric] add.assoc del: upt_Suc)
qed

lemma scan_all: "set (scan c c) = UNIV"
proof -
  have "v \<in> set (scan c c)" for v
  proof -
    have "unat (v - c) < 65536"
      using unsigned_less [of "v - c"] by simp
    then have "unat (v - c) < Suc (unat (c - c - 1 :: u16))"
      by (simp add: unsigned_minus_1_eq_mask mask_eq_exp_minus_1)
    moreover have "c + of_nat (unat (v - c)) = v"
      by simp
    ultimately show ?thesis
      unfolding scan_def set_map set_upt by (intro image_eqI [of v _ "unat (v - c)"]) simp_all
  qed
  then show ?thesis by auto
qed

lemma create_loop_result:
  assumes "loop_ok st"
  shows "case find (\<lambda>v. v \<notin> view_set st) (scan (view_next st) start) of
      Some v \<Rightarrow> (\<exists>st'. create_loop start st = (st', Inr v) \<and> bitmap_views st' = insert v (bitmap_views st) \<and>
        length (view_words st') = 1024 \<and> view_count st' = Suc (view_count st) \<and> view_active st' = view_active st)
    | None \<Rightarrow> (\<exists>st'. create_loop start st = (st', Inl (Backend ''memory view identifiers exhausted'')) \<and>
        bitmap_views st' = bitmap_views st \<and> length (view_words st') = 1024 \<and>
        view_count st' = view_count st \<and> view_active st' = view_active st)"
  using assms
proof (induction "unat (start - view_next st - 1)" arbitrary: st rule: less_induct)
  case less
  let ?c = "view_next st" and ?st1 = "st\<lparr>view_next := view_next st + 1\<rparr>"
  have head: "find P (scan ?c start) = Some ?c" if "P ?c" for P
    using that scan_last [of ?c start] scan_step [of ?c start] by (cases "?c + 1 = start") simp_all
  show ?case
  proof (cases "?c \<in> view_set st")
    case False
    then show ?thesis
      using create_loop_free [OF less.prems, of start] by (simp add: head)
  next
    case True
    note taken = create_loop_taken [OF less.prems True, of start, unfolded Let_def]
    show ?thesis
    proof (cases "?c + 1 = start")
      case last: True
      with taken True less.prems show ?thesis
        by (simp add: scan_last loop_ok_def)
    next
      case False
      have "loop_ok ?st1" "view_set ?st1 = view_set st" "unat (start - view_next ?st1 - 1) < unat (start - ?c - 1)"
        using less.prems cyclic_distance [OF False] by (simp_all add: loop_ok_def view_set_def)
      then show ?thesis
        using less.hyps [of ?st1] taken True False by (simp add: scan_step split: option.splits)
    qed
  qed
qed

lemma view_set_card: "card (view_set st) < 2 ^ 63"
proof -
  have "card (view_set st) \<le> card (UNIV :: u16 set)"
    by (intro card_mono) simp_all
  then show ?thesis by (simp add: card_word)
qed

lemma view_ok_loop_ok: "view_ok st \<Longrightarrow> loop_ok st"
  using view_set_card [of st] by (simp add: view_ok_def loop_ok_def)

lemma view_set_0 [simp]: "0 \<in> view_set st"
  by (simp add: view_set_def)

lemma view_set_count: "view_ok st \<Longrightarrow> 0 < view_count st \<and> view_count st \<le> 65536"
proof -
  assume "view_ok st"
  moreover have "card (view_set st) \<le> card (UNIV :: u16 set)" "0 < card (view_set st)"
    by (intro card_mono) (simp_all add: card_gt_0_iff view_set_def)
  ultimately show ?thesis by (simp add: view_ok_def card_word)
qed

section \<open>The operations keep the invariant\<close>

lemma create_loop_ok:
  assumes "view_ok st"
  shows "case find (\<lambda>v. v \<notin> view_set st) (scan (view_next st) start) of
      Some v \<Rightarrow> (\<exists>st'. create_loop start st = (st', Inr v) \<and> view_ok st' \<and> view_set st' = insert v (view_set st) \<and>
        view_active st' = view_active st)
    | None \<Rightarrow> (\<exists>st'. create_loop start st = (st', Inl (Backend ''memory view identifiers exhausted'')) \<and>
        view_ok st' \<and> view_set st' = view_set st \<and> view_active st' = view_active st)"
proof (cases "find (\<lambda>v. v \<notin> view_set st) (scan (view_next st) start)")
  case None
  with create_loop_result [OF view_ok_loop_ok [OF assms], of start] obtain st' where
    "create_loop start st = (st', Inl (Backend ''memory view identifiers exhausted''))"
    "bitmap_views st' = bitmap_views st" "length (view_words st') = 1024"
    "view_count st' = view_count st" "view_active st' = view_active st"
    by auto
  with None assms show ?thesis
    by (simp add: view_ok_def view_set_def)
next
  case (Some v)
  then have v: "v \<notin> view_set st"
    by (auto simp: find_Some_iff)
  from Some create_loop_result [OF view_ok_loop_ok [OF assms], of start] obtain st' where
    st': "create_loop start st = (st', Inr v)"
    "bitmap_views st' = insert v (bitmap_views st)" "length (view_words st') = 1024"
    "view_count st' = Suc (view_count st)" "view_active st' = view_active st"
    by auto
  then have set: "view_set st' = insert v (view_set st)"
    by (auto simp: view_set_def)
  moreover from this v st' assms have "view_ok st'"
    by (auto simp: view_ok_def view_set_def)
  ultimately show ?thesis
    using Some st' by simp
qed

lemma view_remove_ok:
  assumes "view_ok st" "v \<noteq> 0" "v \<noteq> view_active st"
  shows "if v \<notin> view_set st then view_remove st v = (st, Inr False)
    else \<exists>st'. view_remove st v = (st', Inr True) \<and> view_ok st' \<and> view_set st' = view_set st - {v} \<and>
      view_active st' = view_active st"
proof -
  have "0 < view_count st" "length (view_words st) = 1024"
    using assms(1) view_set_count by (auto simp: view_ok_def)
  note removed = view_remove_eq [OF this(2,1), of v]
  show ?thesis
  proof (cases "v \<in> view_set st")
    case False
    with removed show ?thesis by (simp add: view_set_def)
  next
    case True
    with removed assms(2) obtain st' where
      st': "view_remove st v = (st', Inr True)" "bitmap_views st' = bitmap_views st - {v}"
      "length (view_words st') = 1024" "view_count st' = view_count st - 1" "view_active st' = view_active st"
      by (auto simp: view_set_def)
    then have set: "view_set st' = view_set st - {v}"
      using assms(2) by (auto simp: view_set_def)
    then have "card (view_set st') = view_count st - 1"
      using True assms(1) by (simp add: view_ok_def)
    with st' set assms have "view_ok st'"
      unfolding view_ok_def by simp
    with True st' set show ?thesis by auto
  qed
qed

lemma view_contains_eq: "view_ok st \<Longrightarrow> view_contains st v = Inr (v \<in> view_set st)"
  using view_bit_test [of st v]
  by (simp add: view_contains_def view_location_eq view_ok_def view_set_def)

lemma list_views_loop_eq:
  "view_ok st \<Longrightarrow> list_views_loop st vs = Inr (filter (\<lambda>v. v \<in> view_set st) vs)"
  by (induction vs) (simp_all add: view_contains_eq)

lemma sorted_words: "n \<le> 65536 \<Longrightarrow> sorted (map of_nat [0 ..< n] :: u16 list) \<and> distinct (map of_nat [0 ..< n] :: u16 list)"
proof (induction n)
  case (Suc n)
  have "unat (of_nat i :: u16) = i" if "i \<le> n" for i
    using that Suc.prems by (simp add: unat_of_nat take_bit_nat_eq_self)
  then have less: "(of_nat i :: u16) < of_nat n" if "i < n" for i
    using that by (simp add: word_less_nat_alt)
  then have "(of_nat i :: u16) \<le> of_nat n" "(of_nat n :: u16) \<noteq> of_nat i" if "i < n" for i
    using less [OF that] by auto
  moreover have "distinct (map of_nat [0 ..< n] :: u16 list)" "sorted (map of_nat [0 ..< n] :: u16 list)"
    using Suc by simp_all
  ultimately show ?case
    by (fastforce simp: sorted_append)
qed simp

lemma all_words: "set (map of_nat [0 ..< 2 ^ 16] :: u16 list) = UNIV"
proof -
  have "v \<in> of_nat ` {0 ..< 2 ^ 16 :: nat}" for v :: u16
  proof (rule image_eqI)
    show "v = of_nat (unat v)" by simp
    show "unat v \<in> {0 ..< 2 ^ 16}" using unsigned_less [of v] by simp
  qed
  then show ?thesis unfolding set_map set_upt by auto
qed

section \<open>The contract of the manager\<close>

text \<open>A history of the manager: the operations that its clients call, in the order of the mutex.\<close>

datatype view_op = Create | Destroy u16 | Switch u16

locale view_registry =
  fixes ids :: "'m \<Rightarrow> u16 set"
    and active :: "'m \<Rightarrow> u16"
    and ok :: "'m \<Rightarrow> bool"
    and create :: "'m \<Rightarrow> 'm \<times> u16 result"
    and destroy :: "'m \<Rightarrow> u16 \<Rightarrow> 'm \<times> unit result"
    and switch :: "'m \<Rightarrow> u16 \<Rightarrow> 'm \<times> unit result"
  assumes default_exists: "ok m \<Longrightarrow> 0 \<in> ids m"
    and active_exists: "ok m \<Longrightarrow> active m \<in> ids m"
    and create_law: "ok m \<Longrightarrow> create m = (m', r) \<Longrightarrow> ok m' \<and> active m' = active m \<and>
      (case r of Inr v \<Rightarrow> v \<notin> ids m \<and> ids m' = insert v (ids m) | Inl _ \<Rightarrow> ids m' = ids m)"
    and destroy_law: "ok m \<Longrightarrow> destroy m v = (m', d) \<Longrightarrow> ok m' \<and> active m' = active m \<and>
      (if v \<noteq> 0 \<and> v \<noteq> active m \<and> v \<in> ids m then d = Inr () \<and> ids m' = ids m - {v}
       else isl d \<and> ids m' = ids m)"
    and switch_law: "ok m \<Longrightarrow> switch m v = (m', d) \<Longrightarrow> ok m' \<and> ids m' = ids m \<and>
      (if v \<in> ids m then d = Inr () \<and> active m' = v else isl d \<and> active m' = active m)"
begin

fun step :: "view_op \<Rightarrow> 'm \<Rightarrow> 'm" where
  "step Create m = fst (create m)"
| "step (Destroy v) m = fst (destroy m v)"
| "step (Switch v) m = fst (switch m v)"

lemmas results = create_law [OF _ prod.collapse [symmetric]] destroy_law [OF _ prod.collapse [symmetric]]
  switch_law [OF _ prod.collapse [symmetric]]

lemma step_ok: "ok m \<Longrightarrow> ok (step a m)"
  by (cases a) (simp_all add: results)

lemma history_ok: "ok m \<Longrightarrow> ok (fold step ops m)"
  by (induction ops arbitrary: m) (simp_all add: step_ok)

lemma history_active: "ok m \<Longrightarrow> {0, active (fold step ops m)} \<subseteq> ids (fold step ops m)"
  using history_ok [of m ops] default_exists active_exists by simp

lemma destroy_create_fresh:
  assumes "ok m" "create m = (m1, Inr v)" "v \<noteq> active m"
  shows "\<exists>m2. destroy m1 v = (m2, Inr ()) \<and> ids m2 = ids m \<and> ok m2"
proof -
  from create_law [OF assms(1,2)] have m1: "ok m1" "active m1 = active m" "v \<notin> ids m" "ids m1 = insert v (ids m)"
    by simp_all
  moreover obtain m2 r where d: "destroy m1 v = (m2, r)" by (cases "destroy m1 v")
  moreover have "v \<noteq> 0" using m1(3) default_exists [OF assms(1)] by metis
  ultimately show ?thesis
    using destroy_law [OF m1(1) d] assms(3) by auto
qed

lemma active_never_destroyed: "ok m \<Longrightarrow> isl (snd (destroy m (active m))) \<and> isl (snd (destroy m 0))"
  using results(2) [of m "active m"] results(2) [of m 0] by simp

end

definition manager_ids :: "view_manager \<Rightarrow> u16 set" where
  "manager_ids m = view_set (manager_state m)"

definition manager_ok :: "view_manager \<Rightarrow> bool" where
  "manager_ok m \<longleftrightarrow> \<not> manager_poisoned m \<and> view_ok (manager_state m)"

lemma with_views_ok: "manager_ok m \<Longrightarrow> with_views m f = (case f (manager_state m) of (st, r) \<Rightarrow> (m\<lparr>manager_state := st\<rparr>, r))"
  by (simp add: with_views_def manager_ok_def)

lemma create_view_cases:
  assumes "manager_ok m"
  obtains (fresh) v st where "find (\<lambda>v. v \<notin> manager_ids m) (scan (view_next (manager_state m)) (view_next (manager_state m))) = Some v"
      "create_view m = (m\<lparr>manager_state := st\<rparr>, Inr v)" "view_ok st"
      "view_set st = insert v (manager_ids m)" "view_active st = view_active (manager_state m)"
  | (exhausted) st where "find (\<lambda>v. v \<notin> manager_ids m) (scan (view_next (manager_state m)) (view_next (manager_state m))) = None"
      "create_view m = (m\<lparr>manager_state := st\<rparr>, Inl (Backend ''memory view identifiers exhausted''))"
      "view_ok st" "view_set st = manager_ids m" "view_active st = view_active (manager_state m)"
proof -
  let ?st = "manager_state m"
  have ok: "view_ok ?st" using assms by (simp add: manager_ok_def)
  show thesis
  proof (cases "find (\<lambda>v. v \<notin> manager_ids m) (scan (view_next ?st) (view_next ?st))")
    case None
    with create_loop_ok [OF ok, of "view_next ?st"] exhausted show thesis
      by (auto simp: create_view_def with_views_ok [OF assms] manager_ids_def)
  next
    case (Some v)
    with create_loop_ok [OF ok, of "view_next ?st"] fresh show thesis
      by (auto simp: create_view_def with_views_ok [OF assms] manager_ids_def)
  qed
qed

lemma destroy_view_cases:
  assumes "manager_ok m"
  obtains (gone) st where "v \<noteq> 0" "v \<noteq> view_active (manager_state m)" "v \<in> manager_ids m"
      "destroy_view m v = (m\<lparr>manager_state := st\<rparr>, Inr ())" "view_ok st" "view_set st = manager_ids m - {v}"
      "view_active st = view_active (manager_state m)"
  | (refused) e where "v = 0 \<or> v = view_active (manager_state m) \<or> v \<notin> manager_ids m"
      "destroy_view m v = (m, Inl (Backend e))"
proof (cases "v = 0 \<or> v = view_active (manager_state m)")
  case True
  then obtain e where "destroy_view m v = (m, Inl (Backend e))"
    by (cases "v = 0") (simp_all add: destroy_view_def with_views_ok [OF assms])
  with True show thesis
    using refused by blast
next
  case False
  with view_remove_ok [of "manager_state m" v] assms show thesis
    using gone refused
    by (auto simp: destroy_view_def with_views_ok [OF assms] manager_ok_def manager_ids_def split: if_splits)
qed

lemma switch_view_eq:
  assumes "manager_ok m"
  shows "manager_switch_view m v =
    (if v \<in> manager_ids m then (m\<lparr>manager_state := (manager_state m)\<lparr>view_active := v\<rparr>\<rparr>, Inr ())
     else (m, Inl (Backend (''memory view '' @ dec (unat v) @ '' does not exist''))))"
proof -
  have "view_contains (manager_state m) v = Inr (v \<in> manager_ids m)"
    using assms view_contains_eq by (simp add: manager_ok_def manager_ids_def)
  then show ?thesis
    by (simp add: manager_switch_view_def with_views_ok [OF assms])
qed

interpretation vm: view_registry manager_ids "\<lambda>m. view_active (manager_state m)" manager_ok
  create_view destroy_view manager_switch_view
proof unfold_locales
  fix m m' and r :: "u16 result"
  assume m: "manager_ok m" "create_view m = (m', r)"
  from m(1) show "manager_ok m' \<and> view_active (manager_state m') = view_active (manager_state m) \<and>
      (case r of Inr v \<Rightarrow> v \<notin> manager_ids m \<and> manager_ids m' = insert v (manager_ids m)
       | Inl _ \<Rightarrow> manager_ids m' = manager_ids m)"
  proof (cases rule: create_view_cases)
    case (fresh v st)
    then have "v \<notin> manager_ids m" by (auto simp: find_Some_iff)
    with fresh m show ?thesis by (auto simp: manager_ok_def manager_ids_def)
  next
    case (exhausted st)
    with m show ?thesis by (auto simp: manager_ok_def manager_ids_def)
  qed
next
  fix m m' v and r :: "unit result"
  assume m: "manager_ok m" "destroy_view m v = (m', r)"
  from m(1) show "manager_ok m' \<and> view_active (manager_state m') = view_active (manager_state m) \<and>
      (if v \<noteq> 0 \<and> v \<noteq> view_active (manager_state m) \<and> v \<in> manager_ids m
       then r = Inr () \<and> manager_ids m' = manager_ids m - {v} else isl r \<and> manager_ids m' = manager_ids m)"
    by (cases rule: destroy_view_cases [where v = v]) (use m in \<open>auto simp: manager_ok_def manager_ids_def\<close>)
next
  fix m m' v and r :: "unit result"
  assume m: "manager_ok m" "manager_switch_view m v = (m', r)"
  then show "manager_ok m' \<and> manager_ids m' = manager_ids m \<and>
      (if v \<in> manager_ids m then r = Inr () \<and> view_active (manager_state m') = v
       else isl r \<and> view_active (manager_state m') = view_active (manager_state m))"
    by (auto simp: switch_view_eq manager_ok_def manager_ids_def view_ok_def view_set_def bitmap_views_def
        split: if_splits)
qed (auto simp: manager_ids_def manager_ok_def view_ok_def)

section \<open>Properties of the views\<close>

text \<open>One operation of a history, with its result dropped.\<close>

fun view_step :: "view_op \<Rightarrow> view_manager \<Rightarrow> view_manager" where
  "view_step Create m = fst (create_view m)"
| "view_step (Destroy v) m = fst (destroy_view m v)"
| "view_step (Switch v) m = fst (manager_switch_view m v)"

lemma view_step_eq: "view_step = vm.step"
proof (intro ext)
  show "view_step a m = vm.step a m" for a m by (cases a) simp_all
qed

lemma manager_new_ok: "manager_ok manager_new" "manager_ids manager_new = {0}"
proof -
  have bits: "bitmap_views (manager_state manager_new) = {}"
    using view_index(1) by (auto simp: bitmap_views_def manager_new_def)
  then show "manager_ids manager_new = {0}"
    by (simp add: manager_ids_def view_set_def)
  with bits show "manager_ok manager_new"
    by (simp add: manager_ok_def view_ok_def manager_ids_def view_set_def) (simp add: manager_new_def)
qed

lemma list_views_eq:
  "manager_ok m \<Longrightarrow> list_views m = Inr (filter (\<lambda>v. v \<in> manager_ids m) (map of_nat [0 ..< 2 ^ 16]))"
proof -
  assume m: "manager_ok m"
  then have "reservable (2 * view_count (manager_state m))"
    using view_set_count [of "manager_state m"] by (simp add: manager_ok_def reservable_def isize_max_def)
  with m show ?thesis
    unfolding list_views_def with_views_ok [OF m]
    by (simp add: list_views_loop_eq manager_ok_def manager_ids_def del: upt_Suc)
qed

text \<open>C14: \<open>MemoryViewManager::create\<close> always returns. It hands out the first identifier, in cyclic
  order from \<open>next\<close>, that is not in use (never the default view 0 and never an identifier in use), and
  fails exactly when all 65536 identifiers are in use; nothing else of the set changes.\<close>

theorem create_view_allocates:
  assumes "manager_ok m"
  shows "if manager_ids m = UNIV
    then \<exists>m'. create_view m = (m', Inl (Backend ''memory view identifiers exhausted'')) \<and> manager_ok m' \<and>
      manager_ids m' = manager_ids m
    else \<exists>m' k. let v = view_next (manager_state m) + of_nat k in
      k < 2 ^ 16 \<and> create_view m = (m', Inr v) \<and> manager_ok m' \<and> v \<noteq> 0 \<and> v \<notin> manager_ids m \<and>
      manager_ids m' = insert v (manager_ids m) \<and>
      (\<forall>j < k. view_next (manager_state m) + of_nat j \<in> manager_ids m)"
  using assms
proof (cases rule: create_view_cases)
  case (exhausted st)
  then have "manager_ids m = UNIV"
    using scan_all by (auto simp: find_None_iff)
  with exhausted assms show ?thesis
    by (auto simp: manager_ok_def manager_ids_def)
next
  case (fresh v st)
  let ?n = "view_next (manager_state m)"
  have len: "length (scan ?n ?n) = 2 ^ 16" and nth: "k < 2 ^ 16 \<Longrightarrow> scan ?n ?n ! k = ?n + of_nat k" for k
    unfolding scan_def by (simp_all add: unsigned_minus_1_eq_mask mask_eq_exp_minus_1 del: upt_Suc)
  from fresh(1) obtain k where k: "k < 2 ^ 16" "v \<notin> manager_ids m" "v = scan ?n ?n ! k"
    "\<forall>j < k. scan ?n ?n ! j \<in> manager_ids m"
    unfolding find_Some_iff len by blast
  then have "v = ?n + of_nat k" "\<forall>j < k. ?n + of_nat j \<in> manager_ids m"
    by (simp_all add: nth)
  moreover have "v \<noteq> 0"
    using k(2) vm.default_exists [OF assms] by auto
  ultimately show ?thesis
    using k fresh assms by (auto simp: manager_ok_def manager_ids_def Let_def intro!: exI [of _ k])
qed

lemma create_view_first: "\<exists>m'. create_view manager_new = (m', Inr 1)"
proof -
  have s: "scan (view_next (manager_state manager_new)) (view_next (manager_state manager_new)) = 1 # scan 2 1"
    using scan_step [of 1 1] by (simp add: manager_new_def)
  from manager_new_ok(1) show ?thesis
    by (cases rule: create_view_cases) (simp_all add: s manager_new_ok(2))
qed

theorem create_view_allocates_witness:
  "manager_ok manager_new \<and> (\<exists>m'. create_view manager_new = (m', Inr 1) \<and> manager_ids m' = {0, 1})"
proof -
  have "manager_ids manager_new \<noteq> UNIV"
  proof
    assume "manager_ids manager_new = UNIV"
    then have "(1 :: u16) \<in> {0}" using manager_new_ok(2) by simp
    then show False by simp
  qed
  with create_view_allocates [OF manager_new_ok(1)] create_view_first manager_new_ok show ?thesis
    by (auto simp: Let_def insert_commute)
qed

text \<open>C15: Whatever sequence of create, destroy and switch operations is applied to a new manager,
  \<open>views()\<close> succeeds and lists each existing identifier once in ascending order, its length is the
  maintained count, the default view 0 and the active view are always among them, and neither of these
  two can be destroyed.\<close>

theorem view_history:
  "let m = fold view_step ops manager_new; st = manager_state m in
   \<exists>vs. list_views m = Inr vs \<and> sorted vs \<and> distinct vs \<and> set vs = manager_ids m \<and>
     length vs = view_count st \<and> 0 \<in> set vs \<and> view_active st \<in> set vs \<and>
     isl (snd (destroy_view m 0)) \<and> isl (snd (destroy_view m (view_active st)))"
proof -
  define m where "m = fold view_step ops manager_new"
  have ok: "manager_ok m"
    unfolding m_def view_step_eq by (rule vm.history_ok [OF manager_new_ok(1)])
  define vs where "vs = filter (\<lambda>v. v \<in> manager_ids m) (map of_nat [0 ..< 2 ^ 16])"
  have "sorted vs" "distinct vs" "set vs = manager_ids m"
    using sorted_words [of "2 ^ 16"] all_words
    unfolding vs_def by (auto simp del: upt_Suc set_map set_upt intro: sorted_wrt_filter)
  moreover from this have "length vs = view_count (manager_state m)"
    using ok distinct_card [of vs] by (simp add: manager_ok_def view_ok_def manager_ids_def)
  moreover have "list_views m = Inr vs"
    using list_views_eq [OF ok] by (simp only: vs_def)
  ultimately show ?thesis
    using vm.default_exists [OF ok] vm.active_exists [OF ok] vm.active_never_destroyed [OF ok]
    unfolding m_def [symmetric] by (simp add: Let_def)
qed

end
