(* ===== verification/Std_Text.thy ===== *)
theory Std_Text
  imports Std_Io
begin

text \<open>
  What the workspace uses of \<open>str\<close>. A string is the list of its UTF-8 bytes; \<open>utf8_chars\<close> splits it into
  the characters that \<open>chars()\<close> yields, each as its own bytes.
\<close>

function utf8_chars :: "string \<Rightarrow> string list" where
  "utf8_chars [] = []"
| "utf8_chars (c # cs) =
     (let n = utf8_width (of_nat (of_char c)) - 1 in (c # take n cs) # utf8_chars (drop n cs))"
  by pat_completeness auto
termination by (relation "measure length") auto

text \<open>\<open>char::is_whitespace\<close>: the Unicode property \<open>White_Space\<close>.\<close>

definition is_whitespace :: "string \<Rightarrow> bool" where
  "is_whitespace ch \<longleftrightarrow> map of_char ch \<in> set ([[9], [10], [11], [12], [13], [32], [0xC2, 0x85], [0xC2, 0xA0],
     [0xE1, 0x9A, 0x80], [0xE2, 0x80, 0xA8], [0xE2, 0x80, 0xA9], [0xE2, 0x80, 0xAF], [0xE2, 0x81, 0x9F],
     [0xE3, 0x80, 0x80]] @ map (\<lambda>k. [0xE2, 0x80, 0x80 + k]) [0 ..< 11 :: nat])"

lemma is_whitespace_single: "is_whitespace [c] \<longleftrightarrow> of_char c \<in> {9, 10, 11, 12, 13, 32 :: nat}"
  by (auto simp: is_whitespace_def)

definition trim :: "string \<Rightarrow> string" where
  "trim s = concat (rev (dropWhile is_whitespace (rev (dropWhile is_whitespace (utf8_chars s)))))"

fun words_loop :: "string \<Rightarrow> string list \<Rightarrow> string list" where
  "words_loop acc [] = (if acc = [] then [] else [acc])"
| "words_loop acc (ch # chs) =
     (if is_whitespace ch then (if acc = [] then words_loop [] chs else acc # words_loop [] chs)
      else words_loop (acc @ ch) chs)"

definition split_whitespace :: "string \<Rightarrow> string list" where
  "split_whitespace s = words_loop [] (utf8_chars s)"

text \<open>\<open>str::lines\<close>: a line ends with a line feed, and with the carriage return before it.\<close>

definition strip_cr :: "string \<Rightarrow> string" where
  "strip_cr l = (if l \<noteq> [] \<and> of_char (last l) = (13 :: nat) then butlast l else l)"

fun lines_loop :: "string \<Rightarrow> string \<Rightarrow> string list" where
  "lines_loop acc [] = (if acc = [] then [] else [acc])"
| "lines_loop acc (c # cs) =
     (if of_char c = (10 :: nat) then strip_cr acc # lines_loop [] cs else lines_loop (acc @ [c]) cs)"

definition str_lines :: "string \<Rightarrow> string list" where
  "str_lines s = lines_loop [] s"

function trim_start_matches :: "string \<Rightarrow> string \<Rightarrow> string" where
  "trim_start_matches p s =
     (if p \<noteq> [] \<and> starts_with s p then trim_start_matches p (drop (length p) s) else s)"
  by pat_completeness auto
termination
proof (relation "measure (length \<circ> snd)", simp)
  fix p s :: string
  assume "p \<noteq> [] \<and> starts_with s p"
  then have "0 < length p" "length (take (length p) s) = length p"
    by (auto simp: starts_with_def)
  then have "0 < length p" "length p \<le> length s" by (simp_all add: min_def split: if_splits)
  then have "length s - length p < length s" by linarith
  then show "((p, drop (length p) s), p, s) \<in> measure (length \<circ> snd)" by simp
qed

declare trim_start_matches.simps [simp del]

fun str_contains :: "string \<Rightarrow> string \<Rightarrow> bool" where
  "str_contains p [] = (p = [])"
| "str_contains p (c # cs) = (starts_with (c # cs) p \<or> str_contains p cs)"

end
