(* ===== verification/Profile.thy ===== *)
theory Profile
  imports Artifact_Io Std_Text
begin

text \<open>
  The crate \<open>vmi-profile\<close>: symbol tables with a name index and an address index, read from a
  \<open>System.map\<close>, a JSON profile or a PDB. The JSON and PDB libraries are parameters; the crate's own copy of
  \<open>read_retry\<close> is that of \<open>vmi-artifact\<close>.
\<close>

section \<open>Text files (lib.rs)\<close>

definition MAX_TEXT_PROFILE_SIZE :: u64 where
  "MAX_TEXT_PROFILE_SIZE = 64 * 1024 * 1024"

definition MAX_PDB_SIZE :: u64 where
  "MAX_PDB_SIZE = 8 * 1024 * 1024 * 1024"

definition MAX_PROFILE_ENTRIES :: usize where
  "MAX_PROFILE_ENTRIES = 1000000"

definition text_profile_exceeds :: vmi_error where
  "text_profile_exceeds = Backend (''text profile exceeds '' @ dec (unat MAX_TEXT_PROFILE_SIZE) @ '' bytes'')"

definition text_chunk :: "string \<Rightarrow> u8 list \<Rightarrow> reader \<Rightarrow> (reader \<times> u8 list) result" where
  "text_chunk path contents r =
     and_then (ok_or (u64_of_usize (length contents)) (Backend ''text profile size does not fit u64'')) (\<lambda>captured.
     and_then (ok_or (u64_of_usize 65536) (Backend ''text profile chunk size does not fit u64'')) (\<lambda>chunk_capacity.
     let remaining = saturating_sub (MAX_TEXT_PROFILE_SIZE + 1) captured in
     and_then (ok_or (usize_of_u64 (min remaining chunk_capacity)) (Backend ''text profile chunk is too large''))
       (\<lambda>requested.
     if requested = 0 then Inr (r, [])
     else if requested > 65536 then Inl (Backend ''text profile read boundary invariant failed'')
     else
       (case read_retry r requested of
          (r', Inl e) \<Rightarrow> Inl (Backend (''failed to read '' @ path @ '': '' @ e))
        | (r', Inr bs) \<Rightarrow>
            if length bs = 0 then Inr (r', [])
            else if \<not> reservable (length contents + length bs) then
              Inl (Backend (''failed to grow text profile buffer: '' @ capacity_overflow))
            else if length bs > 65536 then Inl (Backend ''text profile result length exceeds read buffer'')
            else if (case u64_of_usize (length contents + length bs) of None \<Rightarrow> True
                     | Some n \<Rightarrow> n > MAX_TEXT_PROFILE_SIZE)
            then Inl text_profile_exceeds
            else Inr (r', bs)))))"

lemma text_chunk_progress:
  assumes "text_chunk path contents r = Inr (r', bs)" "bs \<noteq> []"
  shows "reader_size r' < reader_size r"
proof -
  obtain n where "0 < n" "read_retry r n = (r', Inr bs)"
    using assms by (auto simp: text_chunk_def Let_def split: if_splits prod.splits sum.splits)
  then show ?thesis using read_retry_bytes(3) assms(2) by blast
qed

function text_loop :: "string \<Rightarrow> u8 list \<Rightarrow> reader \<Rightarrow> u8 list result" where
  "text_loop path contents r =
     (case text_chunk path contents r of
        Inl e \<Rightarrow> Inl e
      | Inr (r', bs) \<Rightarrow> if bs = [] then Inr contents else text_loop path (contents @ bs) r')"
  by pat_completeness auto
termination
  by (relation "measure (\<lambda>(path, contents, r). reader_size r)") (auto intro: text_chunk_progress)

declare text_loop.simps [simp del]

definition read_text_profile :: "file_system \<Rightarrow> string \<Rightarrow> string result" where
  "read_text_profile fs path =
     and_then (map_err (\<lambda>e. Backend (''failed to open '' @ path @ '': '' @ e)) (fs_open fs path)) (\<lambda>f.
     and_then (map_err (\<lambda>e. Backend (''failed to inspect '' @ path @ '': '' @ e)) (file_len f)) (\<lambda>len.
     if len > MAX_TEXT_PROFILE_SIZE then Inl text_profile_exceeds
     else
     and_then (ok_or (usize_of_u64 len) (Backend ''text profile is too large for this host'')) (\<lambda>cap.
     if \<not> reservable cap then
       Inl (Backend (''failed to allocate text profile buffer: '' @ capacity_overflow))
     else
     and_then (text_loop path [] (file_at f 0)) (\<lambda>contents.
       map_err (\<lambda>e. Backend (''text profile '' @ path @ '' is not UTF-8: '' @ e)) (from_utf8 contents)))))"

definition open_pdb_file :: "file_system \<Rightarrow> string \<Rightarrow> file_handle result" where
  "open_pdb_file fs path =
     and_then (map_err (\<lambda>e. Backend (''failed to open PDB '' @ path @ '': '' @ e)) (fs_open fs path)) (\<lambda>f.
     and_then (map_err (\<lambda>e. Backend (''failed to inspect PDB '' @ path @ '': '' @ e)) (file_len f)) (\<lambda>len.
     if len > MAX_PDB_SIZE then Inl (Backend (''PDB exceeds '' @ dec (unat MAX_PDB_SIZE) @ '' bytes''))
     else Inr f))"

section \<open>Symbol tables\<close>

text \<open>A symbol's kind is one character, given as its bytes.\<close>

record symbol =
  symbol_name :: string
  symbol_address :: u64
  symbol_kind :: "string option"

record symbol_table =
  by_name :: "(string \<times> symbol) list"
  by_address :: "(u64 \<times> string list) list"

definition table_default :: symbol_table where
  "table_default = \<lparr>by_name = [], by_address = []\<rparr>"

definition try_clone_profile_string :: "string \<Rightarrow> string \<Rightarrow> string result" where
  "try_clone_profile_string v purpose = try_clone_text Backend (''failed to allocate profile '' @ purpose) v"

definition table_len :: "symbol_table \<Rightarrow> usize" where
  "table_len t = length (by_name t)"

definition table_is_empty :: "symbol_table \<Rightarrow> bool" where
  "table_is_empty t = (by_name t = [])"

definition table_symbol :: "symbol_table \<Rightarrow> string \<Rightarrow> symbol option" where
  "table_symbol t name = map_of (by_name t) name"

definition symbols_at :: "symbol_table \<Rightarrow> u64 \<Rightarrow> symbol list" where
  "symbols_at t address =
     List.map_filter (\<lambda>name. map_of (by_name t) name)
       (case map_of (by_address t) address of Some names \<Rightarrow> names | None \<Rightarrow> [])"

text \<open>\<open>range(..=address).next_back()\<close> is the last entry whose key is at most the address.\<close>

definition nearest_symbol :: "symbol_table \<Rightarrow> u64 \<Rightarrow> (symbol \<times> u64) option" where
  "nearest_symbol t address =
     (case filter (\<lambda>e. fst e \<le> address) (by_address t) of
        [] \<Rightarrow> None
      | e # es \<Rightarrow>
          (case last (e # es) of (base, names) \<Rightarrow>
             Option.bind (get_at names 0) (\<lambda>name.
             Option.bind (map_of (by_name t) name) (\<lambda>sb.
             Option.bind (checked_sub address base) (\<lambda>offset. Some (sb, offset))))))"

text \<open>An entry of the name index takes 64 bytes, an alias 24.\<close>

definition table_insert :: "symbol_table \<Rightarrow> symbol \<Rightarrow> symbol_table result" where
  "table_insert t sb =
     (if map_of (by_name t) (symbol_name sb) \<noteq> None then
        Inl (Backend (''duplicate symbol '' @ symbol_name sb))
      else if \<not> reservable (64 * (length (by_name t) + 1)) then
        Inl (Backend (''failed to grow profile symbol table: '' @ capacity_overflow))
      else
        and_then (try_clone_profile_string (symbol_name sb) ''symbol name-index key'') (\<lambda>name_key.
        and_then (try_clone_profile_string (symbol_name sb) ''symbol address-index key'') (\<lambda>alias_name.
        and_then
          (case map_of (by_address t) (symbol_address sb) of
             Some names \<Rightarrow>
               if \<not> reservable (24 * (length names + 1)) then
                 Inl (Backend (''failed to grow profile address aliases: '' @ capacity_overflow))
               else Inr (btree_insert (symbol_address sb) (names @ [alias_name]) (by_address t))
           | None \<Rightarrow>
               if \<not> reservable 24 then
                 Inl (Backend (''failed to allocate profile address aliases: '' @ capacity_overflow))
               else Inr (btree_insert (symbol_address sb) [alias_name] (by_address t)))
          (\<lambda>addresses.
            Inr \<lparr>by_name = AList.update name_key sb (by_name t), by_address = addresses\<rparr>))))"

section \<open>System.map\<close>

definition malformed :: "usize \<Rightarrow> vmi_error" where
  "malformed line = Backend (''malformed System.map line '' @ dec line)"

definition system_map_symbol :: "usize \<Rightarrow> string \<Rightarrow> symbol result" where
  "system_map_symbol line_number line =
     (case split_whitespace line of
        address_text # kind_text # name # extra \<Rightarrow>
          if extra \<noteq> [] \<or> length (utf8_chars kind_text) \<noteq> 1 then Inl (malformed line_number)
          else
            and_then (map_err (\<lambda>e. Backend (''invalid System.map address on line '' @ dec line_number @ '': '' @ e))
              (from_str_radix 16 (trim_start_matches ''0x'' address_text))) (\<lambda>address.
            and_then (try_clone_profile_string name ''System.map symbol name'') (\<lambda>owned.
              Inr \<lparr>symbol_name = owned, symbol_address = address, symbol_kind = Some kind_text\<rparr>))
      | _ \<Rightarrow> Inl (malformed line_number))"

fun system_map_loop :: "usize \<Rightarrow> string list \<Rightarrow> symbol_table \<Rightarrow> symbol_table result" where
  "system_map_loop index [] t = Inr t"
| "system_map_loop index (raw # lines) t =
     and_then (ok_or (usize_checked_add index 1) (Backend ''System.map line number overflow'')) (\<lambda>line_number.
     let line = trim raw in
     if line = [] \<or> starts_with line ''#'' then system_map_loop (index + 1) lines t
     else if table_len t = MAX_PROFILE_ENTRIES then
       Inl (Backend (''System.map exceeds '' @ dec MAX_PROFILE_ENTRIES @ '' symbols''))
     else
       and_then (system_map_symbol line_number line) (\<lambda>sb.
       and_then (map_err (\<lambda>_. Backend (''duplicate System.map symbol '' @ symbol_name sb @ '' on line ''
           @ dec line_number)) (table_insert t sb)) (\<lambda>t'.
         system_map_loop (index + 1) lines t')))"

definition from_system_map :: "string \<Rightarrow> symbol_table result" where
  "from_system_map contents =
     and_then (system_map_loop 0 (str_lines contents) table_default) (\<lambda>t.
       if by_name t = [] then Inl (Backend ''System.map contains no symbols'') else Inr t)"

definition from_system_map_file :: "file_system \<Rightarrow> string \<Rightarrow> symbol_table result" where
  "from_system_map_file fs path = and_then (read_text_profile fs path) from_system_map"

section \<open>JSON profiles\<close>

record profile =
  profile_symbols :: symbol_table
  profile_offsets :: "(string \<times> u64) list"

definition profile_number :: "'v json_ops \<Rightarrow> 'v \<Rightarrow> string \<Rightarrow> u64 result" where
  "profile_number js v field =
     (case as_u64 js v of
        Some number \<Rightarrow> Inr number
      | None \<Rightarrow>
          and_then (ok_or (as_str_value js v)
            (Backend (''profile value '' @ field @ '' must be an unsigned number or string''))) (\<lambda>txt.
          map_err (\<lambda>e. Backend (''invalid profile value '' @ field @ '': '' @ e))
            (if starts_with txt ''0x'' then from_str_radix 16 (drop 2 txt) else from_str_radix 10 txt)))"

fun json_symbols_loop :: "'v json_ops \<Rightarrow> (string \<times> 'v) list \<Rightarrow> symbol_table \<Rightarrow> symbol_table result" where
  "json_symbols_loop js [] t = Inr t"
| "json_symbols_loop js ((name, v) # rest) t =
     and_then (try_clone_profile_string name ''JSON symbol name'') (\<lambda>owned.
     and_then (profile_number js v name) (\<lambda>address.
     and_then (table_insert t \<lparr>symbol_name = owned, symbol_address = address, symbol_kind = None\<rparr>) (\<lambda>t'.
       json_symbols_loop js rest t')))"

fun json_offsets_loop :: "'v json_ops \<Rightarrow> (string \<times> 'v) list \<Rightarrow> (string \<times> u64) list \<Rightarrow> (string \<times> u64) list result" where
  "json_offsets_loop js [] offsets = Inr offsets"
| "json_offsets_loop js ((name, v) # rest) offsets =
     and_then (try_clone_profile_string name ''JSON offset name'') (\<lambda>owned.
     and_then (profile_number js v name) (\<lambda>offset.
       json_offsets_loop js rest (AList.update owned offset offsets)))"

text \<open>An offset entry takes 32 bytes.\<close>

definition from_json :: "'v json_ops \<Rightarrow> string \<Rightarrow> profile result" where
  "from_json js contents =
     and_then (map_err (\<lambda>e. Backend (''invalid profile JSON: '' @ e)) (json_from_str js contents)) (\<lambda>v.
     and_then (ok_or (as_object js v) (Backend ''profile root must be an object'')) (\<lambda>root.
     and_then (ok_or (Option.bind (root ''symbols'') (object_entries js)) (Backend ''profile symbols must be an object''))
       (\<lambda>symbol_values.
     and_then (ok_or (Option.bind (root ''offsets'') (object_entries js)) (Backend ''profile offsets must be an object''))
       (\<lambda>offset_values.
     if length symbol_values > MAX_PROFILE_ENTRIES \<or> length offset_values > MAX_PROFILE_ENTRIES then
       Inl (Backend (''profile symbols or offsets exceed '' @ dec MAX_PROFILE_ENTRIES @ '' entries''))
     else
     and_then (json_symbols_loop js symbol_values table_default) (\<lambda>symbols.
     if table_is_empty symbols then Inl (Backend ''profile contains no symbols'')
     else if \<not> reservable (32 * length offset_values) then
       Inl (Backend (''failed to allocate profile offset table: '' @ capacity_overflow))
     else
     and_then (json_offsets_loop js offset_values []) (\<lambda>offsets.
       Inr \<lparr>profile_symbols = symbols, profile_offsets = offsets\<rparr>))))))"

definition from_json_file :: "'v json_ops \<Rightarrow> file_system \<Rightarrow> string \<Rightarrow> profile result" where
  "from_json_file js fs path = and_then (read_text_profile fs path) (from_json js)"

definition profile_offset :: "profile \<Rightarrow> string \<Rightarrow> u64 option" where
  "profile_offset p name = map_of (profile_offsets p) name"

definition require_offset :: "profile \<Rightarrow> string \<Rightarrow> u64 result" where
  "require_offset p name = ok_or (profile_offset p name) (Backend (''profile offset '' @ name @ '' not found''))"

definition offsets_len :: "profile \<Rightarrow> usize" where
  "offsets_len p = length (profile_offsets p)"

section \<open>PDB files\<close>

text \<open>What the PDB library delivers: parsed symbols and types (\<open>None\<close> for the kinds that the code skips).\<close>

record pdb_public =
  pub_offset :: u64
  pub_name :: string
  pub_function :: bool

record pdb_class =
  class_forward :: bool
  class_fields :: "u32 option"
  class_name :: string

record pdb_fields =
  field_members :: "(string \<times> u64) option list"
  field_continuation :: "u32 option"

record pdb_file =
  pdb_global_symbols :: "string + (string + pdb_public option) list"
  pdb_address_map :: "string + (u64 \<Rightarrow> u32 option)"
  pdb_type_information :: "string + (string + pdb_class option) list"
  pdb_find :: "u32 \<Rightarrow> string + (string + pdb_fields option)"

type_synonym pdb_ops = "file_handle \<Rightarrow> string + pdb_file"

definition pdb_error :: "string \<Rightarrow> vmi_error" where
  "pdb_error e = Backend (''PDB parsing failed: '' @ e)"

fun pdb_symbols_loop ::
  "u64 \<Rightarrow> (u64 \<Rightarrow> u32 option) \<Rightarrow> (string + pdb_public option) list \<Rightarrow> symbol_table \<Rightarrow> symbol_table result" where
  "pdb_symbols_loop image_base rva_of [] t = Inr t"
| "pdb_symbols_loop image_base rva_of (Inl e # items) t = Inl (pdb_error e)"
| "pdb_symbols_loop image_base rva_of (Inr None # items) t = pdb_symbols_loop image_base rva_of items t"
| "pdb_symbols_loop image_base rva_of (Inr (Some pub) # items) t =
     (case rva_of (pub_offset pub) of
        None \<Rightarrow> pdb_symbols_loop image_base rva_of items t
      | Some rva \<Rightarrow>
          and_then (try_clone_profile_string (pub_name pub) ''PDB symbol name'') (\<lambda>name.
          if name = [] then pdb_symbols_loop image_base rva_of items t
          else if table_len t = MAX_PROFILE_ENTRIES then
            Inl (Backend (''PDB exceeds '' @ dec MAX_PROFILE_ENTRIES @ '' public symbols''))
          else
          and_then (ok_or (checked_add image_base (ucast rva))
            (Backend (''PDB symbol '' @ name @ '' address overflows image base''))) (\<lambda>address.
          case table_symbol t name of
            Some existing \<Rightarrow>
              if symbol_address existing = address then pdb_symbols_loop image_base rva_of items t
              else Inl (Backend (''PDB contains conflicting public symbol '' @ name))
          | None \<Rightarrow>
              and_then (table_insert t \<lparr>symbol_name = name, symbol_address = address,
                symbol_kind = Some (if pub_function pub then ''T'' else ''D'')\<rparr>) (\<lambda>t'.
                pdb_symbols_loop image_base rva_of items t'))))"

definition symbols_from_pdb_file :: "pdb_ops \<Rightarrow> file_system \<Rightarrow> string \<Rightarrow> u64 \<Rightarrow> symbol_table result" where
  "symbols_from_pdb_file pdb_open fs path image_base =
     and_then (open_pdb_file fs path) (\<lambda>f.
     and_then (map_err pdb_error (pdb_open f)) (\<lambda>pdb.
     and_then (map_err pdb_error (pdb_global_symbols pdb)) (\<lambda>symbols.
     and_then (map_err pdb_error (pdb_address_map pdb)) (\<lambda>rva_of.
     and_then (pdb_symbols_loop image_base rva_of symbols table_default) (\<lambda>output_table.
       if table_is_empty output_table then Inl (Backend ''PDB contains no addressable public symbols'')
       else Inr output_table)))))"

definition try_join_field_name :: "string \<Rightarrow> string \<Rightarrow> string result" where
  "try_join_field_name cls member =
     and_then (ok_or (Option.bind (usize_checked_add (length cls) 1) (\<lambda>n. usize_checked_add n (length member)))
       (Backend ''PDB field name length overflow'')) (\<lambda>cap.
     if \<not> reservable cap then Inl (Backend (''failed to allocate PDB field name: '' @ capacity_overflow))
     else Inr (cls @ ''.'' @ member))"

definition insert_profile_offset ::
  "(string \<times> u64) list \<Rightarrow> string \<Rightarrow> u64 \<Rightarrow> string \<Rightarrow> (string \<times> u64) list result" where
  "insert_profile_offset offsets key offset source =
     (case map_of offsets key of
        Some previous \<Rightarrow>
          if previous = offset then Inr offsets
          else Inl (Backend (source @ '' contains conflicting field offset '' @ key))
      | None \<Rightarrow>
          if length offsets = MAX_PROFILE_ENTRIES then
            Inl (Backend (source @ '' exceeds '' @ dec MAX_PROFILE_ENTRIES @ '' field offsets''))
          else if \<not> reservable (32 * (length offsets + 1)) then
            Inl (Backend (''failed to grow '' @ source @ '' field-offset table: '' @ capacity_overflow))
          else Inr (AList.update key offset offsets))"

definition is_synthetic_pdb_type :: "string \<Rightarrow> bool" where
  "is_synthetic_pdb_type name = str_contains ''closure_env$'' name"

fun members_loop :: "string \<Rightarrow> (string \<times> u64) option list \<Rightarrow> (string \<times> u64) list \<Rightarrow> (string \<times> u64) list result" where
  "members_loop cls [] offsets = Inr offsets"
| "members_loop cls (None # ms) offsets = members_loop cls ms offsets"
| "members_loop cls (Some (member, offset) # ms) offsets =
     and_then (try_join_field_name cls member) (\<lambda>key.
     and_then (insert_profile_offset offsets key offset ''PDB'') (\<lambda>offsets'. members_loop cls ms offsets'))"

text \<open>The continuation chain of a field list ends because no index is visited twice.\<close>

function fields_loop ::
  "pdb_file \<Rightarrow> string \<Rightarrow> u32 list \<Rightarrow> u32 \<Rightarrow> (string \<times> u64) list \<Rightarrow> (string \<times> u64) list result" where
  "fields_loop pdb cls visited index offsets =
     (if \<not> reservable (4 * (length visited + 1)) then
        Inl (Backend (''failed to grow PDB field-list cycle detector: '' @ capacity_overflow))
      else if index \<in> set visited then Inl (Backend (''PDB field list for '' @ cls @ '' contains a cycle''))
      else
        and_then (map_err pdb_error (pdb_find pdb index)) (\<lambda>item.
        and_then (map_err pdb_error item) (\<lambda>parsed.
        case parsed of
          None \<Rightarrow> Inl (Backend (''PDB type '' @ cls @ '' references a non-field-list record''))
        | Some list \<Rightarrow>
            and_then (members_loop cls (field_members list) offsets) (\<lambda>offsets'.
              case field_continuation list of
                None \<Rightarrow> Inr offsets'
              | Some continuation \<Rightarrow> fields_loop pdb cls (index # visited) continuation offsets'))))"
  by pat_completeness auto
termination
proof (relation "measure (\<lambda>(pdb, cls, visited, index, offsets). card (UNIV - set visited))", simp)
  fix cls :: string and visited :: "u32 list" and index continuation :: u32 and pdb :: pdb_file
    and offsets offsets' :: "(string \<times> u64) list"
  assume "index \<notin> set visited"
  then have "UNIV - set (index # visited) \<subset> UNIV - set visited" by auto
  from psubset_card_mono [OF _ this]
  show "((pdb, cls, index # visited, continuation, offsets'), pdb, cls, visited, index, offsets)
      \<in> measure (\<lambda>(pdb, cls, visited, index, offsets). card (UNIV - set visited))"
    by simp
qed

declare fields_loop.simps [simp del]

fun classes_loop :: "pdb_file \<Rightarrow> (string + pdb_class option) list \<Rightarrow> (string \<times> u64) list \<Rightarrow> (string \<times> u64) list result" where
  "classes_loop pdb [] offsets = Inr offsets"
| "classes_loop pdb (Inl e # items) offsets = Inl (pdb_error e)"
| "classes_loop pdb (Inr None # items) offsets = classes_loop pdb items offsets"
| "classes_loop pdb (Inr (Some cls) # items) offsets =
     (if class_forward cls then classes_loop pdb items offsets
      else
        (case class_fields cls of
           None \<Rightarrow> classes_loop pdb items offsets
         | Some field_index \<Rightarrow>
             and_then (try_clone_profile_string (class_name cls) ''PDB class name'') (\<lambda>name.
             if is_synthetic_pdb_type name then classes_loop pdb items offsets
             else
               and_then (fields_loop pdb name [] field_index offsets) (\<lambda>offsets'. classes_loop pdb items offsets'))))"

fun first_error :: "(string + 'a) list \<Rightarrow> string option" where
  "first_error [] = None"
| "first_error (Inl e # items) = Some e"
| "first_error (Inr _ # items) = first_error items"

definition profile_from_pdb_file :: "pdb_ops \<Rightarrow> file_system \<Rightarrow> string \<Rightarrow> u64 \<Rightarrow> profile result" where
  "profile_from_pdb_file pdb_open fs path image_base =
     and_then (symbols_from_pdb_file pdb_open fs path image_base) (\<lambda>symbols.
     and_then (open_pdb_file fs path) (\<lambda>f.
     and_then (map_err pdb_error (pdb_open f)) (\<lambda>pdb.
     and_then (map_err pdb_error (pdb_type_information pdb)) (\<lambda>items.
     case first_error items of
       Some e \<Rightarrow> Inl (pdb_error e)
     | None \<Rightarrow>
         and_then (classes_loop pdb items []) (\<lambda>offsets.
           Inr \<lparr>profile_symbols = symbols, profile_offsets = offsets\<rparr>)))))"

section \<open>The invariant of symbol tables\<close>

text \<open>
  The two indexes describe the same symbols: the alias list of an address is never empty, has no
  duplicates and names exactly the symbols at that address.
\<close>

definition aliases :: "symbol_table \<Rightarrow> u64 \<Rightarrow> string list" where
  "aliases t address = (case map_of (by_address t) address of Some names \<Rightarrow> names | None \<Rightarrow> [])"

definition table_ok :: "symbol_table \<Rightarrow> bool" where
  "table_ok t \<longleftrightarrow> btree_ok (by_address t) \<and> distinct (map fst (by_name t)) \<and>
     (\<forall>name sb. map_of (by_name t) name = Some sb \<longrightarrow> symbol_name sb = name) \<and>
     (\<forall>a. map_of (by_address t) a \<noteq> Some []) \<and>
     (\<forall>a. distinct (aliases t a)) \<and>
     (\<forall>a name. name \<in> set (aliases t a) \<longleftrightarrow> (\<exists>sb. map_of (by_name t) name = Some sb \<and> symbol_address sb = a))"

lemma table_ok_default: "table_ok table_default"
  by (simp add: table_ok_def table_default_def aliases_def btree_ok_def)

lemma table_ok_btree: "table_ok t \<Longrightarrow> btree_ok (by_address t)"
  by (simp add: table_ok_def)

lemma aliases_iff:
  "table_ok t \<Longrightarrow> n \<in> set (aliases t a) \<longleftrightarrow> (\<exists>sb. map_of (by_name t) n = Some sb \<and> symbol_address sb = a)"
  by (simp add: table_ok_def)

lemma table_insert_Inr:
  assumes "table_insert t sb = Inr t'"
  shows "map_of (by_name t) (symbol_name sb) = None"
    "by_name t' = AList.update (symbol_name sb) sb (by_name t)"
    "by_address t' = btree_insert (symbol_address sb) (aliases t (symbol_address sb) @ [symbol_name sb]) (by_address t)"
  using assms
  by (auto simp: table_insert_def try_clone_profile_string_def try_clone_text_def aliases_def
      split: if_splits option.splits)

lemma table_insert_ok:
  assumes "table_ok t" "table_insert t sb = Inr t'"
  shows "table_ok t'"
proof -
  note ins = table_insert_Inr [OF assms(2)]
  have al: "aliases t' a = (if a = symbol_address sb then aliases t a @ [symbol_name sb] else aliases t a)" for a
    by (simp add: aliases_def ins(3))
  have fresh: "symbol_name sb \<notin> set (aliases t a)" for a
    using assms(1) ins(1) by (auto simp: table_ok_def)
  have mem: "name \<in> set (aliases t' a) \<longleftrightarrow> (\<exists>x. map_of (by_name t') name = Some x \<and> symbol_address x = a)" for name a
    using assms(1) ins(1) by (auto simp: table_ok_def al ins(2) update_conv')
  have "map_of (by_address t') a \<noteq> Some []" "distinct (aliases t' a)" for a
    using assms(1) fresh by (auto simp: table_ok_def al ins(3))
  then show ?thesis
    using assms(1) mem
    by (auto simp: table_ok_def ins(2,3) update_conv' distinct_update split: if_splits)
qed

lemma system_map_loop_ok:
  "system_map_loop index lines t = Inr t' \<Longrightarrow> table_ok t \<Longrightarrow> table_ok t'"
  by (induction lines arbitrary: index t) (auto simp: Let_def split: if_splits dest: table_insert_ok)

lemma json_symbols_loop_ok:
  "json_symbols_loop js es t = Inr t' \<Longrightarrow> table_ok t \<Longrightarrow> table_ok t'"
  by (induction es arbitrary: t) (auto, metis table_insert_ok)

lemma pdb_symbols_loop_ok:
  "pdb_symbols_loop image_base rva_of items t = Inr t' \<Longrightarrow> table_ok t \<Longrightarrow> table_ok t'"
proof (induction items arbitrary: t)
  case (Cons item items)
  consider e where "item = Inl e" | "item = Inr None" | pub where "item = Inr (Some pub)"
    by (metis option.exhaust sum.exhaust)
  then show ?case
    using Cons by cases (auto split: if_splits option.splits dest: table_insert_ok)
qed simp

text \<open>Every reader of the crate starts from the empty table and inserts.\<close>

lemma symbol_readers_ok:
  assumes "from_system_map contents = Inr t \<or> (\<exists>p. from_json js contents = Inr p \<and> t = profile_symbols p) \<or>
    symbols_from_pdb_file pdb_open fs path image_base = Inr t"
  shows "table_ok t"
  using assms system_map_loop_ok [OF _ table_ok_default] json_symbols_loop_ok [OF _ table_ok_default]
    pdb_symbols_loop_ok [OF _ table_ok_default]
  by (auto simp: from_system_map_def from_json_def symbols_from_pdb_file_def split: if_splits)

section \<open>Look-ups\<close>

lemma symbols_at_set:
  assumes "table_ok t"
  shows "set (symbols_at t a) = {sb. table_symbol t (symbol_name sb) = Some sb \<and> symbol_address sb = a}"
    "distinct (symbols_at t a)"
proof -
  have named: "symbol_name sb = n" if "map_of (by_name t) n = Some sb" for n sb
    using assms that by (simp add: table_ok_def)
  have al: "n \<in> set (aliases t a) \<longleftrightarrow> (\<exists>sb. map_of (by_name t) n = Some sb \<and> symbol_address sb = a)" for n
    by (rule aliases_iff [OF assms])
  then have eq: "symbols_at t a = map (\<lambda>n. the (map_of (by_name t) n)) (aliases t a)"
    unfolding symbols_at_def aliases_def [symmetric] List.map_filter_def comp_def
    by (intro arg_cong [where f = "map _"]) (auto intro!: filter_True)
  show "set (symbols_at t a) = {sb. table_symbol t (symbol_name sb) = Some sb \<and> symbol_address sb = a}"
    (is "_ = ?S")
  proof (intro set_eqI iffI)
    fix sb assume "sb \<in> set (symbols_at t a)"
    then obtain n where "n \<in> set (aliases t a)" "sb = the (map_of (by_name t) n)" by (auto simp: eq)
    then show "sb \<in> ?S" using named by (auto simp: al table_symbol_def)
  next
    fix sb assume "sb \<in> ?S"
    then have "symbol_name sb \<in> set (aliases t a)" "the (map_of (by_name t) (symbol_name sb)) = sb"
      by (auto simp: al table_symbol_def)
    then show "sb \<in> set (symbols_at t a)" unfolding eq by force
  qed
  have "inj_on (\<lambda>n. the (map_of (by_name t) n)) (set (aliases t a))"
    by (rule inj_onI) (metis al named option.sel)
  then show "distinct (symbols_at t a)"
    using assms by (simp add: eq distinct_map table_ok_def)
qed

lemma aliases_first:
  assumes "table_ok t" "map_of (by_address t) base = Some names"
  obtains n ns sb where "names = n # ns" "map_of (by_name t) n = Some sb" "symbol_address sb = base" "symbol_name sb = n"
proof -
  obtain n ns where names: "names = n # ns" using assms by (cases names) (auto simp: table_ok_def)
  then have "n \<in> set (aliases t base)" using assms(2) by (simp add: aliases_def)
  then obtain sb where "map_of (by_name t) n = Some sb" "symbol_address sb = base"
    by (auto simp: aliases_iff [OF assms(1)])
  moreover then have "symbol_name sb = n" using assms(1) by (simp add: table_ok_def)
  ultimately show thesis using that names by blast
qed

lemma btree_last_below:
  assumes "btree_ok m" "filter (\<lambda>e. fst e \<le> k) m \<noteq> []"
  obtains base v where "last (filter (\<lambda>e. fst e \<le> k) m) = (base, v)" "map_of m base = Some v" "base \<le> k"
    "\<And>k'. k' \<in> dom (map_of m) \<Longrightarrow> k' \<le> k \<Longrightarrow> k' \<le> base"
proof -
  let ?f = "filter (\<lambda>e. fst e \<le> k) m"
  obtain base v where last: "last ?f = (base, v)" by fastforce
  then have mem: "(base, v) \<in> set ?f" using last_in_set [OF assms(2)] by simp
  have sorted: "sorted_wrt (<) (map fst ?f)"
    using assms(1) by (simp add: btree_ok_def sorted_wrt_map sorted_wrt_filter)
  have "k' \<le> base" if "k' \<in> set (map fst ?f)" for k'
  proof -
    have "map fst ?f \<noteq> []" "last (map fst ?f) = base" using assms(2) last by (simp_all add: last_map)
    then have "map fst ?f = butlast (map fst ?f) @ [base]" by (metis append_butlast_last_id)
    then have "\<forall>x \<in> set (butlast (map fst ?f)). x < base" "k' \<in> set (butlast (map fst ?f)) \<or> k' = base"
      using sorted that by (metis sorted_wrt_append list.set_intros(1), metis Un_iff set_append empty_iff set_ConsD list.set(1))
    then show ?thesis by auto
  qed
  then have "k' \<le> base" if "k' \<in> dom (map_of m)" "k' \<le> k" for k'
    using that by (force dest: map_of_SomeD)
  moreover have "map_of m base = Some v" "base \<le> k"
    using mem btree_ok_distinct [OF assms(1)] by auto
  ultimately show thesis using that last by blast
qed

lemma nearest_symbol_None:
  assumes "table_ok t"
  shows "nearest_symbol t a = None \<longleftrightarrow> (\<forall>sb. table_symbol t (symbol_name sb) = Some sb \<longrightarrow> a < symbol_address sb)"
proof (cases "filter (\<lambda>e. fst e \<le> a) (by_address t) = []")
  case True
  then have "aliases t b = []" if "b \<le> a" for b
    using that by (force simp: aliases_def filter_empty_conv dest: map_of_SomeD split: option.splits)
  moreover have "symbol_name sb \<in> set (aliases t (symbol_address sb))"
    if "table_symbol t (symbol_name sb) = Some sb" for sb
    using that by (simp add: aliases_iff [OF assms] table_symbol_def)
  ultimately have "a < symbol_address sb" if "table_symbol t (symbol_name sb) = Some sb" for sb
    using that by (metis empty_iff list.set(1) not_le)
  then show ?thesis using True by (simp add: nearest_symbol_def)
next
  case False
  note ne = this
  from btree_last_below [OF table_ok_btree [OF assms] this] obtain base names where at: "last (filter (\<lambda>e. fst e \<le> a) (by_address t)) = (base, names)"
      "map_of (by_address t) base = Some names" "base \<le> a"
    .
  from aliases_first [OF assms at(2)] obtain n ns sb where sb: "names = n # ns"
    "map_of (by_name t) n = Some sb" "symbol_address sb = base" "symbol_name sb = n" .
  have "nearest_symbol t a = Some (sb, a - base)"
    using at(1,3) sb False by (cases "filter (\<lambda>e. fst e \<le> a) (by_address t)")
      (simp_all add: nearest_symbol_def checked_sub_def get_at_def)
  moreover have "\<not> a < symbol_address sb" "table_symbol t (symbol_name sb) = Some sb"
    using at(3) sb by (auto simp: table_symbol_def)
  ultimately show ?thesis by auto
qed

lemma nearest_symbol_Some:
  assumes "table_ok t" "nearest_symbol t a = Some (sb, off)"
  shows "table_symbol t (symbol_name sb) = Some sb" "symbol_address sb + off = a" "symbol_address sb \<le> a"
    "hd (symbols_at t (symbol_address sb)) = sb"
    "\<And>other. table_symbol t (symbol_name other) = Some other \<Longrightarrow> symbol_address other \<le> a \<Longrightarrow>
       symbol_address other \<le> symbol_address sb"
proof -
  have "filter (\<lambda>e. fst e \<le> a) (by_address t) \<noteq> []"
    using assms(2) by (auto simp: nearest_symbol_def)
  from btree_last_below [OF table_ok_btree [OF assms(1)] this] obtain base names where at: "last (filter (\<lambda>e. fst e \<le> a) (by_address t)) = (base, names)"
      "map_of (by_address t) base = Some names" "base \<le> a"
      "\<And>k'. k' \<in> dom (map_of (by_address t)) \<Longrightarrow> k' \<le> a \<Longrightarrow> k' \<le> base"
    by blast
  from aliases_first [OF assms(1) at(2)] obtain n ns x where names: "names = n # ns"
    and x: "map_of (by_name t) n = Some x" "symbol_address x = base" "symbol_name x = n" .
  have "nearest_symbol t a = Some (x, a - base)"
    using at(1,3) x names assms(2) by (cases "filter (\<lambda>e. fst e \<le> a) (by_address t)")
      (simp_all add: nearest_symbol_def checked_sub_def get_at_def)
  then have sb: "sb = x" "off = a - base" using assms(2) by simp_all
  show "table_symbol t (symbol_name sb) = Some sb" "symbol_address sb + off = a" "symbol_address sb \<le> a"
    using sb x at(3) by (simp_all add: table_symbol_def)
  show "hd (symbols_at t (symbol_address sb)) = sb"
    using sb x at(2) names by (simp add: symbols_at_def List.map_filter_def)
  show "symbol_address other \<le> symbol_address sb"
    if "table_symbol t (symbol_name other) = Some other" "symbol_address other \<le> a" for other
  proof -
    have "symbol_name other \<in> set (aliases t (symbol_address other))"
      using that(1) by (simp add: aliases_iff [OF assms(1)] table_symbol_def)
    then have "symbol_address other \<in> dom (map_of (by_address t))"
      by (cases "map_of (by_address t) (symbol_address other)") (auto simp: aliases_def)
    then show ?thesis using at(4) that(2) sb x by blast
  qed
qed

section \<open>Properties\<close>

text \<open>
  C24: Symbol look-up in a table that any of the crate's readers (System.map, JSON profile, PDB) returned.
  The address index and the name index agree: \<open>symbols_at\<close> lists each symbol at the address exactly once
  and nothing else; \<open>nearest_symbol\<close> finds nothing exactly when every symbol lies above the address, and
  otherwise gives the first of the symbols at the greatest symbol address that does not exceed the query,
  with the distance to it.
\<close>

theorem symbol_lookup_exact:
  assumes "from_system_map contents = Inr t \<or> (\<exists>p. from_json js contents = Inr p \<and> t = profile_symbols p) \<or>
    symbols_from_pdb_file pdb_open fs path image_base = Inr t"
  shows "distinct (symbols_at t a) \<and>
    set (symbols_at t a) = {sb. table_symbol t (symbol_name sb) = Some sb \<and> symbol_address sb = a} \<and>
    (case nearest_symbol t a of
       None \<Rightarrow> \<forall>sb. table_symbol t (symbol_name sb) = Some sb \<longrightarrow> a < symbol_address sb
     | Some (sb, off) \<Rightarrow> hd (symbols_at t (symbol_address sb)) = sb \<and>
         table_symbol t (symbol_name sb) = Some sb \<and> symbol_address sb \<le> a \<and> symbol_address sb + off = a \<and>
         (\<forall>other. table_symbol t (symbol_name other) = Some other \<and> symbol_address other \<le> a \<longrightarrow>
            symbol_address other \<le> symbol_address sb))"
  using symbols_at_set [OF symbol_readers_ok [OF assms], of a] nearest_symbol_None [OF symbol_readers_ok [OF assms], of a]
    nearest_symbol_Some [OF symbol_readers_ok [OF assms], of a]
  by (auto split: option.split)

text \<open>The witness's System.map: two symbols share the address \<open>0x10\<close>, one lies at \<open>0x20\<close>.\<close>

definition sample_map :: string where
  "sample_map = ''10 T a'' @ [CHR 0x0A] @ ''0x20 D b'' @ [CHR 0x0A] @ ''10 T c''"

definition sample_table :: symbol_table where
  "sample_table = \<lparr>by_name = [(''a'', \<lparr>symbol_name = ''a'', symbol_address = 0x10, symbol_kind = Some ''T''\<rparr>),
      (''b'', \<lparr>symbol_name = ''b'', symbol_address = 0x20, symbol_kind = Some ''D''\<rparr>),
      (''c'', \<lparr>symbol_name = ''c'', symbol_address = 0x10, symbol_kind = Some ''T''\<rparr>)],
     by_address = [(0x10, [''a'', ''c'']), (0x20, [''b''])]\<rparr>"

lemma sample_lines: "str_lines sample_map = [''10 T a'', ''0x20 D b'', ''10 T c'']"
  by (simp add: sample_map_def str_lines_def strip_cr_def)

lemmas text_eval = utf8_width_def is_whitespace_single trim_def split_whitespace_def Let_def starts_with_def
  trim_start_matches.simps from_str_radix_def to_digit_def checked_mul_def checked_add_def

lemma sample_words:
  "trim ''10 T a'' = ''10 T a''" "trim ''0x20 D b'' = ''0x20 D b''" "trim ''10 T c'' = ''10 T c''"
  "split_whitespace ''10 T a'' = [''10'', ''T'', ''a'']" "split_whitespace ''0x20 D b'' = [''0x20'', ''D'', ''b'']"
  "split_whitespace ''10 T c'' = [''10'', ''T'', ''c'']"
  by (simp_all add: text_eval)

lemma sample_numbers:
  "from_str_radix 16 (trim_start_matches ''0x'' ''10'') = Inr 0x10"
  "from_str_radix 16 (trim_start_matches ''0x'' ''0x20'') = Inr 0x20"
  by (simp_all add: text_eval)

lemma sample_map_parses: "from_system_map sample_map = Inr sample_table"
  by (simp add: from_system_map_def sample_lines sample_words sample_numbers system_map_symbol_def table_insert_def
      try_clone_profile_string_def try_clone_text_def reservable_def isize_max_def table_default_def table_len_def
      MAX_PROFILE_ENTRIES_def usize_checked_add_def usize_bound_def starts_with_def sample_table_def utf8_width_def)

theorem symbol_lookup_exact_witness:
  "from_system_map sample_map = Inr sample_table \<and> length (symbols_at sample_table 0x10) = 2 \<and>
   (case nearest_symbol sample_table 0x2F of
      None \<Rightarrow> \<forall>sb. table_symbol sample_table (symbol_name sb) = Some sb \<longrightarrow> 0x2F < symbol_address sb
    | Some (sb, off) \<Rightarrow> symbol_address sb \<le> 0x2F \<and> symbol_address sb + off = 0x2F)"
proof -
  have "length (symbols_at sample_table 0x10) = 2"
    by (simp add: sample_table_def symbols_at_def List.map_filter_def)
  then show ?thesis
    using symbol_lookup_exact [OF disjI1 [OF sample_map_parses], of "0x2F"] sample_map_parses
    by (auto split: option.splits)
qed

end
