(* ===== verification/Guest.thy ===== *)
theory Guest
  imports Profile Vmi_Core
begin

text \<open>
  What the operating-system layers share. A guest computation runs against a session, whose
  translation cache it may change, and returns a value or an error; \<open>guest_bind\<close> is the \<open>?\<close> operator
  for such computations. The kernel lists are followed by loops with a cycle detector, which \<open>walk\<close>
  captures. The locale \<open>guest_memory\<close> is what these layers rely on in virtual reads: a computation is
  then described by its effect on an abstract memory, a partial function from addresses to bytes.
\<close>

section \<open>Computations against a session\<close>

type_synonym ('w, 'a) guest = "'w \<Rightarrow> 'w \<times> 'a result"

definition guest_ret :: "'a result \<Rightarrow> ('w, 'a) guest" where
  "guest_ret r w = (w, r)"

definition guest_bind :: "('w, 'a) guest \<Rightarrow> ('a \<Rightarrow> ('w, 'b) guest) \<Rightarrow> ('w, 'b) guest" where
  "guest_bind m f w = (case m w of (w', Inl e) \<Rightarrow> (w', Inl e) | (w', Inr x) \<Rightarrow> f x w')"

definition guest_read :: "address_translator \<Rightarrow> translation_root \<Rightarrow> u64 \<Rightarrow> usize \<Rightarrow> ('s vmi_session, u8 list) guest" where
  "guest_read tr root address len s = read_virtual s tr root (Gva address) len"

text \<open>The conversion of a vector to an array of \<open>n\<close> bytes.\<close>

definition try_into_array :: "nat \<Rightarrow> vmi_error \<Rightarrow> u8 list \<Rightarrow> u8 list result" where
  "try_into_array n e bs = (if length bs = n then Inr bs else Inl e)"

definition usize_of_u32 :: "u32 \<Rightarrow> usize option" where
  "usize_of_u32 w = (if unat w < usize_bound then Some (unat w) else None)"

definition u32_of_usize :: "usize \<Rightarrow> u32 option" where
  "u32_of_usize n = (if n < 2 ^ 32 then Some (of_nat n) else None)"

text \<open>Growing a vector or set of \<open>n\<close> elements of a given width by one.\<close>

definition reserve_one :: "nat \<Rightarrow> nat \<Rightarrow> string \<Rightarrow> unit result" where
  "reserve_one width n description =
     (if reservable (width * (n + 1)) then Inr ()
      else Inl (Backend (''failed to grow '' @ description @ '': '' @ capacity_overflow)))"

section \<open>Guest text\<close>

text \<open>
  Names are cut at the first NUL byte. The lossy UTF-8 decoder, which both operating-system crates contain: an invalid sequence becomes the replacement character.
\<close>

definition REPLACEMENT_CHARACTER :: string where
  "REPLACEMENT_CHARACTER = string_of [0xEF, 0xBF, 0xBD]"

lemma utf8_tail_positive: "utf8_tail b k m bs = Some (Some n) \<Longrightarrow> k \<le> n"
  by (induction b k m bs rule: utf8_tail.induct) (auto split: if_splits)

lemma utf8_check_positive: "utf8_check i bs = Some (j, Some n) \<Longrightarrow> 0 < n"
proof (induction i bs rule: utf8_check.induct)
  case (2 i b bs)
  then show ?case
    using utf8_tail_positive [of b 1 "utf8_width b - 1" bs n] by (auto split: if_splits option.splits)
qed simp

definition decode_valid :: "string \<Rightarrow> u8 list \<Rightarrow> nat \<Rightarrow> string result" where
  "decode_valid description remaining valid_length =
     and_then (ok_or (get_range remaining 0 valid_length)
       (Backend (description @ '' valid prefix is out of bounds''))) (\<lambda>valid.
     map_err (\<lambda>e. Backend (description @ '' valid prefix failed: '' @ e)) (from_utf8 valid))"

function decode_loop :: "string \<Rightarrow> u8 list \<Rightarrow> usize \<Rightarrow> string \<Rightarrow> string result" where
  "decode_loop description bytes offset out =
     (if offset < length bytes then
        (case utf8_check 0 (drop offset bytes) of
           None \<Rightarrow> Inr (out @ string_of (drop offset bytes))
         | Some (valid_length, error_len) \<Rightarrow>
             and_then (decode_valid description (drop offset bytes) valid_length) (\<lambda>valid.
             let out' = out @ valid @ REPLACEMENT_CHARACTER in
             case error_len of
               None \<Rightarrow> Inr out'
             | Some error_length \<Rightarrow>
                 (case Option.bind (usize_checked_add offset valid_length) (\<lambda>v. usize_checked_add v error_length) of
                    None \<Rightarrow> Inl (Backend (description @ '' decoder progress overflow''))
                  | Some offset' \<Rightarrow> decode_loop description bytes offset' out')))
      else Inr out)"
  by pat_completeness auto
termination
  by (relation "measure (\<lambda>(description, bytes, offset, out). length bytes - offset)")
    (auto dest!: utf8_check_positive simp: bind_eq_Some_conv usize_checked_add_def split: if_splits)

declare decode_loop.simps [simp del]

definition decode_guest_bytes :: "u8 list \<Rightarrow> string \<Rightarrow> string result" where
  "decode_guest_bytes bytes description =
     (case from_utf8 bytes of
        Inr txt \<Rightarrow> Inr txt
      | Inl _ \<Rightarrow>
          and_then (ok_or (usize_checked_mul (length bytes) 3)
            (Backend (description @ '' decoded length overflow''))) (\<lambda>cap.
          if \<not> reservable cap then
            Inl (Backend (''failed to allocate decoded '' @ description @ '': '' @ capacity_overflow))
          else decode_loop description bytes 0 []))"

definition until_nul :: "u8 list \<Rightarrow> u8 list" where
  "until_nul bytes = takeWhile (\<lambda>b. b \<noteq> 0) bytes"

section \<open>Loops with a cycle detector\<close>

lemma unseen_decreases: "k \<notin> set seen \<Longrightarrow> card (UNIV - set (k # seen)) < card (UNIV - set seen)"
  for k :: "'k::finite"
  by (rule psubset_card_mono) auto

text \<open>
  Each iteration grows the set of visited keys, fails if the key is there already, runs the body and either
  leaves the loop or continues with the next key. It ends because the keys are machine words.
\<close>

function walk ::
  "nat \<Rightarrow> string \<Rightarrow> ('k::finite \<Rightarrow> vmi_error) \<Rightarrow> ('k \<Rightarrow> 'o \<Rightarrow> ('w, 'o \<times> 'k option) guest) \<Rightarrow>
   'k list \<Rightarrow> 'k \<Rightarrow> 'o \<Rightarrow> ('w, 'k list \<times> 'o) guest" where
  "walk width detector looped body seen k out w =
     (case reserve_one width (length seen) detector of
        Inl e \<Rightarrow> (w, Inl e)
      | Inr _ \<Rightarrow>
          if k \<in> set seen then (w, Inl (looped k))
          else
            (case body k out w of
               (w', Inl e) \<Rightarrow> (w', Inl e)
             | (w', Inr (out', None)) \<Rightarrow> (w', Inr (k # seen, out'))
             | (w', Inr (out', Some k')) \<Rightarrow> walk width detector looped body (k # seen) k' out' w'))"
  by pat_completeness auto
termination
proof (relation "measure (\<lambda>(width, detector, looped, body, seen, k, out, w). card (UNIV - set seen))", simp)
  fix width :: nat and detector :: string and looped :: "'k::finite \<Rightarrow> vmi_error" and seen :: "'k list"
    and body :: "'k \<Rightarrow> 'o \<Rightarrow> ('w, 'o \<times> 'k option) guest" and k k' :: 'k and out out' :: 'o and w w' :: 'w
  assume "k \<notin> set seen"
  then show "((width, detector, looped, body, k # seen, k', out', w'), width, detector, looped, body, seen, k, out, w)
      \<in> measure (\<lambda>(width, detector, looped, body, seen, k, out, w). card (UNIV - set seen))"
    using unseen_decreases [of k seen] by simp
qed

declare walk.simps [simp del]

text \<open>
  A list in memory: from \<open>k\<close>, following \<open>nxt\<close> until it says that the list ends.
\<close>

fun chain :: "('k \<Rightarrow> 'k option option) \<Rightarrow> 'k \<Rightarrow> 'k list \<Rightarrow> bool" where
  "chain nxt k [] = False"
| "chain nxt k (k' # ks) = (k' = k \<and>
     (case nxt k of None \<Rightarrow> False | Some None \<Rightarrow> ks = [] | Some (Some k'') \<Rightarrow> chain nxt k'' ks))"

text \<open>The list from a given start is unique.\<close>

lemma chain_unique: "chain nxt k ks \<Longrightarrow> chain nxt k ks' \<Longrightarrow> ks = ks'"
proof (induction ks arbitrary: k ks')
  case (Cons a ks)
  then show ?case by (cases ks') (auto split: option.splits)
qed simp

text \<open>
  The traversal itself, for a body that is a partial function, and its reading as a list: when
  the body appends the items of a key and continues unless a limit is reached, the traversal
  succeeds exactly on a chain of new keys whose items are all there and that ends before the limit.
\<close>

inductive walked ::
  "nat \<Rightarrow> ('k \<Rightarrow> 'o \<Rightarrow> ('o \<times> 'k option) option) \<Rightarrow> 'k list \<Rightarrow> 'k \<Rightarrow> 'o \<Rightarrow> 'k list \<Rightarrow> 'o \<Rightarrow> bool"
  for width pb where
  last: "reservable (width * (length seen + 1)) \<Longrightarrow> k \<notin> set seen \<Longrightarrow> pb k out = Some (out', None) \<Longrightarrow>
    walked width pb seen k out (k # seen) out'"
| onward: "reservable (width * (length seen + 1)) \<Longrightarrow> k \<notin> set seen \<Longrightarrow> pb k out = Some (out1, Some k') \<Longrightarrow>
    walked width pb (k # seen) k' out1 seen' out' \<Longrightarrow> walked width pb seen k out seen' out'"

definition collect ::
  "('k \<Rightarrow> 'x list option) \<Rightarrow> ('k \<Rightarrow> 'k option option) \<Rightarrow> nat \<Rightarrow> 'k \<Rightarrow> 'x list \<Rightarrow> ('x list \<times> 'k option) option" where
  "collect item nxt limit k out =
     Option.bind (item k) (\<lambda>xs. Option.bind (nxt k) (\<lambda>n. case n of
       None \<Rightarrow> Some (out @ xs, None)
     | Some k' \<Rightarrow> if limit \<le> length out + length xs then None else Some (out @ xs, Some k')))"

lemma collect_Some:
  "collect item nxt limit k out = Some (out', n) \<longleftrightarrow> (\<exists>xs. item k = Some xs \<and> nxt k = Some n \<and>
     out' = out @ xs \<and> (n \<noteq> None \<longrightarrow> length out + length xs < limit))"
  by (cases "item k"; cases "nxt k"; cases "the (nxt k)"; cases n) (auto simp: collect_def)

lemma walked_collect:
  assumes "length out < limit"
  shows "walked width (collect item nxt limit) seen k out seen' out' \<longleftrightarrow>
    (\<exists>ks xss. chain nxt k ks \<and> distinct ks \<and> set ks \<inter> set seen = {} \<and> seen' = rev ks @ seen \<and>
       map item ks = map Some xss \<and> out' = out @ concat xss \<and>
       length out + length (concat (butlast xss)) < limit \<and>
       (\<forall>n. length seen < n \<and> n \<le> length seen + length ks \<longrightarrow> reservable (width * n)))"
    (is "?W \<longleftrightarrow> (\<exists>ks xss. ?C seen k out seen' out' ks xss)")
proof
  assume ?W
  then show "\<exists>ks xss. ?C seen k out seen' out' ks xss"
    using assms
  proof (induction rule: walked.induct)
    case (last seen k out out')
    then obtain xs where "item k = Some xs" "nxt k = Some None" "out' = out @ xs"
      by (auto simp: collect_Some)
    then have "?C seen k out (k # seen) out' [k] [xs]"
      using last le_Suc_eq by auto
    then show ?case by blast
  next
    case (onward seen k out out1 k' seen' out')
    then obtain xs where k: "item k = Some xs" "nxt k = Some (Some k')" "out1 = out @ xs" "length out1 < limit"
      by (auto simp: collect_Some)
    with onward obtain ks xss where rest: "?C (k # seen) k' out1 seen' out' ks xss" by blast
    then have "ks \<noteq> []" "xss \<noteq> []" by auto
    moreover have "reservable (width * n)" if "length seen < n" "n \<le> length seen + length (k # ks)" for n
      using that rest onward(1) by (cases "n = length seen + 1") auto
    ultimately have "?C seen k out seen' out' (k # ks) (xs # xss)"
      using k onward(2) rest by simp
    then show ?case by blast
  qed
next
  assume "\<exists>ks xss. ?C seen k out seen' out' ks xss"
  then obtain ks xss where "?C seen k out seen' out' ks xss" by blast
  then show ?W
    using assms
  proof (induction ks arbitrary: seen k out xss)
    case (Cons a ks)
    then obtain xs yss where xss: "xss = xs # yss" "item k = Some xs" "a = k" "k \<notin> set seen" by (cases xss) auto
    have room: "reservable (width * (length seen + 1))" using Cons.prems by auto
    show ?case
    proof (cases "nxt k")
      case (Some n)
      show ?thesis
      proof (cases n)
        case None
        then have "ks = []" "yss = []" using Cons.prems Some xss by auto
        moreover have "collect item nxt limit k out = Some (out @ xs, None)"
          using Some None xss by (simp add: collect_def)
        ultimately show ?thesis
          using walked.last [OF room] Cons.prems xss by fastforce
      next
        case onward: (Some k')
        then have "ks \<noteq> []" "chain nxt k' ks" using Cons.prems Some by auto
        then have "yss \<noteq> []" using Cons.prems xss by auto
        then have lim: "length (out @ xs) < limit" "length (out @ xs) + length (concat (butlast yss)) < limit"
          using Cons.prems xss by auto
        have "collect item nxt limit k out = Some (out @ xs, Some k')"
          using Some onward xss lim by (simp add: collect_def)
        moreover have "?C (k # seen) k' (out @ xs) seen' out' ks yss"
          using Cons.prems(1) xss lim(2) \<open>chain nxt k' ks\<close> by simp
        then have "walked width (collect item nxt limit) (k # seen) k' (out @ xs) seen' out'"
          by (rule Cons.IH) (rule lim(1))
        ultimately show ?thesis by (rule walked.onward [OF room xss(4)])
      qed
    qed (use Cons.prems in auto)
  qed simp
qed

text \<open>A chain that ends never meets a key twice.\<close>

lemma chain_suffix: "chain nxt k (xs @ k' # ys) \<Longrightarrow> chain nxt k' (k' # ys)"
proof (induction xs arbitrary: k)
  case (Cons a xs)
  then show ?case by (cases xs) (auto split: option.splits)
qed (auto split: option.splits)

lemma chain_distinct: "chain nxt k ks \<Longrightarrow> distinct ks"
proof (induction ks arbitrary: k)
  case (Cons a ks)
  have "a \<notin> set ks"
  proof
    assume "a \<in> set ks"
    then obtain xs ys where ks: "ks = xs @ a # ys" by (meson split_list)
    have "a = k" using Cons.prems by simp
    then have "chain nxt a (a # ys)" using chain_suffix [of nxt k "a # xs" a ys] Cons.prems ks by simp
    with Cons.prems \<open>a = k\<close> have "a # ks = a # ys" using chain_unique by metis
    then show False using ks by simp
  qed
  moreover have "distinct ks"
  proof (cases "nxt k")
    case (Some n)
    then show ?thesis using Cons by (cases n) auto
  qed (use Cons.prems in auto)
  ultimately show ?case by simp
qed simp

text \<open>
  A circular list: starting from the pointer \<open>p\<close>, follow \<open>nxt\<close> through the nodes until the head is reached.
\<close>

fun ring :: "('k \<Rightarrow> 'k option) \<Rightarrow> 'k \<Rightarrow> 'k option \<Rightarrow> 'k list \<Rightarrow> bool" where
  "ring nxt head p [] = (p = Some head)"
| "ring nxt head p (k # ks) = (p = Some k \<and> k \<noteq> head \<and> ring nxt head (nxt k) ks)"

definition until_head :: "('k \<Rightarrow> 'k option) \<Rightarrow> 'k \<Rightarrow> 'k \<Rightarrow> 'k option option" where
  "until_head nxt head k = map_option (\<lambda>n. if n = head then None else Some n) (nxt k)"

lemma ring_head [simp]: "ring nxt head (Some head) ks \<longleftrightarrow> ks = []"
  by (cases ks) auto

lemma ring_None [simp]: "\<not> ring nxt head None ks"
  by (cases ks) auto

lemma chain_ring:
  "k \<noteq> head \<Longrightarrow> chain (until_head nxt head) k ks \<longleftrightarrow> ring nxt head (Some k) ks"
proof (induction ks arbitrary: k)
  case (Cons a ks)
  consider "nxt k = None" | "nxt k = Some head" | n where "nxt k = Some n" "n \<noteq> head" by (cases "nxt k") auto
  then show ?case
  proof cases
    case (3 n)
    then show ?thesis using Cons.IH [OF 3(2)] Cons.prems by (auto simp: until_head_def)
  qed (use Cons.prems in \<open>auto simp: until_head_def\<close>)
qed auto

lemma collect_until_head:
  "collect (\<lambda>k. map_option (\<lambda>x. [x]) (item k)) (until_head nxt head) limit k out =
     Option.bind (item k) (\<lambda>x. Option.bind (nxt k) (\<lambda>n.
       if n \<noteq> head \<and> limit \<le> length (out @ [x]) then None
       else if n = head then Some (out @ [x], None) else Some (out @ [x], Some n)))"
  by (cases "item k"; cases "nxt k") (auto simp: collect_def until_head_def)

text \<open>The traversal from nothing, when every key has one item.\<close>

lemma single_items:
  "map (\<lambda>k. map_option (\<lambda>x. [x]) (item k)) ks = map Some xss \<Longrightarrow>
     map item ks = map Some (concat xss) \<and> xss = map (\<lambda>x. [x]) (concat xss)"
proof (induction ks arbitrary: xss)
  case (Cons a ks)
  then obtain x yss where x: "xss = [x] # yss" "item a = Some x"
      "map (\<lambda>k. map_option (\<lambda>x. [x]) (item k)) ks = map Some yss"
    by (cases xss) auto
  from Cons.IH [OF x(3)] show ?case using x(1,2) by simp
qed simp

lemma walked_items:
  assumes "0 < limit" "reservable (width * limit)"
  shows "(\<exists>seen. walked width (collect (\<lambda>k. map_option (\<lambda>x. [x]) (item k)) nxt limit) [] k [] seen out) \<longleftrightarrow>
    (\<exists>ks. chain nxt k ks \<and> length ks \<le> limit \<and> map item ks = map Some out)"
    (is "?W \<longleftrightarrow> ?C")
proof -
  have room: "reservable (width * n)" if "n \<le> limit" for n
    using assms(2) that unfolding reservable_def by (meson le_trans mult_le_mono2)
  show ?thesis
  proof
    assume ?W
    then obtain ks xss where ks: "chain nxt k ks" "map (\<lambda>k. map_option (\<lambda>x. [x]) (item k)) ks = map Some xss"
      "out = concat xss" "length (concat (butlast xss)) < limit"
      unfolding walked_collect [of "[]" limit, simplified, OF assms(1)] by auto
    from single_items [OF ks(2)] have out: "map item ks = map Some out" "xss = map (\<lambda>x. [x]) out"
      by (simp_all add: ks(3))
    then have "length (butlast out) < limit" using ks(4) by (simp add: map_butlast [symmetric])
    moreover have "length ks = length out" using out(1) by (metis length_map)
    ultimately show ?C using ks(1) out(1) by (intro exI [of _ ks]) auto
  next
    assume ?C
    then obtain ks where ks: "chain nxt k ks" "length ks \<le> limit" "map item ks = map Some out" by blast
    have "map (\<lambda>k. map_option (\<lambda>x. [x]) (item k)) ks = map (map_option (\<lambda>x. [x])) (map item ks)" by simp
    also have "\<dots> = map Some (map (\<lambda>x. [x]) out)" unfolding ks(3) by simp
    finally have items: "map (\<lambda>k. map_option (\<lambda>x. [x]) (item k)) ks = map Some (map (\<lambda>x. [x]) out)" .
    have len: "length ks = length out" using ks(3) by (metis length_map)
    moreover have "ks \<noteq> []" using ks(1) by auto
    ultimately have lim: "length (concat (butlast (map (\<lambda>x. [x]) out))) < limit"
      using ks(2) by (cases out) (simp_all add: map_butlast [symmetric])
    show ?W
      unfolding walked_collect [of "[]" limit, simplified, OF assms(1)]
      by (rule exI [of _ "rev ks"], rule exI [of _ ks])
        (use lim ks(1) chain_distinct [OF ks(1)] items room ks(2) in \<open>auto intro!: exI [of _ "map (\<lambda>x. [x]) out"]\<close>)
  qed
qed

section \<open>Abstract memory\<close>

definition mem_bytes :: "(nat \<Rightarrow> u8 option) \<Rightarrow> u64 \<Rightarrow> nat \<Rightarrow> u8 list option" where
  "mem_bytes mem a n =
     (if \<forall>i \<in> set [0 ..< n]. mem (unat a + i) \<noteq> None then Some (map (\<lambda>i. the (mem (unat a + i))) [0 ..< n]) else None)"

lemma mem_bytes_Some:
  "mem_bytes mem a n = Some bs \<longleftrightarrow> length bs = n \<and> (\<forall>i < n. mem (unat a + i) = Some (bs ! i))"
proof -
  have "Some (map (\<lambda>i. the (mem (unat a + i))) [0 ..< n]) = Some bs \<longleftrightarrow>
      length bs = n \<and> (\<forall>i < n. the (mem (unat a + i)) = bs ! i)"
    by (auto simp: list_eq_iff_nth_eq)
  then show ?thesis
  proof (cases "\<forall>i < n. mem (unat a + i) \<noteq> None")
    case True
    then have "the (mem (unat a + i)) = v \<longleftrightarrow> mem (unat a + i) = Some v" if "i < n" for i v
      using that by force
    then show ?thesis using True \<open>_ \<longleftrightarrow> _\<close> by (simp add: mem_bytes_def)
  next
    case False
    then show ?thesis by (auto simp: mem_bytes_def)
  qed
qed

definition mem_word :: "(nat \<Rightarrow> u8 option) \<Rightarrow> u64 \<Rightarrow> 'a::len word option" where
  "mem_word mem a = map_option from_le_bytes (mem_bytes mem a (LENGTH('a) div 8))"

text \<open>The address of a field, when it does not leave the address space.\<close>

definition field :: "(u64 \<Rightarrow> 'a option) \<Rightarrow> u64 \<Rightarrow> u64 \<Rightarrow> 'a option" where
  "field get base offset = Option.bind (checked_add base offset) get"

definition ok_value :: "'a result \<Rightarrow> 'a option" where
  "ok_value r = (case r of Inl e \<Rightarrow> None | Inr x \<Rightarrow> Some x)"

lemma ok_value_simps [simp]:
  "ok_value (Inl e) = None" "ok_value (Inr x) = Some x" "ok_value r = Some x \<longleftrightarrow> r = Inr x"
  "ok_value (ok_or m e) = m" "ok_value (and_then r f) = Option.bind (ok_value r) (\<lambda>x. ok_value (f x))"
  by (auto simp: ok_value_def and_then_def ok_or_def split: sum.splits option.splits)

lemma ok_value_cases [simp]:
  "ok_value (if b then r else r') = (if b then ok_value r else ok_value r')"
  "ok_value (case m of None \<Rightarrow> r | Some x \<Rightarrow> f x) = (case m of None \<Rightarrow> ok_value r | Some x \<Rightarrow> ok_value (f x))"
  by (auto split: option.split)

section \<open>The contract of virtual reads\<close>

locale guest_memory =
  fixes inv :: "'w \<Rightarrow> bool"
    and read :: "u64 \<Rightarrow> usize \<Rightarrow> ('w, u8 list) guest"
    and mem :: "nat \<Rightarrow> u8 option"
  assumes read_inv: "inv w \<Longrightarrow> inv (fst (read a len w))"
    and read_bytes_at: "inv w \<Longrightarrow> reservable len \<Longrightarrow> snd (read a len w) = Inr bs \<longleftrightarrow> mem_bytes mem a len = Some bs"
begin

text \<open>
  A computation implements a partial value when it keeps the invariant and succeeds exactly with that value.
\<close>

definition runs :: "('w, 'a) guest \<Rightarrow> 'a option \<Rightarrow> bool" where
  "runs m v \<longleftrightarrow> (\<forall>w. inv w \<longrightarrow> inv (fst (m w)) \<and> ok_value (snd (m w)) = v)"

lemma runsD: "runs m v \<Longrightarrow> inv w \<Longrightarrow> snd (m w) = Inr x \<longleftrightarrow> v = Some x"
  by (metis runs_def ok_value_simps(3))

lemma runs_ret [intro]: "v = ok_value r \<Longrightarrow> runs (guest_ret r) v"
  by (simp add: runs_def guest_ret_def)

lemma runs_bind [intro]:
  assumes "runs m v" "\<And>x. v = Some x \<Longrightarrow> runs (f x) (g x)"
  shows "runs (guest_bind m f) (Option.bind v g)"
  unfolding runs_def
proof (intro allI impI)
  fix w assume w: "inv w"
  obtain w' r where m: "m w = (w', r)" by fastforce
  have w': "inv w'" "ok_value r = v" using assms(1) w m by (auto simp: runs_def)
  show "inv (fst (guest_bind m f w)) \<and> ok_value (snd (guest_bind m f w)) = Option.bind v g"
  proof (cases r)
    case (Inr x)
    then have "runs (f x) (g x)" using assms(2) w' by simp
    then show ?thesis using w' Inr m by (auto simp: guest_bind_def runs_def)
  qed (use w' m in \<open>auto simp: guest_bind_def\<close>)
qed

lemma runs_if:
  "(b \<Longrightarrow> runs m v) \<Longrightarrow> (\<not> b \<Longrightarrow> runs m' v') \<Longrightarrow> runs (if b then m else m') (if b then v else v')"
  by simp

lemma runs_read [intro]: "reservable len \<Longrightarrow> runs (read a len) (mem_bytes mem a len)"
  unfolding runs_def
proof (intro allI impI conjI)
  fix w assume w: "inv w" "reservable len"
  show "inv (fst (read a len w))" using read_inv w by blast
  show "ok_value (snd (read a len w)) = mem_bytes mem a len"
  proof (cases "mem_bytes mem a len")
    case None
    then have "snd (read a len w) \<noteq> Inr bs" for bs using read_bytes_at [OF w] by simp
    then show ?thesis using None by (cases "snd (read a len w)") auto
  next
    case (Some bs)
    then show ?thesis using read_bytes_at [OF w, of a bs] by simp
  qed
qed

text \<open>A loop whose body implements a partial function implements the traversal of that function.\<close>

lemma runs_walk:
  assumes body: "\<And>k out. P out \<Longrightarrow> runs (body k out) (pb k out)"
    and P_step: "\<And>k out out' k'. P out \<Longrightarrow> pb k out = Some (out', Some k') \<Longrightarrow> P out'"
    and w: "inv w" and P: "P out"
  shows "inv (fst (walk width detector looped body seen k out w)) \<and>
    (snd (walk width detector looped body seen k out w) = Inr (seen', out') \<longleftrightarrow> walked width pb seen k out seen' out')"
  using w P
proof (induction "card (UNIV - set seen)" arbitrary: seen k out w rule: less_induct)
  case less
  note wk = walk.simps [of width detector looped body seen k out w]
  show ?case
  proof (cases "reservable (width * (length seen + 1)) \<and> k \<notin> set seen")
    case True
    obtain w1 r where step: "body k out w = (w1, r)" by fastforce
    then have r: "inv w1" "ok_value r = pb k out" using body [OF less.prems(2), of k] less.prems(1) by (auto simp: runs_def dest!: spec [of _ w])
    show ?thesis
    proof (cases r)
      case (Inl e)
      with r have "pb k out = None" by auto
      then show ?thesis using True step r Inl less.prems
        by (simp add: wk reserve_one_def walked.simps [of width pb seen])
    next
      case (Inr x)
      then obtain out1 n where x: "x = (out1, n)" by (cases x)
      with r Inr have pb: "pb k out = Some (out1, n)" by auto
      show ?thesis
      proof (cases n)
        case None
        then show ?thesis using True step r Inr x pb less.prems
          by (auto simp: wk reserve_one_def walked.simps [of width pb seen])
      next
        case (Some k')
        have P1: "P out1" using P_step less.prems(2) pb Some by blast
        have "walk width detector looped body seen k out w = walk width detector looped body (k # seen) k' out1 w1"
          using True step Inr x Some by (simp add: wk reserve_one_def)
        moreover have "walked width pb seen k out seen' out' \<longleftrightarrow> walked width pb (k # seen) k' out1 seen' out'"
          using True pb Some by (auto simp: walked.simps [of width pb seen])
        ultimately show ?thesis
          using less.hyps [OF unseen_decreases r(1) P1] True by simp
      qed
    qed
  next
    case False
    then show ?thesis
      using less.prems by (auto simp: wk reserve_one_def walked.simps [of width pb seen] split: if_splits)
  qed
qed

text \<open>A loop that collects one item for each key of a list returns the items of the list.\<close>

lemma walk_items:
  assumes body: "\<And>k out. length out < limit \<Longrightarrow>
      runs (body k out) (collect (\<lambda>k. map_option (\<lambda>x. [x]) (item k)) nxt limit k out)"
    and limit: "0 < limit" "reservable (width * limit)" and w: "inv w"
  shows "inv (fst (guest_bind (walk width detector looped body [] k []) (\<lambda>(seen, out). guest_ret (Inr out)) w)) \<and>
    (snd (guest_bind (walk width detector looped body [] k []) (\<lambda>(seen, out). guest_ret (Inr out)) w) = Inr xs \<longleftrightarrow>
      (\<exists>ks. chain nxt k ks \<and> length ks \<le> limit \<and> map item ks = map Some xs))"
proof -
  have step: "length out' < limit" if "length out < limit"
      "collect (\<lambda>k. map_option (\<lambda>x. [x]) (item k)) nxt limit k out = Some (out', Some k')" for k out out' k'
    using that by (auto simp: collect_Some)
  have walk': "inv (fst (walk width detector looped body [] k [] w)) \<and>
      (snd (walk width detector looped body [] k [] w) = Inr (seen, out) \<longleftrightarrow>
        walked width (collect (\<lambda>k. map_option (\<lambda>x. [x]) (item k)) nxt limit) [] k [] seen out)" for seen out
    by (rule runs_walk [where P = "\<lambda>out. length out < limit", OF body step w]) (use limit in auto)
  obtain w' r where run: "walk width detector looped body [] k [] w = (w', r)" by fastforce
  have "r = Inr (seen, out) \<longleftrightarrow>
      walked width (collect (\<lambda>k. map_option (\<lambda>x. [x]) (item k)) nxt limit) [] k [] seen out" for seen out
    using walk' [of seen out] run by simp
  then have "(\<exists>seen. r = Inr (seen, xs)) \<longleftrightarrow> (\<exists>ks. chain nxt k ks \<and> length ks \<le> limit \<and> map item ks = map Some xs)"
    by (simp add: walked_items [OF limit])
  moreover have "inv w'" using walk' run by simp
  ultimately show ?thesis
    by (cases r) (auto simp: guest_bind_def guest_ret_def run)
qed

text \<open>The loops over circular lists with a head node.\<close>

lemma head_list:
  assumes body: "\<And>k out. length out < limit \<Longrightarrow>
      runs (body k out) (collect (\<lambda>k. map_option (\<lambda>x. [x]) (item k)) (until_head nxt head) limit k out)"
    and first: "runs first p"
    and limit: "0 < limit" "reservable (width * limit)" and w: "inv w"
  shows "inv (fst (guest_bind first (\<lambda>node. if node = head then guest_ret (Inr [])
      else guest_bind (walk width detector looped body [] node []) (\<lambda>(seen, out). guest_ret (Inr out))) w)) \<and>
    (snd (guest_bind first (\<lambda>node. if node = head then guest_ret (Inr [])
      else guest_bind (walk width detector looped body [] node []) (\<lambda>(seen, out). guest_ret (Inr out))) w) = Inr xs \<longleftrightarrow>
      (\<exists>ks. ring nxt head p ks \<and> length ks \<le> limit \<and> map item ks = map Some xs))"
proof -
  obtain w' r where run: "first w = (w', r)" by fastforce
  then have r: "inv w'" "ok_value r = p" using first w by (auto simp: runs_def)
  show ?thesis
  proof (cases r)
    case (Inl e)
    then have "p = None" using r by auto
    then show ?thesis using Inl r run by (simp add: guest_bind_def)
  next
    case (Inr node)
    then have p: "p = Some node" using r by auto
    show ?thesis
    proof (cases "node = head")
      case True
      then show ?thesis using Inr r run p by (auto simp: guest_bind_def guest_ret_def)
    next
      case False
      from walk_items [where body = body and item = item and nxt = "until_head nxt head" and k = node, OF body limit r(1)]
      show ?thesis
        using False Inr run by (simp add: guest_bind_def [of first] p chain_ring)
    qed
  qed
qed

end

text \<open>Virtual reads of a coherent session through a translator of the workspace meet the contract.\<close>

interpretation vm: guest_memory
  "\<lambda>s. cache_coherent builtin_translators s rd \<and> t \<in> builtin_translators \<and> reads_bytes rd bytes"
  "guest_read t root" "virtual_byte rd bytes t root"
  for rd bytes t root
proof
  fix s :: "'a vmi_session" and a :: u64 and len :: usize and bs :: "u8 list"
  assume s: "cache_coherent builtin_translators s rd \<and> t \<in> builtin_translators \<and> reads_bytes rd bytes"
  obtain s' r where loop: "read_virtual_loop rd t root a len s (replicate len 0) 0 = (s', r)" by fastforce
  have mem: "vmi_memory s = Inr rd" using s by (simp add: cache_coherent_def)
  note correct = builtin.read_loop_correct [OF conjunct1 [OF s] conjunct1 [OF conjunct2 [OF s]]
      conjunct2 [OF conjunct2 [OF s]] _ _ _ loop]
  show "cache_coherent builtin_translators (fst (guest_read t root a len s)) rd \<and> t \<in> builtin_translators \<and>
      reads_bytes rd bytes"
    using s mem correct loop reservable_less by (auto simp: guest_read_def read_virtual_def)
  show "snd (guest_read t root a len s) = Inr bs \<longleftrightarrow> mem_bytes (virtual_byte rd bytes t root) a len = Some bs"
    if "reservable len"
    using that mem correct loop reservable_less by (simp add: guest_read_def read_virtual_def mem_bytes_Some)
qed

abbreviation runs_in :: "read_into \<Rightarrow> (nat \<Rightarrow> u8 option) \<Rightarrow> address_translator \<Rightarrow> ('s vmi_session, 'a) guest \<Rightarrow> 'a option \<Rightarrow> bool" where
  "runs_in rd bytes t \<equiv> guest_memory.runs
     (\<lambda>s. cache_coherent builtin_translators s rd \<and> t \<in> builtin_translators \<and> reads_bytes rd bytes)"

lemma runs_as_array:
  assumes "reservable n"
  shows "runs_in rd bytes t (guest_bind (guest_read t root a n) (\<lambda>bs. guest_ret (and_then (try_into_array n e bs) f)))
    (Option.bind (mem_bytes (virtual_byte rd bytes t root) a n) (\<lambda>bs. ok_value (f bs)))"
proof (rule vm.runs_bind [OF vm.runs_read [OF assms]])
  fix bs assume "mem_bytes (virtual_byte rd bytes t root) a n = Some bs"
  then show "runs_in rd bytes t (guest_ret (and_then (try_into_array n e bs) f)) (ok_value (f bs))"
    by (intro vm.runs_ret) (simp add: mem_bytes_Some try_into_array_def)
qed

lemma runs_mem_word:
  assumes "8 * n = LENGTH('a::len)" "reservable n"
  shows "runs_in rd bytes t
    (guest_bind (guest_read t root a n) (\<lambda>bs. guest_ret (and_then (try_into_array n e bs) (\<lambda>b. Inr (from_le_bytes b :: 'a word)))))
    (mem_word (virtual_byte rd bytes t root) a)"
proof -
  have "LENGTH('a) div 8 = n" using assms(1) by linarith
  then have "mem_word m a = Option.bind (mem_bytes m a n) (\<lambda>bs. ok_value (Inr (from_le_bytes bs :: 'a word)))" for m
    by (cases "mem_bytes m a n") (simp_all add: mem_word_def)
  then show ?thesis by (simp only: runs_as_array [OF assms(2)])
qed

section \<open>A guest for examples\<close>

text \<open>
  A memory image that begins with the page-table entry 3 maps its first page to itself under the smallest
  AArch64 translator.
\<close>

definition sample_translator :: address_translator where
  "sample_translator = aarch64_as_translator \<lparr>granule = KiB4, address_bits = 13\<rparr>"

lemma sample_translator_builtin: "sample_translator \<in> builtin_translators"
  unfolding builtin_translators_def sample_translator_def
  by (intro UnI2 CollectI exI [of _ "\<lparr>granule = KiB4, address_bits = 13\<rparr>"] exI [of _ KiB4] exI [of _ 13])
    (simp add: aarch64_new_iff)

definition sample_image :: "u8 list \<Rightarrow> u8 list" where
  "sample_image data = [3, 0, 0, 0, 0, 0, 0, 0] @ data"

lemma sample_virtual_byte:
  assumes "n < 4096"
  shows "virtual_byte (flat_memory (sample_image data)) (flat_byte (sample_image data)) sample_translator
    (TranslationRoot 0) n = get_at (sample_image data) n"
proof -
  let ?rd = "flat_memory (sample_image data)"
  have entry: "read_scalar ?rd (Gpa 0) LittleEndian = Inr (3 :: u64)"
    by (simp add: sample_image_def read_scalar_u64 read_bytes_def flat_memory_def get_range_def from_le_bytes_def)
  then have "translate sample_translator ?rd (TranslationRoot 0) (Gva 0) = Inr (translation_new (Gpa 0) 4096)"
    by (auto simp: sample_translator_def aarch64_as_translator_def aarch64_eval intro!: exI [of _ 3])
  from virtual_byte_page [OF builtin_pages [OF sample_translator_builtin] this, where j = n] assms show ?thesis
    by (simp add: translation_new_def flat_byte_def)
qed

lemma sample_mem_bytes:
  assumes "unat a + len \<le> length (sample_image data)" "unat a + len \<le> 4096"
  shows "mem_bytes (virtual_byte (flat_memory (sample_image data)) (flat_byte (sample_image data)) sample_translator
    (TranslationRoot 0)) a len = Some (take len (drop (unat a) (sample_image data)))"
proof -
  have "virtual_byte (flat_memory (sample_image data)) (flat_byte (sample_image data)) sample_translator
      (TranslationRoot 0) (unat a + i) = Some (sample_image data ! (unat a + i))" if "i < len" for i
    using that assms by (subst sample_virtual_byte) (simp_all add: get_at_def)
  then show ?thesis using assms(1) by (subst mem_bytes_Some) auto
qed

end
