(* ===== verification/Os_Linux.thy ===== *)
theory Os_Linux
  imports Guest
begin

text \<open>
  The crate \<open>vmi-os-linux\<close>: processes, modules, open files, paths and sockets of a Linux guest, read
  through a session. The introspector's session is the state of the guest computations. Each
  loop of the source is \<open>walk\<close> with its body.
\<close>

section \<open>Data (lib.rs)\<close>

record linux_task_offsets =
  task_tasks :: u64
  task_pid :: u64
  task_comm :: u64
  comm_length :: usize

record linux_process =
  process_task :: gva
  process_pid :: u32
  process_command :: string

record linux_module_offsets =
  module_list :: u64
  module_name_offset :: u64
  module_name_length :: usize
  module_core_base :: u64
  module_core_size :: u64

record linux_module =
  module_address :: gva
  linux_module_name :: string
  core_base :: gva
  core_size :: u64

record linux_file_offsets =
  task_files :: u64
  files_fdt :: u64
  fdtable_max_fds :: u64
  fdtable_fd :: u64
  file_path :: u64
  path_dentry :: u64
  file_dentry_name :: u64
  file_qstr_length :: u64
  file_qstr_name :: u64
  file_maximum_name_bytes :: usize

record linux_open_file =
  open_descriptor :: u32
  open_file_address :: gva
  open_dentry :: gva
  open_name :: string

record linux_dentry_offsets =
  dentry_parent :: u64
  dentry_name :: u64
  dentry_qstr_length :: u64
  dentry_qstr_name :: u64
  dentry_maximum_name_bytes :: usize

record linux_mount_offsets =
  mount_parent :: u64
  mount_mountpoint :: u64
  mount_root :: u64

record linux_socket_offsets =
  file_private_data :: u64
  socket_sk :: u64
  sock_family :: u64
  sock_protocol :: u64
  sock_state :: u64
  ipv4_source :: u64
  ipv4_destination :: u64
  ipv6_source :: u64
  ipv6_destination :: u64
  source_port_offset :: u64
  destination_port_offset :: u64

datatype ip_addr = V4 "u8 list" | V6 "u8 list"

record linux_socket =
  socket_file :: gva
  socket_socket :: gva
  socket_sock :: gva
  socket_family :: u16
  socket_protocol :: u8
  socket_state :: u8
  socket_source :: ip_addr
  socket_source_port :: u16
  socket_destination :: ip_addr
  socket_destination_port :: u16

record linux_socket_list_offsets =
  list_node_next :: u64
  list_node_sock :: u64

record linux_socket_hash_offsets =
  bucket_first :: u64
  bucket_stride :: u64
  hash_node_next :: u64
  hash_node_sock :: u64

text \<open>The introspector without its session, which is the state of its operations.\<close>

record linux_introspector =
  li_translator :: address_translator
  li_root :: translation_root
  li_profile :: symbol_table
  li_offsets :: linux_task_offsets

section \<open>Paths and addresses\<close>

fun sum_lengths :: "string \<Rightarrow> usize \<Rightarrow> string list \<Rightarrow> usize result" where
  "sum_lengths description n [] = Inr n"
| "sum_lengths description n (c # cs) =
     and_then (ok_or (usize_checked_add n (length c)) (Backend (description @ '' length overflow''))) (\<lambda>n'.
       sum_lengths description n' cs)"

fun join_components :: "string list \<Rightarrow> string" where
  "join_components [] = []"
| "join_components [c] = c"
| "join_components (c # d # cs) = c @ ''/'' @ join_components (d # cs)"

definition join_absolute_path :: "string list \<Rightarrow> string \<Rightarrow> string result" where
  "join_absolute_path components description =
     and_then (ok_or (usize_checked_add 1 (length components - 1)) (Backend (description @ '' length overflow''))) (\<lambda>n.
     and_then (sum_lengths description n components) (\<lambda>cap.
     if \<not> reservable cap then Inl (Backend (''failed to allocate '' @ description @ '': '' @ capacity_overflow))
     else Inr (''/'' @ join_components components)))"

definition linux_add :: "u64 \<Rightarrow> u64 \<Rightarrow> string \<Rightarrow> u64 result" where
  "linux_add base offset name = ok_or (checked_add base offset) (Backend (''Linux '' @ name @ '' address overflow''))"

section \<open>Scalar reads\<close>

definition linux_read :: "linux_introspector \<Rightarrow> u64 \<Rightarrow> usize \<Rightarrow> ('s vmi_session, u8 list) guest" where
  "linux_read li = guest_read (li_translator li) (li_root li)"

definition linux_read_u32 :: "linux_introspector \<Rightarrow> u64 \<Rightarrow> ('s vmi_session, u32) guest" where
  "linux_read_u32 li address =
     guest_bind (linux_read li address 4) (\<lambda>bytes.
       guest_ret (and_then (try_into_array 4 (Backend ''short PID read'') bytes) (\<lambda>a. Inr (from_le_bytes a))))"

definition linux_read_u64 :: "linux_introspector \<Rightarrow> u64 \<Rightarrow> ('s vmi_session, u64) guest" where
  "linux_read_u64 li address =
     guest_bind (linux_read li address 8) (\<lambda>bytes.
       guest_ret (and_then (try_into_array 8 (Backend ''short pointer read'') bytes) (\<lambda>a. Inr (from_le_bytes a))))"

definition linux_read_array :: "linux_introspector \<Rightarrow> nat \<Rightarrow> u64 \<Rightarrow> ('s vmi_session, u8 list) guest" where
  "linux_read_array li n address =
     guest_bind (linux_read li address n) (\<lambda>bytes.
       guest_ret (try_into_array n (Backend (''short Linux '' @ dec n @ ''-byte read'')) bytes))"

definition linux_read_u8 :: "linux_introspector \<Rightarrow> u64 \<Rightarrow> ('s vmi_session, u8) guest" where
  "linux_read_u8 li address = guest_bind (linux_read_array li 1 address) (\<lambda>a. guest_ret (Inr (a ! 0)))"

definition linux_read_u16 :: "linux_introspector \<Rightarrow> u64 \<Rightarrow> ('s vmi_session, u16) guest" where
  "linux_read_u16 li address = guest_bind (linux_read_array li 2 address) (\<lambda>a. guest_ret (Inr (from_le_bytes a)))"

text \<open>A read at \<open>add(base, offset, name)?\<close>.\<close>

definition at_field :: "(u64 \<Rightarrow> ('w, 'a) guest) \<Rightarrow> u64 \<Rightarrow> u64 \<Rightarrow> string \<Rightarrow> ('w, 'a) guest" where
  "at_field rd base offset name = guest_bind (guest_ret (linux_add base offset name)) rd"

section \<open>Processes\<close>

definition linux_read_process :: "linux_introspector \<Rightarrow> u64 \<Rightarrow> ('s vmi_session, linux_process) guest" where
  "linux_read_process li task =
     guest_bind (guest_ret (ok_or (checked_add task (task_pid (li_offsets li))) (Backend ''PID address overflow''))) (\<lambda>a.
     guest_bind (linux_read_u32 li a) (\<lambda>pid.
     guest_bind (guest_ret (ok_or (checked_add task (task_comm (li_offsets li))) (Backend ''comm address overflow'')))
       (\<lambda>comm_address.
     guest_bind (linux_read li comm_address (comm_length (li_offsets li))) (\<lambda>bytes.
     guest_bind (guest_ret (decode_guest_bytes (until_nul bytes) ''Linux command name'')) (\<lambda>command.
       guest_ret (Inr \<lparr>process_task = Gva task, process_pid = pid, process_command = command\<rparr>))))))"

definition process_body ::
  "linux_introspector \<Rightarrow> u64 \<Rightarrow> usize \<Rightarrow> u64 \<Rightarrow> linux_process list \<Rightarrow>
   ('s vmi_session, linux_process list \<times> u64 option) guest" where
  "process_body li head limit current_task out =
     guest_bind (guest_ret (reserve_one 40 (length out) ''Linux process list'')) (\<lambda>_.
     guest_bind (linux_read_process li current_task) (\<lambda>p.
     guest_bind (guest_ret (ok_or (checked_add current_task (task_tasks (li_offsets li)))
       (Backend ''task list address overflow''))) (\<lambda>list_node.
     guest_bind (linux_read_u64 li list_node) (\<lambda>next_node.
     guest_ret
       (if next_node = head then Inr (out @ [p], None)
        else if limit \<le> length (out @ [p]) then
          Inl (Backend (''Linux task list exceeded limit '' @ dec limit))
        else
          and_then (ok_or (checked_sub next_node (task_tasks (li_offsets li)))
            (Backend (''invalid Linux task list pointer '' @ hex0x next_node))) (\<lambda>next_task.
            Inr (out @ [p], Some next_task)))))))"

definition processes :: "linux_introspector \<Rightarrow> usize \<Rightarrow> ('s vmi_session, linux_process list) guest" where
  "processes li limit =
     (if limit = 0 \<or> comm_length (li_offsets li) = 0 \<or> comm_length (li_offsets li) > 4096 then
        guest_ret (Inl (Backend ''invalid Linux traversal limit or comm length''))
      else
        guest_bind (guest_ret (ok_or (table_symbol (li_profile li) ''init_task'')
          (Backend ''profile does not contain init_task''))) (\<lambda>sb.
        guest_bind (guest_ret (ok_or (checked_add (symbol_address sb) (task_tasks (li_offsets li)))
          (Backend ''init_task list address overflow''))) (\<lambda>head.
        guest_bind
          (walk 8 ''Linux task cycle detector''
            (\<lambda>k. Backend (''Linux task list looped at unexpected task '' @ hex0x k))
            (process_body li head limit) [] (symbol_address sb) []) (\<lambda>(seen, out).
        guest_ret (Inr out)))))"

section \<open>Modules\<close>

definition linux_read_module ::
  "linux_introspector \<Rightarrow> u64 \<Rightarrow> linux_module_offsets \<Rightarrow> ('s vmi_session, linux_module) guest" where
  "linux_read_module li module offsets =
     guest_bind (guest_ret (linux_add module (module_name_offset offsets) ''module name'')) (\<lambda>name_address.
     guest_bind (linux_read li name_address (module_name_length offsets)) (\<lambda>bytes.
     guest_bind (guest_ret (decode_guest_bytes (until_nul bytes) ''Linux module name'')) (\<lambda>name.
     guest_bind (at_field (linux_read_u64 li) module (module_core_base offsets) ''module core base'') (\<lambda>base.
     guest_bind (at_field (linux_read_u64 li) module (module_core_size offsets) ''module core size'') (\<lambda>sz.
       guest_ret (Inr \<lparr>module_address = Gva module, linux_module_name = name, core_base = Gva base, core_size = sz\<rparr>))))))"

definition module_body ::
  "linux_introspector \<Rightarrow> linux_module_offsets \<Rightarrow> u64 \<Rightarrow> usize \<Rightarrow> u64 \<Rightarrow> linux_module list \<Rightarrow>
   ('s vmi_session, linux_module list \<times> u64 option) guest" where
  "module_body li offsets head limit node out =
     guest_bind (guest_ret (ok_or (checked_sub node (module_list offsets))
       (Backend (''invalid Linux module list pointer '' @ hex0x node)))) (\<lambda>module.
     guest_bind (guest_ret (reserve_one 48 (length out) ''Linux module list'')) (\<lambda>_.
     guest_bind (linux_read_module li module offsets) (\<lambda>m.
     guest_bind (linux_read_u64 li node) (\<lambda>next.
     guest_ret
       (if next \<noteq> head \<and> limit \<le> length (out @ [m]) then
          Inl (Backend (''Linux module list exceeded limit '' @ dec limit))
        else if next = head then Inr (out @ [m], None) else Inr (out @ [m], Some next))))))"

definition modules :: "linux_introspector \<Rightarrow> linux_module_offsets \<Rightarrow> usize \<Rightarrow> ('s vmi_session, linux_module list) guest" where
  "modules li offsets limit =
     (if limit = 0 \<or> module_name_length offsets = 0 \<or> module_name_length offsets > 4096 then
        guest_ret (Inl (Backend ''invalid Linux module traversal limit or name length''))
      else
        guest_bind (guest_ret (ok_or (table_symbol (li_profile li) ''modules'')
          (Backend ''profile does not contain modules''))) (\<lambda>sb.
        let head = symbol_address sb in
        guest_bind (linux_read_u64 li head) (\<lambda>node.
        if node = head then guest_ret (Inr [])
        else
          guest_bind
            (walk 8 ''Linux module cycle detector''
              (\<lambda>k. Backend (''Linux module list looped at unexpected node '' @ hex0x k))
              (module_body li offsets head limit) [] node []) (\<lambda>(seen, out).
          guest_ret (Inr out)))))"

section \<open>Names of directory entries\<close>

text \<open>
  The bytes of the \<open>qstr\<close> at \<open>qstr\<close>; nothing is read when it is empty. Three operations contain these
  lines.
\<close>

definition qstr_bytes ::
  "linux_introspector \<Rightarrow> u64 \<Rightarrow> u64 \<Rightarrow> u64 \<Rightarrow> usize \<Rightarrow> ('s vmi_session, u8 list option) guest" where
  "qstr_bytes li qstr length_offset name_offset maximum =
     guest_bind (at_field (linux_read_u32 li) qstr length_offset ''qstr length'') (\<lambda>raw_length.
     guest_bind (guest_ret (ok_or (usize_of_u32 raw_length) (Backend ''Linux dentry name length is too large''))) (\<lambda>len.
     if len > maximum then
       guest_ret (Inl (Backend (''Linux dentry name length '' @ dec len @ '' exceeds limit '' @ dec maximum)))
     else
       guest_bind (at_field (linux_read_u64 li) qstr name_offset ''qstr name'') (\<lambda>pointer.
       if len \<noteq> 0 \<and> pointer = 0 then guest_ret (Inl (Backend ''non-empty Linux dentry name has null pointer''))
       else if len = 0 then guest_ret (Inr None)
       else guest_bind (linux_read li pointer len) (\<lambda>bytes. guest_ret (Inr (Some bytes))))))"

definition linux_read_dentry_name ::
  "linux_introspector \<Rightarrow> u64 \<Rightarrow> linux_dentry_offsets \<Rightarrow> ('s vmi_session, string) guest" where
  "linux_read_dentry_name li dentry offsets =
     guest_bind (guest_ret (linux_add dentry (dentry_name offsets) ''dentry name'')) (\<lambda>qstr.
     guest_bind (qstr_bytes li qstr (dentry_qstr_length offsets) (dentry_qstr_name offsets)
       (dentry_maximum_name_bytes offsets)) (\<lambda>r.
     guest_ret (case r of None \<Rightarrow> Inr [] | Some bytes \<Rightarrow> decode_guest_bytes bytes ''Linux dentry name'')))"

section \<open>Open files\<close>

definition descriptor_slot :: "u64 \<Rightarrow> u32 \<Rightarrow> u64 result" where
  "descriptor_slot fd_array fd =
     and_then (ok_or (checked_mul (ucast fd) 8) (Backend ''Linux file descriptor slot overflow'')) (\<lambda>scaled.
       ok_or (checked_add fd_array scaled) (Backend ''Linux fd array overflow''))"

definition open_file_body ::
  "linux_introspector \<Rightarrow> linux_file_offsets \<Rightarrow> u64 \<Rightarrow> usize \<Rightarrow> linux_open_file list \<Rightarrow>
   ('s vmi_session, linux_open_file list) guest" where
  "open_file_body li offsets fd_array fd out =
     guest_bind (guest_ret (ok_or (u32_of_usize fd) (Backend ''Linux file descriptor exceeds u32''))) (\<lambda>d.
     guest_bind (guest_ret (descriptor_slot fd_array d)) (\<lambda>slot.
     guest_bind (linux_read_u64 li slot) (\<lambda>file.
     if file = 0 then guest_ret (Inr out)
     else
       guest_bind (guest_ret (linux_add file (file_path offsets) ''file path'')) (\<lambda>path.
       guest_bind (at_field (linux_read_u64 li) path (path_dentry offsets) ''path dentry'') (\<lambda>dentry.
       if dentry = 0 then
         guest_ret (Inl (Backend (''Linux file descriptor '' @ dec fd @ '' has null dentry'')))
       else
         guest_bind (guest_ret (linux_add dentry (file_dentry_name offsets) ''dentry name'')) (\<lambda>qstr.
         guest_bind (qstr_bytes li qstr (file_qstr_length offsets) (file_qstr_name offsets)
           (file_maximum_name_bytes offsets)) (\<lambda>r.
         guest_bind (guest_ret (reserve_one 48 (length out) ''Linux open-file list'')) (\<lambda>_.
         guest_bind (guest_ret (decode_guest_bytes (case r of None \<Rightarrow> [] | Some bytes \<Rightarrow> bytes)
           ''Linux open-file name'')) (\<lambda>name.
         guest_ret (Inr (out @ [\<lparr>open_descriptor = d, open_file_address = Gva file, open_dentry = Gva dentry,
           open_name = name\<rparr>])))))))))))"

fun open_files_loop ::
  "linux_introspector \<Rightarrow> linux_file_offsets \<Rightarrow> u64 \<Rightarrow> usize list \<Rightarrow> linux_open_file list \<Rightarrow>
   ('s vmi_session, linux_open_file list) guest" where
  "open_files_loop li offsets fd_array [] out = guest_ret (Inr out)"
| "open_files_loop li offsets fd_array (fd # ds) out =
     guest_bind (open_file_body li offsets fd_array fd out) (open_files_loop li offsets fd_array ds)"

definition open_files ::
  "linux_introspector \<Rightarrow> gva \<Rightarrow> linux_file_offsets \<Rightarrow> usize \<Rightarrow> ('s vmi_session, linux_open_file list) guest" where
  "open_files li task offsets descriptor_limit =
     (if descriptor_limit = 0 \<or> file_maximum_name_bytes offsets = 0 \<or> file_maximum_name_bytes offsets > 65536 then
        guest_ret (Inl (Backend ''invalid Linux file descriptor or name limit''))
      else
        guest_bind (at_field (linux_read_u64 li) (gva_raw task) (task_files offsets) ''task files'') (\<lambda>files.
        if files = 0 then guest_ret (Inr [])
        else
          guest_bind (at_field (linux_read_u64 li) files (files_fdt offsets) ''files fdt'') (\<lambda>fdt.
          if fdt = 0 then guest_ret (Inl (Backend ''Linux files_struct has null fdt''))
          else
            guest_bind (at_field (linux_read_u32 li) fdt (fdtable_max_fds offsets) ''fdtable max_fds'') (\<lambda>raw_max.
            guest_bind (guest_ret (ok_or (usize_of_u32 raw_max)
              (Backend ''Linux fdtable size does not fit this host''))) (\<lambda>max_fds.
            if max_fds > descriptor_limit then
              guest_ret (Inl (Backend (''Linux fdtable size '' @ dec max_fds @ '' exceeds limit ''
                @ dec descriptor_limit)))
            else
              guest_bind (at_field (linux_read_u64 li) fdt (fdtable_fd offsets) ''fdtable fd'') (\<lambda>fd_array.
              if max_fds \<noteq> 0 \<and> fd_array = 0 then
                guest_ret (Inl (Backend ''non-empty Linux fdtable has null fd array''))
              else open_files_loop li offsets fd_array [0 ..< max_fds] []))))))"

section \<open>Paths\<close>

definition dentry_body ::
  "linux_introspector \<Rightarrow> linux_dentry_offsets \<Rightarrow> usize \<Rightarrow> u64 \<Rightarrow> string list \<Rightarrow>
   ('s vmi_session, string list \<times> u64 option) guest" where
  "dentry_body li offsets component_limit current components =
     guest_bind (guest_ret (linux_add current (dentry_name offsets) ''dentry name'')) (\<lambda>qstr.
     guest_bind (qstr_bytes li qstr (dentry_qstr_length offsets) (dentry_qstr_name offsets)
       (dentry_maximum_name_bytes offsets)) (\<lambda>r.
     guest_bind
       (guest_ret
         (case r of
            None \<Rightarrow> Inr components
          | Some bytes \<Rightarrow>
              and_then (decode_guest_bytes bytes ''Linux dentry name'') (\<lambda>name.
              if name = ''/'' then Inr components
              else and_then (reserve_one 24 (length components) ''Linux dentry path'') (\<lambda>_.
                Inr (components @ [name]))))) (\<lambda>components'.
     guest_bind (at_field (linux_read_u64 li) current (dentry_parent offsets) ''dentry parent'') (\<lambda>parent.
     guest_ret
       (if parent = 0 then Inl (Backend (''Linux dentry '' @ hex0x current @ '' has null parent''))
        else if parent = current then Inr (components', None)
        else if component_limit \<le> length components' then
          Inl (Backend (''Linux dentry path exceeded component limit '' @ dec component_limit))
        else Inr (components', Some parent))))))"

definition dentry_path ::
  "linux_introspector \<Rightarrow> gva \<Rightarrow> linux_dentry_offsets \<Rightarrow> usize \<Rightarrow> ('s vmi_session, string) guest" where
  "dentry_path li dentry offsets component_limit =
     (if gva_raw dentry = 0 \<or> component_limit = 0 \<or> dentry_maximum_name_bytes offsets = 0 \<or>
         dentry_maximum_name_bytes offsets > 65536 then
        guest_ret (Inl (Backend ''invalid Linux dentry path arguments''))
      else
        guest_bind
          (walk 8 ''Linux dentry cycle detector''
            (\<lambda>k. Backend (''Linux dentry ancestry looped at '' @ hex0x k))
            (dentry_body li offsets component_limit) [] (gva_raw dentry) []) (\<lambda>(seen, components).
        guest_ret (join_absolute_path (rev components) ''Linux dentry path'')))"

definition mounted_body ::
  "linux_introspector \<Rightarrow> linux_dentry_offsets \<Rightarrow> linux_mount_offsets \<Rightarrow> usize \<Rightarrow> u64 \<times> u64 \<Rightarrow> string list \<Rightarrow>
   ('s vmi_session, string list \<times> (u64 \<times> u64) option) guest" where
  "mounted_body li dentry_offsets mount_offsets component_limit at components =
     (case at of (current_dentry, current_mount) \<Rightarrow>
     guest_bind (at_field (linux_read_u64 li) current_mount (mount_root mount_offsets) ''mount root'') (\<lambda>root.
     if root = 0 then guest_ret (Inl (Backend ''Linux mount has null root''))
     else if current_dentry = root then
       guest_bind (at_field (linux_read_u64 li) current_mount (mount_parent mount_offsets) ''mount parent'') (\<lambda>parent_mount.
       if parent_mount = 0 then guest_ret (Inl (Backend ''Linux mount has null parent''))
       else if parent_mount = current_mount then guest_ret (Inr (components, None))
       else
         guest_bind (at_field (linux_read_u64 li) current_mount (mount_mountpoint mount_offsets) ''mountpoint'') (\<lambda>point.
         guest_ret
           (if point = 0 then Inl (Backend ''Linux mount has null mountpoint'')
            else Inr (components, Some (point, parent_mount)))))
     else
       guest_bind (guest_ret (reserve_one 24 (length components) ''Linux mounted path'')) (\<lambda>_.
       guest_bind (linux_read_dentry_name li current_dentry dentry_offsets) (\<lambda>name.
       if component_limit \<le> length (components @ [name]) then
         guest_ret (Inl (Backend (''Linux mounted path exceeded component limit '' @ dec component_limit)))
       else
         guest_bind (at_field (linux_read_u64 li) current_dentry (dentry_parent dentry_offsets) ''dentry parent'') (\<lambda>parent.
         guest_ret
           (if parent = 0 then Inl (Backend (''Linux dentry '' @ hex0x current_dentry @ '' has null parent''))
            else Inr (components @ [name], Some (parent, current_mount))))))))"

definition mounted_path ::
  "linux_introspector \<Rightarrow> gva \<Rightarrow> gva \<Rightarrow> linux_dentry_offsets \<Rightarrow> linux_mount_offsets \<Rightarrow> usize \<Rightarrow>
   ('s vmi_session, string) guest" where
  "mounted_path li dentry mount dentry_offsets mount_offsets component_limit =
     (if gva_raw dentry = 0 \<or> gva_raw mount = 0 \<or> component_limit = 0 \<or>
         dentry_maximum_name_bytes dentry_offsets = 0 \<or> dentry_maximum_name_bytes dentry_offsets > 65536 then
        guest_ret (Inl (Backend ''invalid Linux mounted path arguments''))
      else
        guest_bind
          (walk 16 ''Linux mount cycle detector''
            (\<lambda>(d, m). Backend (''Linux mounted path looped at dentry '' @ hex0x d @ '', mount '' @ hex0x m))
            (mounted_body li dentry_offsets mount_offsets component_limit) [] (gva_raw dentry, gva_raw mount) [])
          (\<lambda>(seen, components).
        guest_ret (join_absolute_path (rev (filter (\<lambda>c. c \<noteq> [] \<and> c \<noteq> ''/'') components)) ''Linux mounted path'')))"

section \<open>Sockets\<close>

definition decode_sock ::
  "linux_introspector \<Rightarrow> gva \<Rightarrow> gva \<Rightarrow> gva \<Rightarrow> linux_socket_offsets \<Rightarrow> ('s vmi_session, linux_socket) guest" where
  "decode_sock li file socket sock_address offsets =
     (let sock = gva_raw sock_address in
      guest_bind (at_field (linux_read_u16 li) sock (sock_family offsets) ''socket family'') (\<lambda>family.
      guest_bind (at_field (linux_read_u8 li) sock (sock_protocol offsets) ''socket protocol'') (\<lambda>protocol.
      guest_bind (at_field (linux_read_u8 li) sock (sock_state offsets) ''socket state'') (\<lambda>state.
      guest_bind
        (if family = 2 then
           guest_bind (at_field (linux_read_array li 4) sock (ipv4_source offsets) ''IPv4 source'') (\<lambda>s.
           guest_bind (at_field (linux_read_array li 4) sock (ipv4_destination offsets) ''IPv4 destination'') (\<lambda>d.
             guest_ret (Inr (V4 s, V4 d))))
         else if family = 10 then
           guest_bind (at_field (linux_read_array li 16) sock (ipv6_source offsets) ''IPv6 source'') (\<lambda>s.
           guest_bind (at_field (linux_read_array li 16) sock (ipv6_destination offsets) ''IPv6 destination'') (\<lambda>d.
             guest_ret (Inr (V6 s, V6 d))))
         else guest_ret (Inl (Backend (''unsupported Linux socket family '' @ dec (unat family))))) (\<lambda>(source, destination).
      guest_bind (at_field (linux_read_array li 2) sock (source_port_offset offsets) ''socket source port'') (\<lambda>sp.
      guest_bind (at_field (linux_read_array li 2) sock (destination_port_offset offsets) ''socket destination port'') (\<lambda>dp.
        guest_ret (Inr \<lparr>socket_file = file, socket_socket = socket, socket_sock = sock_address,
          socket_family = family, socket_protocol = protocol, socket_state = state,
          socket_source = source, socket_source_port = from_be_bytes sp,
          socket_destination = destination, socket_destination_port = from_be_bytes dp\<rparr>))))))))"

definition socket_from_file ::
  "linux_introspector \<Rightarrow> gva \<Rightarrow> linux_socket_offsets \<Rightarrow> ('s vmi_session, linux_socket) guest" where
  "socket_from_file li file offsets =
     (if gva_raw file = 0 then guest_ret (Inl (Backend ''Linux file pointer is null''))
      else
        guest_bind (at_field (linux_read_u64 li) (gva_raw file) (file_private_data offsets) ''socket'') (\<lambda>socket.
        if socket = 0 then guest_ret (Inl (Backend ''Linux file has null private socket data''))
        else
          guest_bind (at_field (linux_read_u64 li) socket (socket_sk offsets) ''socket sk'') (\<lambda>sock.
          if sock = 0 then guest_ret (Inl (Backend ''Linux socket has null sock''))
          else decode_sock li file (Gva socket) (Gva sock) offsets)))"

definition socket_list_body ::
  "linux_introspector \<Rightarrow> linux_socket_list_offsets \<Rightarrow> linux_socket_offsets \<Rightarrow> u64 \<Rightarrow> usize \<Rightarrow> u64 \<Rightarrow>
   linux_socket list \<Rightarrow> ('s vmi_session, linux_socket list \<times> u64 option) guest" where
  "socket_list_body li list_offsets socket_offsets head limit node out =
     guest_bind (at_field (linux_read_u64 li) node (list_node_sock list_offsets) ''socket-list sock'') (\<lambda>sock.
     if sock = 0 then guest_ret (Inl (Backend (''Linux socket-list node '' @ hex0x node @ '' has null sock'')))
     else
       guest_bind (guest_ret (reserve_one 72 (length out) ''Linux socket list'')) (\<lambda>_.
       guest_bind (decode_sock li (Gva 0) (Gva 0) (Gva sock) socket_offsets) (\<lambda>x.
       guest_bind (at_field (linux_read_u64 li) node (list_node_next list_offsets) ''socket-list next'') (\<lambda>next.
       guest_ret
         (if next \<noteq> head \<and> limit \<le> length (out @ [x]) then
            Inl (Backend (''Linux socket list exceeded limit '' @ dec limit))
          else if next = head then Inr (out @ [x], None) else Inr (out @ [x], Some next))))))"

definition sockets_from_list ::
  "linux_introspector \<Rightarrow> gva \<Rightarrow> linux_socket_list_offsets \<Rightarrow> linux_socket_offsets \<Rightarrow> usize \<Rightarrow>
   ('s vmi_session, linux_socket list) guest" where
  "sockets_from_list li head list_offsets socket_offsets limit =
     (if gva_raw head = 0 \<or> limit = 0 then guest_ret (Inl (Backend ''invalid Linux socket-list arguments''))
      else
        guest_bind (linux_read_u64 li (gva_raw head)) (\<lambda>node.
        if node = gva_raw head then guest_ret (Inr [])
        else
          guest_bind
            (walk 8 ''Linux socket cycle detector''
              (\<lambda>k. Backend (''Linux socket list looped at unexpected node '' @ hex0x k))
              (socket_list_body li list_offsets socket_offsets (gva_raw head) limit) [] node []) (\<lambda>(seen, out).
          guest_ret (Inr out))))"

definition socket_hash_body ::
  "linux_introspector \<Rightarrow> linux_socket_hash_offsets \<Rightarrow> linux_socket_offsets \<Rightarrow> usize \<Rightarrow> u64 \<Rightarrow>
   linux_socket list \<Rightarrow> ('s vmi_session, linux_socket list \<times> u64 option) guest" where
  "socket_hash_body li hash_offsets socket_offsets socket_limit node out =
     guest_bind (at_field (linux_read_u64 li) node (hash_node_sock hash_offsets) ''hash-node sock'') (\<lambda>sock.
     if sock = 0 then guest_ret (Inl (Backend (''Linux socket hash node '' @ hex0x node @ '' has null sock'')))
     else
       guest_bind (guest_ret (reserve_one 72 (length out) ''Linux socket hash table'')) (\<lambda>_.
       guest_bind (decode_sock li (Gva 0) (Gva 0) (Gva sock) socket_offsets) (\<lambda>x.
       if socket_limit < length (out @ [x]) then
         guest_ret (Inl (Backend (''Linux socket hash table exceeded limit '' @ dec socket_limit)))
       else
         guest_bind (at_field (linux_read_u64 li) node (hash_node_next hash_offsets) ''hash-node next'') (\<lambda>next.
         guest_ret (Inr (out @ [x], if next = 0 then None else Some next))))))"

definition bucket_address :: "u64 \<Rightarrow> linux_socket_hash_offsets \<Rightarrow> usize \<Rightarrow> u64 result" where
  "bucket_address table hash_offsets bucket =
     and_then (ok_or (u64_of_usize bucket) (Backend ''Linux socket bucket index is too large'')) (\<lambda>b.
     and_then (ok_or (checked_mul b (bucket_stride hash_offsets)) (Backend ''Linux socket bucket offset overflow'')) (\<lambda>o1.
       ok_or (Option.bind (checked_add table o1) (\<lambda>a. checked_add a (bucket_first hash_offsets)))
         (Backend ''Linux socket bucket overflow'')))"

text \<open>The set of visited nodes is shared by all buckets.\<close>

fun buckets_loop ::
  "linux_introspector \<Rightarrow> u64 \<Rightarrow> linux_socket_hash_offsets \<Rightarrow> linux_socket_offsets \<Rightarrow> usize \<Rightarrow> usize list \<Rightarrow>
   u64 list \<times> linux_socket list \<Rightarrow> ('s vmi_session, u64 list \<times> linux_socket list) guest" where
  "buckets_loop li table hash_offsets socket_offsets socket_limit [] acc = guest_ret (Inr acc)"
| "buckets_loop li table hash_offsets socket_offsets socket_limit (bucket # bs) acc =
     guest_bind (guest_ret (bucket_address table hash_offsets bucket)) (\<lambda>address.
     guest_bind (linux_read_u64 li address) (\<lambda>node.
     guest_bind
       (if node = 0 then guest_ret (Inr acc)
        else
          walk 8 ''Linux socket hash cycle detector''
            (\<lambda>k. Backend (''Linux socket hash table repeats node '' @ hex0x k))
            (socket_hash_body li hash_offsets socket_offsets socket_limit) (fst acc) node (snd acc)) (\<lambda>acc'.
     buckets_loop li table hash_offsets socket_offsets socket_limit bs acc')))"

definition sockets_from_hash_table ::
  "linux_introspector \<Rightarrow> gva \<Rightarrow> usize \<Rightarrow> linux_socket_hash_offsets \<Rightarrow> linux_socket_offsets \<Rightarrow> usize \<Rightarrow>
   ('s vmi_session, linux_socket list) guest" where
  "sockets_from_hash_table li table bucket_count hash_offsets socket_offsets socket_limit =
     (if gva_raw table = 0 \<or> bucket_count = 0 \<or> bucket_count > 1048576 \<or> bucket_stride hash_offsets = 0 \<or>
         socket_limit = 0 then
        guest_ret (Inl (Backend ''invalid Linux socket hash-table arguments''))
      else
        guest_bind (buckets_loop li (gva_raw table) hash_offsets socket_offsets socket_limit [0 ..< bucket_count] ([], []))
          (\<lambda>(seen, out). guest_ret (Inr out)))"

section \<open>What the reads compute\<close>

abbreviation linux_mem :: "read_into \<Rightarrow> (nat \<Rightarrow> u8 option) \<Rightarrow> linux_introspector \<Rightarrow> nat \<Rightarrow> u8 option" where
  "linux_mem rd bytes li \<equiv> virtual_byte rd bytes (li_translator li) (li_root li)"

lemma runs_linux_read:
  "reservable len \<Longrightarrow> runs_in rd bytes (li_translator li) (linux_read li a len) (mem_bytes (linux_mem rd bytes li) a len)"
  unfolding linux_read_def by (rule vm.runs_read)

lemma runs_linux_read_u64: "runs_in rd bytes (li_translator li) (linux_read_u64 li a) (mem_word (linux_mem rd bytes li) a)"
  unfolding linux_read_u64_def linux_read_def by (rule runs_mem_word) (simp_all add: reservable_8)

lemma runs_linux_read_u32: "runs_in rd bytes (li_translator li) (linux_read_u32 li a) (mem_word (linux_mem rd bytes li) a)"
  unfolding linux_read_u32_def linux_read_def by (rule runs_mem_word) (simp_all add: reservable_def isize_max_def)

lemma runs_at_field:
  assumes "\<And>a. runs_in rd bytes t (get a) (f a)"
  shows "runs_in rd bytes t (at_field get base offset name) (field f base offset)"
  unfolding at_field_def field_def
  by (rule vm.runs_bind) (auto intro!: vm.runs_ret assms simp: linux_add_def)

lemmas runs_linux = vm.runs_bind [where rd = rd and bytes = bytes for rd bytes] vm.runs_ret runs_linux_read
  runs_linux_read_u64 runs_linux_read_u32 runs_at_field

section \<open>The lists of the kernel in memory\<close>

text \<open>The process of a task, as memory describes it, and the task after it on the circular list.\<close>

definition process_at :: "(nat \<Rightarrow> u8 option) \<Rightarrow> linux_task_offsets \<Rightarrow> u64 \<Rightarrow> linux_process option" where
  "process_at mem offsets task =
     Option.bind (field (mem_word mem) task (task_pid offsets)) (\<lambda>pid.
     Option.bind (field (\<lambda>a. mem_bytes mem a (comm_length offsets)) task (task_comm offsets)) (\<lambda>bytes.
     Option.bind (ok_value (decode_guest_bytes (until_nul bytes) ''Linux command name'')) (\<lambda>command.
       Some \<lparr>process_task = Gva task, process_pid = pid, process_command = command\<rparr>)))"

definition next_task :: "(nat \<Rightarrow> u8 option) \<Rightarrow> linux_task_offsets \<Rightarrow> u64 \<Rightarrow> u64 \<Rightarrow> u64 option option" where
  "next_task mem offsets head task =
     Option.bind (field (mem_word mem) task (task_tasks offsets)) (\<lambda>next.
       if next = head then Some None else map_option Some (checked_sub next (task_tasks offsets)))"

lemma runs_read_process:
  assumes "comm_length (li_offsets li) \<le> 4096"
  shows "runs_in rd bytes (li_translator li) (linux_read_process li task)
    (process_at (linux_mem rd bytes li) (li_offsets li) task)"
proof -
  have "reservable (comm_length (li_offsets li))" using assms by (simp add: reservable_def isize_max_def)
  then have "runs_in rd bytes (li_translator li) (linux_read_process li task)
     (Option.bind (checked_add task (task_pid (li_offsets li))) (\<lambda>a.
      Option.bind (mem_word (linux_mem rd bytes li) a) (\<lambda>pid.
      Option.bind (checked_add task (task_comm (li_offsets li))) (\<lambda>c.
      Option.bind (mem_bytes (linux_mem rd bytes li) c (comm_length (li_offsets li))) (\<lambda>bs.
      Option.bind (ok_value (decode_guest_bytes (until_nul bs) ''Linux command name'')) (\<lambda>command.
        Some \<lparr>process_task = Gva task, process_pid = pid, process_command = command\<rparr>))))))"
    unfolding linux_read_process_def
    by (intro vm.runs_bind vm.runs_ret runs_linux_read runs_linux_read_u32) simp_all
  then show ?thesis by (simp add: process_at_def field_def)
qed

lemma runs_process_body:
  assumes "comm_length (li_offsets li) \<le> 4096" "reservable (40 * limit)" "length out < limit"
  shows "runs_in rd bytes (li_translator li) (process_body li head limit k out)
    (collect (\<lambda>k. map_option (\<lambda>x. [x]) (process_at (linux_mem rd bytes li) (li_offsets li) k))
      (next_task (linux_mem rd bytes li) (li_offsets li) head) limit k out)"
    (is "runs_in _ _ _ _ ?v")
proof -
  let ?m = "linux_mem rd bytes li" and ?o = "li_offsets li"
  have room: "reserve_one 40 (length out) ''Linux process list'' = Inr ()"
    using assms(2,3) by (simp add: reserve_one_def reservable_def)
  have runs: "runs_in rd bytes (li_translator li) (process_body li head limit k out)
     (Option.bind (ok_value (reserve_one 40 (length out) ''Linux process list'')) (\<lambda>_.
      Option.bind (process_at ?m ?o k) (\<lambda>p.
      Option.bind (checked_add k (task_tasks ?o)) (\<lambda>a.
      Option.bind (mem_word ?m a) (\<lambda>n.
      if n = head then Some (out @ [p], None)
      else if limit \<le> length (out @ [p]) then None
      else Option.bind (checked_sub n (task_tasks ?o)) (\<lambda>t. Some (out @ [p], Some t)))))))"
    unfolding process_body_def
    by (intro vm.runs_bind vm.runs_ret runs_read_process runs_linux_read_u64 assms(1)) simp_all
  show ?thesis
  proof (cases "Option.bind (checked_add k (task_tasks ?o)) (mem_word ?m) :: u64 option")
    case None
    then show ?thesis
      using runs by (auto simp: room collect_def next_task_def field_def bind_eq_None_conv split: bind_splits)
  next
    case (Some n)
    then show ?thesis
      using runs by (auto simp: room collect_def next_task_def field_def bind_eq_Some_conv split: bind_splits)
  qed
qed

lemma processes_list:
  assumes "cache_coherent builtin_translators s rd" "li_translator li \<in> builtin_translators" "reads_bytes rd bytes"
    "0 < limit" "reservable (40 * limit)" "0 < comm_length (li_offsets li)" "comm_length (li_offsets li) \<le> 4096"
    "table_symbol (li_profile li) ''init_task'' = Some sb"
    "checked_add (symbol_address sb) (task_tasks (li_offsets li)) = Some head"
  shows "cache_coherent builtin_translators (fst (processes li limit s)) rd \<and>
    (snd (processes li limit s) = Inr ps \<longleftrightarrow>
      (\<exists>ts. chain (next_task (linux_mem rd bytes li) (li_offsets li) head) (symbol_address sb) ts \<and> length ts \<le> limit \<and>
         map (process_at (linux_mem rd bytes li) (li_offsets li)) ts = map Some ps))"
proof -
  have "reservable (8 * limit)" using assms(5) by (simp add: reservable_def)
  from vm.walk_items [OF runs_process_body [where rd = rd and bytes = bytes and head = head, OF assms(7,5)] assms(4) this, where w = s]
  show ?thesis
    using assms by (auto simp: processes_def guest_bind_def [of "guest_ret _"] guest_ret_def [of "Inr _"])
qed

definition module_at ::
  "(nat \<Rightarrow> u8 option) \<Rightarrow> linux_module_offsets \<Rightarrow> u64 \<Rightarrow> linux_module option" where
  "module_at mem offsets node =
     Option.bind (checked_sub node (module_list offsets)) (\<lambda>module.
     Option.bind (field (\<lambda>a. mem_bytes mem a (module_name_length offsets)) module (module_name_offset offsets)) (\<lambda>bytes.
     Option.bind (ok_value (decode_guest_bytes (until_nul bytes) ''Linux module name'')) (\<lambda>name.
     Option.bind (field (mem_word mem) module (module_core_base offsets)) (\<lambda>base.
     Option.bind (field (mem_word mem) module (module_core_size offsets)) (\<lambda>sz.
       Some \<lparr>module_address = Gva module, linux_module_name = name, core_base = Gva base, core_size = sz\<rparr>)))))"

lemma runs_module_body:
  assumes "module_name_length offsets \<le> 4096" "reservable (48 * limit)" "length out < limit"
  shows "runs_in rd bytes (li_translator li) (module_body li offsets head limit k out)
    (collect (\<lambda>k. map_option (\<lambda>x. [x]) (module_at (linux_mem rd bytes li) offsets k))
      (until_head (mem_word (linux_mem rd bytes li)) head) limit k out)"
proof -
  let ?m = "linux_mem rd bytes li"
  have room: "reserve_one 48 (length out) ''Linux module list'' = Inr ()"
    using assms(2,3) by (simp add: reserve_one_def reservable_def)
  have len: "reservable (module_name_length offsets)" using assms(1) by (simp add: reservable_def isize_max_def)
  have md: "runs_in rd bytes (li_translator li) (linux_read_module li module offsets)
     (Option.bind (checked_add module (module_name_offset offsets)) (\<lambda>a.
      Option.bind (mem_bytes ?m a (module_name_length offsets)) (\<lambda>bs.
      Option.bind (ok_value (decode_guest_bytes (until_nul bs) ''Linux module name'')) (\<lambda>name.
      Option.bind (field (mem_word ?m) module (module_core_base offsets)) (\<lambda>base.
      Option.bind (field (mem_word ?m) module (module_core_size offsets)) (\<lambda>sz.
        Some \<lparr>module_address = Gva module, linux_module_name = name, core_base = Gva base, core_size = sz\<rparr>))))))"
    for module
    unfolding linux_read_module_def
    by (intro vm.runs_bind vm.runs_ret runs_linux_read runs_at_field runs_linux_read_u64 len) (simp_all add: linux_add_def)
  have "runs_in rd bytes (li_translator li) (module_body li offsets head limit k out)
     (Option.bind (checked_sub k (module_list offsets)) (\<lambda>module.
      Option.bind (ok_value (reserve_one 48 (length out) ''Linux module list'')) (\<lambda>_.
      Option.bind (Option.bind (checked_add module (module_name_offset offsets)) (\<lambda>a.
        Option.bind (mem_bytes ?m a (module_name_length offsets)) (\<lambda>bs.
        Option.bind (ok_value (decode_guest_bytes (until_nul bs) ''Linux module name'')) (\<lambda>name.
        Option.bind (field (mem_word ?m) module (module_core_base offsets)) (\<lambda>base.
        Option.bind (field (mem_word ?m) module (module_core_size offsets)) (\<lambda>sz.
          Some \<lparr>module_address = Gva module, linux_module_name = name, core_base = Gva base, core_size = sz\<rparr>)))))) (\<lambda>x.
      Option.bind (mem_word ?m k) (\<lambda>n.
        if n \<noteq> head \<and> limit \<le> length (out @ [x]) then None
        else if n = head then Some (out @ [x], None) else Some (out @ [x], Some n))))))"
    unfolding module_body_def
    by (intro vm.runs_bind vm.runs_ret md runs_linux_read_u64) simp_all
  then show ?thesis
    by (simp add: collect_until_head module_at_def field_def room)
qed

lemma modules_list:
  assumes "cache_coherent builtin_translators s rd" "li_translator li \<in> builtin_translators" "reads_bytes rd bytes"
    "0 < limit" "reservable (48 * limit)" "0 < module_name_length offsets" "module_name_length offsets \<le> 4096"
    "table_symbol (li_profile li) ''modules'' = Some sb"
  shows "cache_coherent builtin_translators (fst (modules li offsets limit s)) rd \<and>
    (snd (modules li offsets limit s) = Inr ms \<longleftrightarrow>
      (\<exists>ns. ring (mem_word (linux_mem rd bytes li)) (symbol_address sb)
          (mem_word (linux_mem rd bytes li) (symbol_address sb)) ns \<and> length ns \<le> limit \<and>
         map (module_at (linux_mem rd bytes li) offsets) ns = map Some ms))"
proof -
  have "reservable (8 * limit)" using assms(5) by (simp add: reservable_def)
  from vm.head_list [OF runs_module_body [where rd = rd and bytes = bytes and head = "symbol_address sb", OF assms(7,5)]
      runs_linux_read_u64 assms(4) this, where w = s]
  show ?thesis
    using assms by (auto simp: modules_def guest_bind_def [of "guest_ret _"] guest_ret_def [of "Inr _"] Let_def)
qed

section \<open>Directory paths in memory\<close>

lemma sum_lengths_Inr:
  "sum_lengths d n cs = Inr m \<longleftrightarrow> m = n + length (concat cs) \<and> (cs \<noteq> [] \<longrightarrow> m < usize_bound)"
proof (induction cs arbitrary: n)
  case (Cons c cs)
  have "sum_lengths d n (c # cs) = Inr m \<longleftrightarrow> n + length c < usize_bound \<and> sum_lengths d (n + length c) cs = Inr m"
    by (simp add: usize_checked_add_def)
  then show ?case unfolding Cons.IH by (cases cs) auto
qed auto

lemma length_join_components: "length (join_components cs) = length (concat cs) + (length cs - 1)"
  by (induction cs rule: join_components.induct) auto

lemma join_absolute_path_Inr:
  "join_absolute_path cs d = Inr p \<longleftrightarrow> p = ''/'' @ join_components cs \<and> reservable (length p)"
proof -
  have bound: "reservable n \<Longrightarrow> n < usize_bound" for n by (simp add: reservable_def isize_max_def usize_bound_def)
  have "length (''/'' @ join_components cs) = 1 + (length cs - 1) + length (concat cs)"
    by (simp add: length_join_components)
  then show ?thesis
    using bound [of "1 + (length cs - 1) + length (concat cs)"] bound [of "1 + (length cs - 1)"]
    by (auto simp: join_absolute_path_def sum_lengths_Inr usize_checked_add_def reservable_def split: if_splits)
qed

definition qstr_at :: "(nat \<Rightarrow> u8 option) \<Rightarrow> u64 \<Rightarrow> u64 \<Rightarrow> u64 \<Rightarrow> usize \<Rightarrow> u8 list option option" where
  "qstr_at mem qstr length_offset name_offset maximum =
     Option.bind (field (mem_word mem) qstr length_offset) (\<lambda>n :: u32.
     if unat n > maximum then None
     else
       Option.bind (field (mem_word mem) qstr name_offset) (\<lambda>pointer.
       if unat n \<noteq> 0 \<and> pointer = 0 then None
       else if unat n = 0 then Some None
       else Option.bind (mem_bytes mem pointer (unat n)) (\<lambda>bytes. Some (Some bytes))))"

text \<open>The path component of a directory entry (none for the root and for empty names) and its parent.\<close>

definition component_at :: "(nat \<Rightarrow> u8 option) \<Rightarrow> linux_dentry_offsets \<Rightarrow> u64 \<Rightarrow> string list option" where
  "component_at mem offsets dentry =
     Option.bind (checked_add dentry (dentry_name offsets)) (\<lambda>qstr.
     Option.bind (qstr_at mem qstr (dentry_qstr_length offsets) (dentry_qstr_name offsets)
       (dentry_maximum_name_bytes offsets)) (\<lambda>r.
     case r of
       None \<Rightarrow> Some []
     | Some bytes \<Rightarrow>
         Option.bind (ok_value (decode_guest_bytes bytes ''Linux dentry name'')) (\<lambda>name.
           Some (if name = ''/'' then [] else [name]))))"

definition parent_at :: "(nat \<Rightarrow> u8 option) \<Rightarrow> linux_dentry_offsets \<Rightarrow> u64 \<Rightarrow> u64 option option" where
  "parent_at mem offsets dentry =
     Option.bind (field (mem_word mem) dentry (dentry_parent offsets)) (\<lambda>parent.
       if parent = 0 then None else if parent = dentry then Some None else Some (Some parent))"

lemma runs_qstr_bytes:
  "runs_in rd bytes (li_translator li) (qstr_bytes li qstr lo no maximum)
     (qstr_at (linux_mem rd bytes li) qstr lo no maximum)"
proof -
  let ?m = "linux_mem rd bytes li"
  have small: "reservable (unat (n :: u32))" for n
    using unsigned_less [of n, where 'a = nat] by (simp add: reservable_def isize_max_def)
  have usize: "usize_of_u32 n = Some (unat n)" for n
    using unsigned_less [of n, where 'a = nat] by (simp add: usize_of_u32_def usize_bound_def)
  have "runs_in rd bytes (li_translator li) (qstr_bytes li qstr lo no maximum)
     (Option.bind (field (mem_word ?m) qstr lo) (\<lambda>raw :: u32.
      Option.bind (Some (unat raw)) (\<lambda>len.
      if len > maximum then None
      else Option.bind (field (mem_word ?m) qstr no) (\<lambda>pointer.
        if len \<noteq> 0 \<and> pointer = 0 then None
        else if len = 0 then Some None
        else Option.bind (mem_bytes ?m pointer len) (\<lambda>bs. Some (Some bs))))))"
    unfolding qstr_bytes_def
    by (intro vm.runs_bind vm.runs_ret runs_at_field runs_linux_read_u64 runs_linux_read_u32)
      (auto intro!: vm.runs_bind vm.runs_ret runs_at_field runs_linux_read_u64 runs_linux_read small simp: usize)
  then show ?thesis by (simp add: qstr_at_def)
qed

lemma runs_dentry_body:
  assumes "reservable (24 * limit)" "length out < limit"
  shows "runs_in rd bytes (li_translator li) (dentry_body li offsets limit k out)
    (collect (component_at (linux_mem rd bytes li) offsets) (parent_at (linux_mem rd bytes li) offsets) limit k out)"
proof -
  let ?m = "linux_mem rd bytes li"
  have room: "reserve_one 24 (length out) ''Linux dentry path'' = Inr ()"
    using assms by (simp add: reserve_one_def reservable_def)
  have "runs_in rd bytes (li_translator li) (dentry_body li offsets limit k out)
     (Option.bind (checked_add k (dentry_name offsets)) (\<lambda>qstr.
      Option.bind (qstr_at ?m qstr (dentry_qstr_length offsets) (dentry_qstr_name offsets)
        (dentry_maximum_name_bytes offsets)) (\<lambda>r.
      Option.bind (case r of None \<Rightarrow> Some out | Some bs \<Rightarrow>
          Option.bind (ok_value (decode_guest_bytes bs ''Linux dentry name'')) (\<lambda>name.
            if name = ''/'' then Some out else Some (out @ [name]))) (\<lambda>out'.
      Option.bind (field (mem_word ?m) k (dentry_parent offsets)) (\<lambda>parent.
        if parent = 0 then None else if parent = k then Some (out', None)
        else if limit \<le> length out' then None else Some (out', Some parent))))))"
    unfolding dentry_body_def
    by (intro vm.runs_bind vm.runs_ret runs_at_field runs_linux_read_u64 runs_qstr_bytes)
      (simp_all add: linux_add_def room cong: if_cong option.case_cong)
  moreover have "(Option.bind (case r of None \<Rightarrow> Some out | Some bs \<Rightarrow>
          Option.bind (ok_value (decode_guest_bytes bs ''Linux dentry name'')) (\<lambda>name.
            if name = ''/'' then Some out else Some (out @ [name]))) (\<lambda>out'.
      Option.bind (field (mem_word ?m) k (dentry_parent offsets)) (\<lambda>parent.
        if parent = 0 then None else if parent = k then Some (out', None)
        else if limit \<le> length out' then None else Some (out', Some parent)))) =
      Option.bind (case r of None \<Rightarrow> Some [] | Some bs \<Rightarrow>
          Option.bind (ok_value (decode_guest_bytes bs ''Linux dentry name'')) (\<lambda>name.
            Some (if name = ''/'' then [] else [name]))) (\<lambda>xs. Option.bind (parent_at ?m offsets k) (\<lambda>n. case n of
        None \<Rightarrow> Some (out @ xs, None)
      | Some p \<Rightarrow> if limit \<le> length out + length xs then None else Some (out @ xs, Some p)))" for r
    unfolding parent_at_def
    by (cases "field (mem_word ?m) k (dentry_parent offsets) :: u64 option"; cases r;
        cases "ok_value (decode_guest_bytes (the r) ''Linux dentry name'')")
      auto
  ultimately show ?thesis
    unfolding collect_def component_at_def Option.bind_assoc by (simp only:)
qed

lemma reservable_prefixes: "(\<forall>n. 0 < n \<and> n \<le> m \<longrightarrow> reservable (width * n)) \<longleftrightarrow> m = 0 \<or> reservable (width * m)"
  unfolding reservable_def by (metis le_0_eq le_trans linorder_not_less mult_le_mono2 order_refl)

lemma dentry_path_list:
  assumes "cache_coherent builtin_translators s rd" "li_translator li \<in> builtin_translators" "reads_bytes rd bytes"
    "0 < limit" "reservable (24 * limit)" "dentry \<noteq> 0" "0 < dentry_maximum_name_bytes offsets"
    "dentry_maximum_name_bytes offsets \<le> 65536"
  shows "snd (dentry_path li (Gva dentry) offsets limit s) = Inr path \<longleftrightarrow>
    (\<exists>ds css. chain (parent_at (linux_mem rd bytes li) offsets) dentry ds \<and>
       map (component_at (linux_mem rd bytes li) offsets) ds = map Some css \<and>
       length (concat (butlast css)) < limit \<and> reservable (8 * length ds) \<and>
       path = ''/'' @ join_components (rev (concat css)) \<and> reservable (length path))"
proof -
  let ?m = "linux_mem rd bytes li"
  let ?looped = "\<lambda>k. Backend (''Linux dentry ancestry looped at '' @ hex0x k)"
  let ?walk = "walk 8 ''Linux dentry cycle detector'' ?looped (dentry_body li offsets limit) [] dentry [] s"
  have step: "length out' < limit"
    if "collect (component_at ?m offsets) (parent_at ?m offsets) limit k out = Some (out', Some k')" for k out out' k'
    using that by (auto simp: collect_Some)
  have walk: "snd ?walk = Inr (seen, out) \<longleftrightarrow>
      walked 8 (collect (component_at ?m offsets) (parent_at ?m offsets) limit) [] dentry [] seen out" for seen out
    by (rule conjunct2, rule vm.runs_walk [where P = "\<lambda>out. length out < limit", OF runs_dentry_body [OF assms(5)] step])
      (use assms in auto)
  have ex: "(\<exists>seen. snd ?walk = Inr (seen, out)) \<longleftrightarrow>
      (\<exists>ds css. chain (parent_at ?m offsets) dentry ds \<and> map (component_at ?m offsets) ds = map Some css \<and>
         out = concat css \<and> length (concat (butlast css)) < limit \<and> reservable (8 * length ds))" (is "?L \<longleftrightarrow> _") for out
  proof -
    have "?L \<longleftrightarrow> (\<exists>ds css. chain (parent_at ?m offsets) dentry ds \<and> distinct ds \<and>
        map (component_at ?m offsets) ds = map Some css \<and> out = concat css \<and>
        length (concat (butlast css)) < limit \<and> (length ds = 0 \<or> reservable (8 * length ds)))"
      unfolding walk walked_collect [of "[]" limit, simplified, OF assms(4)] reservable_prefixes [symmetric] by auto
    moreover have "ds \<noteq> []" "distinct ds" if "chain (parent_at ?m offsets) dentry ds" for ds
      using that chain_distinct by auto
    ultimately show ?thesis by (metis length_0_conv)
  qed
  have "snd (dentry_path li (Gva dentry) offsets limit s) = Inr path \<longleftrightarrow>
      (\<exists>seen out. snd ?walk = Inr (seen, out) \<and> join_absolute_path (rev out) ''Linux dentry path'' = Inr path)"
    using assms(4,6-8) by (cases ?walk) (auto simp: dentry_path_def guest_bind_def guest_ret_def split: sum.splits)
  also have "\<dots> \<longleftrightarrow> (\<exists>out. (\<exists>seen. snd ?walk = Inr (seen, out)) \<and>
      path = ''/'' @ join_components (rev out) \<and> reservable (length path))"
    by (auto simp: join_absolute_path_Inr)
  finally show ?thesis unfolding ex by blast
qed

section \<open>Properties\<close>

text \<open>
  C25: Listing the processes of a Linux guest. On a coherent session, \<open>processes\<close> succeeds with \<open>ps\<close> if and
  only if guest memory holds a circular task list that starts at \<open>init_task\<close>, returns to its list head after
  at most \<open>limit\<close> tasks, and whose tasks, in list order, have readable fields that describe exactly \<open>ps\<close>; so
  a list that is longer, cyclic without its head, or runs out of mapped memory is always an error. The
  session stays coherent.
\<close>

theorem linux_processes_exact:
  assumes "cache_coherent builtin_translators s rd" "li_translator li \<in> builtin_translators" "reads_bytes rd bytes"
    "0 < limit" "reservable (40 * limit)" "0 < comm_length (li_offsets li)" "comm_length (li_offsets li) \<le> 4096"
    "table_symbol (li_profile li) ''init_task'' = Some sb"
    "checked_add (symbol_address sb) (task_tasks (li_offsets li)) = Some head"
  shows "cache_coherent builtin_translators (fst (processes li limit s)) rd \<and>
    (snd (processes li limit s) = Inr ps \<longleftrightarrow>
      (\<exists>ts. chain (next_task (linux_mem rd bytes li) (li_offsets li) head) (symbol_address sb) ts \<and> length ts \<le> limit \<and>
         map (process_at (linux_mem rd bytes li) (li_offsets li)) ts = map Some ps))"
  using assms by (rule processes_list)

text \<open>Two tasks, at addresses 16 and 32: list pointer, PID and a command name of four bytes.\<close>

definition sample_tasks :: "u8 list" where
  "sample_tasks = [0, 0, 0, 0, 0, 0, 0, 0,
     32, 0, 0, 0, 0, 0, 0, 0, 0, 0, 0, 0, 0x73, 0x77, 0, 0,
     16, 0, 0, 0, 0, 0, 0, 0, 1, 0, 0, 0, 0x69, 0x6E, 0, 0]"

definition sample_linux :: linux_introspector where
  "sample_linux = \<lparr>li_translator = sample_translator, li_root = TranslationRoot 0,
     li_profile = \<lparr>by_name = [(''init_task'', \<lparr>symbol_name = ''init_task'', symbol_address = 16, symbol_kind = None\<rparr>)],
       by_address = [(16, [''init_task''])]\<rparr>,
     li_offsets = \<lparr>task_tasks = 0, task_pid = 8, task_comm = 12, comm_length = 4\<rparr>\<rparr>"

theorem linux_processes_exact_witness:
  "snd (processes sample_linux 8 (fixture_session (flat_memory (sample_image sample_tasks)))) =
     Inr [\<lparr>process_task = Gva 16, process_pid = 0, process_command = ''sw''\<rparr>,
          \<lparr>process_task = Gva 32, process_pid = 1, process_command = ''in''\<rparr>]"
proof -
  let ?rd = "flat_memory (sample_image sample_tasks)" and ?bs = "flat_byte (sample_image sample_tasks)"
  define m where "m = linux_mem ?rd ?bs sample_linux"
  let ?o = "li_offsets sample_linux"
  have read: "mem_bytes m a len = Some (take len (drop (unat a) (sample_image sample_tasks)))"
    if "unat a + len \<le> 48" for a len
    unfolding m_def sample_linux_def using that
    by (simp, intro sample_mem_bytes) (simp_all add: sample_image_def sample_tasks_def)
  note eval = field_def checked_add_def mem_word_def read sample_image_def sample_tasks_def sample_linux_def
    from_le_bytes_def
  have "chain (next_task m ?o 16) 16 [16, 32]"
    by (simp add: next_task_def eval checked_sub_def)
  moreover have "map (process_at m ?o) [16, 32] =
      map Some [\<lparr>process_task = Gva 16, process_pid = 0, process_command = ''sw''\<rparr>,
        \<lparr>process_task = Gva 32, process_pid = 1, process_command = ''in''\<rparr>]"
    by (simp add: process_at_def eval until_nul_def decode_guest_bytes_def from_utf8_def utf8_width_def string_of_def
        char_of_def bit_Suc_0_iff)
  ultimately have "\<exists>ts. chain (next_task m ?o 16) 16 ts \<and> length ts \<le> 8 \<and> map (process_at m ?o) ts =
      map Some [\<lparr>process_task = Gva 16, process_pid = 0, process_command = ''sw''\<rparr>,
        \<lparr>process_task = Gva 32, process_pid = 1, process_command = ''in''\<rparr>]"
    by (intro exI [of _ "[16, 32]"]) simp
  then show ?thesis
    unfolding m_def
    using linux_processes_exact [OF fixture_coherent, where li = sample_linux and bytes = ?bs and limit = 8 and head = 16
        and rd = ?rd] sample_translator_builtin flat.memory_reads_bytes [of "sample_image sample_tasks"]
    by (simp add: sample_linux_def reservable_def isize_max_def table_symbol_def checked_add_def)
qed

text \<open>
  C26: The path of a directory entry. \<open>dentry_path\<close> succeeds if and only if the parent pointers in guest memory
  lead from the entry to a root that is its own parent, every entry on the way has a readable name, and the
  component limit is not reached below the root; the path is then the names from the root down, without empty
  names and the root's slash, joined by slashes. In particular a null parent, a cycle without a root or an unmapped
  name is always an error.
\<close>

theorem linux_dentry_path_exact:
  assumes "cache_coherent builtin_translators s rd" "li_translator li \<in> builtin_translators" "reads_bytes rd bytes"
    "0 < limit" "reservable (24 * limit)" "dentry \<noteq> 0" "0 < dentry_maximum_name_bytes offsets"
    "dentry_maximum_name_bytes offsets \<le> 65536"
  shows "snd (dentry_path li (Gva dentry) offsets limit s) = Inr path \<longleftrightarrow>
    (\<exists>ds css. chain (parent_at (linux_mem rd bytes li) offsets) dentry ds \<and>
       map (component_at (linux_mem rd bytes li) offsets) ds = map Some css \<and>
       length (concat (butlast css)) < limit \<and> reservable (8 * length ds) \<and>
       path = ''/'' @ join_components (rev (concat css)) \<and> reservable (length path))"
  using assms by (rule dentry_path_list)

text \<open>The root directory at address 16 and its entry \<open>etc\<close> at address 40: parent, name length, name pointer.\<close>

definition sample_dentries :: "u8 list" where
  "sample_dentries = [0, 0, 0, 0, 0, 0, 0, 0,
     16, 0, 0, 0, 0, 0, 0, 0, 1, 0, 0, 0, 0, 0, 0, 0, 64, 0, 0, 0, 0, 0, 0, 0,
     16, 0, 0, 0, 0, 0, 0, 0, 3, 0, 0, 0, 0, 0, 0, 0, 65, 0, 0, 0, 0, 0, 0, 0,
     0x2F, 0x65, 0x74, 0x63]"

definition sample_dentry_offsets :: linux_dentry_offsets where
  "sample_dentry_offsets = \<lparr>dentry_parent = 0, dentry_name = 8, dentry_qstr_length = 0, dentry_qstr_name = 8,
     dentry_maximum_name_bytes = 255\<rparr>"

theorem linux_dentry_path_exact_witness:
  "snd (dentry_path sample_linux (Gva 40) sample_dentry_offsets 4
      (fixture_session (flat_memory (sample_image sample_dentries)))) = Inr ''/etc''"
proof -
  let ?rd = "flat_memory (sample_image sample_dentries)" and ?bs = "flat_byte (sample_image sample_dentries)"
  define m where "m = linux_mem ?rd ?bs sample_linux"
  let ?o = sample_dentry_offsets
  have read: "mem_bytes m a len = Some (take len (drop (unat a) (sample_image sample_dentries)))"
    if "unat a + len \<le> 68" for a len
    unfolding m_def sample_linux_def using that
    by (simp, intro sample_mem_bytes) (simp_all add: sample_image_def sample_dentries_def)
  note eval = field_def checked_add_def mem_word_def read sample_image_def sample_dentries_def
    from_le_bytes_def sample_dentry_offsets_def
  have "chain (parent_at m ?o) 40 [40, 16]"
    by (simp add: parent_at_def eval)
  moreover have "map (component_at m ?o) [40, 16] = map Some [[''etc''], []]"
    by (simp add: component_at_def qstr_at_def eval decode_guest_bytes_def from_utf8_def utf8_width_def string_of_def
        char_of_def bit_Suc_0_iff)
  ultimately have "\<exists>ds css. chain (parent_at m ?o) 40 ds \<and> map (component_at m ?o) ds = map Some css \<and>
      length (concat (butlast css)) < 4 \<and> reservable (8 * length ds) \<and>
      ''/etc'' = ''/'' @ join_components (rev (concat css)) \<and> reservable (length ''/etc'')"
    by (intro exI [of _ "[40, 16]"] exI [of _ "[[''etc''], []]"]) (simp add: reservable_def isize_max_def)
  then show ?thesis
    unfolding m_def
    using linux_dentry_path_exact [OF fixture_coherent, where li = sample_linux and bytes = ?bs and limit = 4
        and rd = ?rd and dentry = 40 and offsets = ?o and path = "''/etc''"]
      sample_translator_builtin flat.memory_reads_bytes [of "sample_image sample_dentries"]
    by (simp add: sample_linux_def sample_dentry_offsets_def reservable_def isize_max_def)
qed

end
