(* ===== verification/Os_Windows.thy ===== *)
theory Os_Windows
  imports Guest
begin

text \<open>
  The crate \<open>vmi-os-windows\<close>: processes, modules, file objects and handle tables of a Windows guest.
\<close>

section \<open>Data (lib.rs)\<close>

record windows_process_offsets =
  active_process_links :: u64
  unique_process_id :: u64
  image_file_name :: u64
  image_file_name_length :: usize
  dtb_offset :: u64

record windows_process =
  eprocess :: gva
  win_pid :: u64
  win_image :: string
  directory_table_base :: u64

record windows_module_offsets =
  in_load_order_links :: u64
  dll_base :: u64
  size_of_image :: u64
  base_dll_name :: u64
  win_maximum_name_bytes :: usize

record windows_module =
  win_entry :: gva
  win_name :: string
  win_base :: gva
  win_size :: u32

record windows_file_offsets =
  device_object_offset :: u64
  file_name_offset :: u64
  flags_offset :: u64
  read_access_offset :: u64
  write_access_offset :: u64
  delete_access_offset :: u64
  file_maximum_bytes :: usize

record windows_file =
  file_object_address :: gva
  device_object :: gva
  file_object_name :: string
  file_flags :: u32
  read_access :: bool
  write_access :: bool
  delete_access :: bool

record windows_handle_table_offsets =
  eprocess_object_table :: u64
  table_code_offset :: u64
  next_handle_needing_pool :: u64
  entry_size :: u64
  entry_object :: u64
  entry_granted_access :: u64
  object_pointer_mask :: u64
  object_pointer_shift :: u8
  object_pointer_sign_bit :: u8

record windows_handle =
  handle :: u64
  handle_object :: gva
  granted_access :: u32

text \<open>The introspector without its session, which is the state of its operations.\<close>

record windows_introspector =
  wi_translator :: address_translator
  wi_root :: translation_root
  wi_profile :: symbol_table
  wi_offsets :: windows_process_offsets

section \<open>UTF-16\<close>

text \<open>
  \<open>char::decode_utf16\<close>: a scalar value for each unit or surrogate pair, an error with the unit for an
  unpaired surrogate.
\<close>

fun decode_utf16 :: "u16 list \<Rightarrow> (u16 + nat) list" where
  "decode_utf16 [] = []"
| "decode_utf16 (u # us) =
     (if u < 0xD800 \<or> 0xDFFF < u then Inr (unat u) # decode_utf16 us
      else if 0xDC00 \<le> u then Inl u # decode_utf16 us
      else
        (case us of
           [] \<Rightarrow> [Inl u]
         | v # vs \<Rightarrow>
             if 0xDC00 \<le> v \<and> v \<le> 0xDFFF then
               Inr (0x10000 + (unat u - 0xD800) * 0x400 + (unat v - 0xDC00)) # decode_utf16 vs
             else Inl u # decode_utf16 us))"

text \<open>The UTF-8 bytes of a scalar value (\<open>String::push\<close>).\<close>

definition encode_utf8 :: "nat \<Rightarrow> u8 list" where
  "encode_utf8 c =
     (if c < 0x80 then [of_nat c]
      else if c < 0x800 then [of_nat (0xC0 + c div 64), of_nat (0x80 + c mod 64)]
      else if c < 0x10000 then [of_nat (0xE0 + c div 4096), of_nat (0x80 + c div 64 mod 64), of_nat (0x80 + c mod 64)]
      else [of_nat (0xF0 + c div 262144), of_nat (0x80 + c div 4096 mod 64), of_nat (0x80 + c div 64 mod 64),
        of_nat (0x80 + c mod 64)])"

fun utf16_loop :: "string \<Rightarrow> (u16 + nat) list \<Rightarrow> string \<Rightarrow> string result" where
  "utf16_loop description [] out = Inr out"
| "utf16_loop description (Inl u # ds) out =
     Inl (Backend (''invalid '' @ description @ '': unpaired surrogate found: '' @ fmt_radix 16 (unat u)))"
| "utf16_loop description (Inr c # ds) out = utf16_loop description ds (out @ string_of (encode_utf8 c))"

definition decode_utf16_words :: "u16 list \<Rightarrow> string \<Rightarrow> string result" where
  "decode_utf16_words words description =
     and_then (ok_or (usize_checked_mul (length words) 3) (Backend (description @ '' decoded length overflow''))) (\<lambda>cap.
     if \<not> reservable cap then
       Inl (Backend (''failed to allocate decoded '' @ description @ '': '' @ capacity_overflow))
     else utf16_loop description (decode_utf16 words) [])"

fun u16_pairs :: "u8 list \<Rightarrow> u16 list" where
  "u16_pairs (a # b # bs) = from_le_bytes [a, b] # u16_pairs bs"
| "u16_pairs _ = []"

section \<open>Addresses and scalars\<close>

definition win_add :: "u64 \<Rightarrow> u64 \<Rightarrow> string \<Rightarrow> u64 result" where
  "win_add base offset name = ok_or (checked_add base offset) (Backend (''Windows '' @ name @ '' address overflow''))"

definition sign_extend :: "u64 \<Rightarrow> u8 \<Rightarrow> u64 result" where
  "sign_extend v sign_bit =
     and_then (ok_or (checked_add sign_bit 1) (Backend ''Windows sign-extension width overflow'')) (\<lambda>width.
     and_then
       (if width = 64 then Inr (- 1)
        else ok_or (Option.bind (checked_shl 1 (unat width)) (\<lambda>m. checked_sub m 1))
          (Backend ''Windows sign-extension mask overflow'')) (\<lambda>low_mask.
     and_then (ok_or (checked_shl 1 (unat sign_bit)) (Backend ''Windows sign bit overflow'')) (\<lambda>sign_mask.
     let truncated = v AND low_mask in
     if truncated AND sign_mask = 0 then Inr truncated else Inr (truncated OR NOT low_mask))))"

definition win_read :: "windows_introspector \<Rightarrow> u64 \<Rightarrow> usize \<Rightarrow> ('s vmi_session, u8 list) guest" where
  "win_read wi = guest_read (wi_translator wi) (wi_root wi)"

definition win_read_u16 :: "windows_introspector \<Rightarrow> u64 \<Rightarrow> ('s vmi_session, u16) guest" where
  "win_read_u16 wi address =
     guest_bind (win_read wi address 2) (\<lambda>bytes.
       guest_ret (and_then (try_into_array 2 (Backend ''short Windows u16 read'') bytes) (\<lambda>a. Inr (from_le_bytes a))))"

definition win_read_u32 :: "windows_introspector \<Rightarrow> u64 \<Rightarrow> ('s vmi_session, u32) guest" where
  "win_read_u32 wi address =
     guest_bind (win_read wi address 4) (\<lambda>bytes.
       guest_ret (and_then (try_into_array 4 (Backend ''short Windows u32 read'') bytes) (\<lambda>a. Inr (from_le_bytes a))))"

definition win_read_u64 :: "windows_introspector \<Rightarrow> u64 \<Rightarrow> ('s vmi_session, u64) guest" where
  "win_read_u64 wi address =
     guest_bind (win_read wi address 8) (\<lambda>bytes.
       guest_ret (and_then (try_into_array 8 (Backend ''short Windows pointer read'') bytes)
         (\<lambda>a. Inr (from_le_bytes a))))"

definition win_read_bool :: "windows_introspector \<Rightarrow> u64 \<Rightarrow> ('s vmi_session, bool) guest" where
  "win_read_bool wi address =
     guest_bind (win_read wi address 1) (\<lambda>bytes.
     guest_ret (and_then (ok_or (get_at bytes 0) (Backend ''short Windows BOOLEAN read'')) (\<lambda>v.
       if v = 0 then Inr False else if v = 1 then Inr True
       else Inl (Backend (''invalid Windows BOOLEAN value '' @ dec (unat v))))))"

text \<open>A read at \<open>add(base, offset, name)?\<close>.\<close>

definition win_at :: "(u64 \<Rightarrow> ('w, 'a) guest) \<Rightarrow> u64 \<Rightarrow> u64 \<Rightarrow> string \<Rightarrow> ('w, 'a) guest" where
  "win_at rd base offset name = guest_bind (guest_ret (win_add base offset name)) rd"

definition read_unicode_string :: "windows_introspector \<Rightarrow> u64 \<Rightarrow> usize \<Rightarrow> ('s vmi_session, string) guest" where
  "read_unicode_string wi address maximum_bytes =
     guest_bind (win_read_u16 wi address) (\<lambda>raw_length.
     let len = unat raw_length in
     guest_bind (win_at (win_read_u16 wi) address 2 ''Unicode maximum'') (\<lambda>raw_maximum.
     let declared_maximum = unat raw_maximum in
     if len > declared_maximum \<or> len > maximum_bytes \<or> len mod 2 \<noteq> 0 then
       guest_ret (Inl (Backend (''invalid Windows UNICODE_STRING length '' @ dec len @ ''/'' @ dec declared_maximum)))
     else if len = 0 then guest_ret (Inr [])
     else
       guest_bind (win_at (win_read_u64 wi) address 8 ''Unicode buffer'') (\<lambda>buffer.
       if buffer = 0 then guest_ret (Inl (Backend ''non-empty Windows UNICODE_STRING has null buffer''))
       else
         guest_bind (win_read wi buffer len) (\<lambda>bytes.
         guest_ret
           (if \<not> reservable (2 * (length bytes div 2)) then
              Inl (Backend (''failed to allocate Windows Unicode buffer: '' @ capacity_overflow))
            else decode_utf16_words (u16_pairs bytes) ''Windows module name'')))))"

section \<open>Processes and modules\<close>

definition win_read_process :: "windows_introspector \<Rightarrow> u64 \<Rightarrow> ('s vmi_session, windows_process) guest" where
  "win_read_process wi address =
     guest_bind (win_at (win_read_u64 wi) address (unique_process_id (wi_offsets wi)) ''PID'') (\<lambda>pid.
     guest_bind (win_at (win_read_u64 wi) address (dtb_offset (wi_offsets wi)) ''DTB'') (\<lambda>dtb.
     guest_bind (guest_ret (win_add address (image_file_name (wi_offsets wi)) ''image'')) (\<lambda>image_address.
     guest_bind (win_read wi image_address (image_file_name_length (wi_offsets wi))) (\<lambda>bytes.
     guest_bind (guest_ret (decode_guest_bytes (until_nul bytes) ''Windows process image'')) (\<lambda>image.
       guest_ret (Inr \<lparr>eprocess = Gva address, win_pid = pid, win_image = image, directory_table_base = dtb\<rparr>))))))"

text \<open>A process takes 48 bytes, a module 48, a handle 24.\<close>

definition win_process_body ::
  "windows_introspector \<Rightarrow> u64 \<Rightarrow> usize \<Rightarrow> u64 \<Rightarrow> windows_process list \<Rightarrow>
   ('s vmi_session, windows_process list \<times> u64 option) guest" where
  "win_process_body wi head limit node out =
     guest_bind (guest_ret (ok_or (checked_sub node (active_process_links (wi_offsets wi)))
       (Backend (''invalid ActiveProcessLinks pointer '' @ hex0x node)))) (\<lambda>address.
     guest_bind (guest_ret (reserve_one 48 (length out) ''Windows process list'')) (\<lambda>_.
     guest_bind (win_read_process wi address) (\<lambda>p.
     guest_bind (win_read_u64 wi node) (\<lambda>next.
     guest_ret
       (if next \<noteq> head \<and> limit \<le> length (out @ [p]) then
          Inl (Backend (''Windows process list exceeded limit '' @ dec limit))
        else if next = head then Inr (out @ [p], None) else Inr (out @ [p], Some next))))))"

definition win_processes :: "windows_introspector \<Rightarrow> usize \<Rightarrow> ('s vmi_session, windows_process list) guest" where
  "win_processes wi limit =
     (if limit = 0 \<or> image_file_name_length (wi_offsets wi) = 0 \<or> image_file_name_length (wi_offsets wi) > 4096 then
        guest_ret (Inl (Backend ''invalid Windows traversal limit or image length''))
      else
        guest_bind (guest_ret (ok_or (table_symbol (wi_profile wi) ''PsActiveProcessHead'')
          (Backend ''profile does not contain PsActiveProcessHead''))) (\<lambda>sb.
        let head = symbol_address sb in
        guest_bind (win_read_u64 wi head) (\<lambda>node.
        if node = head then guest_ret (Inr [])
        else
          guest_bind
            (walk 8 ''Windows process cycle detector''
              (\<lambda>k. Backend (''Windows process list looped at unexpected node '' @ hex0x k))
              (win_process_body wi head limit) [] node []) (\<lambda>(seen, out).
          guest_ret (Inr out)))))"

definition win_read_module ::
  "windows_introspector \<Rightarrow> u64 \<Rightarrow> windows_module_offsets \<Rightarrow> ('s vmi_session, windows_module) guest" where
  "win_read_module wi entry offsets =
     guest_bind (win_at (win_read_u64 wi) entry (dll_base offsets) ''module base'') (\<lambda>base.
     guest_bind (win_at (win_read_u32 wi) entry (size_of_image offsets) ''module size'') (\<lambda>sz.
     guest_bind (guest_ret (win_add entry (base_dll_name offsets) ''module name'')) (\<lambda>a.
     guest_bind (read_unicode_string wi a (win_maximum_name_bytes offsets)) (\<lambda>name.
       guest_ret (Inr \<lparr>win_entry = Gva entry, win_name = name, win_base = Gva base, win_size = sz\<rparr>)))))"

definition win_module_body ::
  "windows_introspector \<Rightarrow> windows_module_offsets \<Rightarrow> u64 \<Rightarrow> usize \<Rightarrow> u64 \<Rightarrow> windows_module list \<Rightarrow>
   ('s vmi_session, windows_module list \<times> u64 option) guest" where
  "win_module_body wi offsets head limit node out =
     guest_bind (guest_ret (ok_or (checked_sub node (in_load_order_links offsets))
       (Backend (''invalid module list pointer '' @ hex0x node)))) (\<lambda>entry.
     guest_bind (guest_ret (reserve_one 48 (length out) ''Windows module list'')) (\<lambda>_.
     guest_bind (win_read_module wi entry offsets) (\<lambda>m.
     guest_bind (win_read_u64 wi node) (\<lambda>next.
     guest_ret
       (if next \<noteq> head \<and> limit \<le> length (out @ [m]) then
          Inl (Backend (''Windows module list exceeded limit '' @ dec limit))
        else if next = head then Inr (out @ [m], None) else Inr (out @ [m], Some next))))))"

definition win_modules ::
  "windows_introspector \<Rightarrow> windows_module_offsets \<Rightarrow> usize \<Rightarrow> ('s vmi_session, windows_module list) guest" where
  "win_modules wi offsets limit =
     (if limit = 0 \<or> win_maximum_name_bytes offsets = 0 \<or> win_maximum_name_bytes offsets > 65536 then
        guest_ret (Inl (Backend ''invalid Windows module traversal limit or name length''))
      else
        guest_bind (guest_ret (ok_or (table_symbol (wi_profile wi) ''PsLoadedModuleList'')
          (Backend ''profile does not contain PsLoadedModuleList''))) (\<lambda>sb.
        let head = symbol_address sb in
        guest_bind (win_read_u64 wi head) (\<lambda>node.
        if node = head then guest_ret (Inr [])
        else
          guest_bind
            (walk 8 ''Windows module cycle detector''
              (\<lambda>k. Backend (''Windows module list looped at unexpected node '' @ hex0x k))
              (win_module_body wi offsets head limit) [] node []) (\<lambda>(seen, out).
          guest_ret (Inr out)))))"

section \<open>File objects\<close>

definition file_object ::
  "windows_introspector \<Rightarrow> gva \<Rightarrow> windows_file_offsets \<Rightarrow> ('s vmi_session, windows_file) guest" where
  "file_object wi address offsets =
     (if gva_raw address = 0 \<or> file_maximum_bytes offsets = 0 \<or> file_maximum_bytes offsets > 65536 then
        guest_ret (Inl (Backend ''invalid Windows FILE_OBJECT arguments''))
      else
        guest_bind (win_at (win_read_u64 wi) (gva_raw address) (device_object_offset offsets) ''file device object'') (\<lambda>dev.
        guest_bind (guest_ret (win_add (gva_raw address) (file_name_offset offsets) ''file name'')) (\<lambda>a.
        guest_bind (read_unicode_string wi a (file_maximum_bytes offsets)) (\<lambda>name.
        guest_bind (win_at (win_read_u32 wi) (gva_raw address) (flags_offset offsets) ''file flags'') (\<lambda>flags.
        guest_bind (win_at (win_read_bool wi) (gva_raw address) (read_access_offset offsets) ''file read access'') (\<lambda>r.
        guest_bind (win_at (win_read_bool wi) (gva_raw address) (write_access_offset offsets) ''file write access'') (\<lambda>w.
        guest_bind (win_at (win_read_bool wi) (gva_raw address) (delete_access_offset offsets) ''file delete access'')
          (\<lambda>d.
        guest_ret (Inr \<lparr>file_object_address = address, device_object = Gva dev, file_object_name = name,
          file_flags = flags, read_access = r, write_access = w, delete_access = d\<rparr>)))))))))"

section \<open>Handle tables\<close>

definition read_table_pointer :: "windows_introspector \<Rightarrow> u64 \<Rightarrow> u64 \<Rightarrow> ('s vmi_session, u64) guest" where
  "read_table_pointer wi table index =
     guest_bind (guest_ret
       (and_then (ok_or (checked_mul index 8) (Backend ''Windows handle pointer offset overflow'')) (\<lambda>scaled.
          ok_or (checked_add table scaled) (Backend ''Windows handle pointer table overflow'')))) (\<lambda>address.
     guest_bind (win_read_u64 wi address) (\<lambda>raw.
     let pointer = raw AND NOT 0xf in
     guest_ret
       (if pointer = 0 \<or> pointer AND 0xfff \<noteq> 0 then
          Inl (Backend (''invalid Windows handle table page pointer '' @ hex0x pointer))
        else Inr pointer)))"

text \<open>\<open>checked_div\<close> and \<open>checked_rem\<close> fail on a zero divisor.\<close>

definition checked_div :: "u64 \<Rightarrow> u64 \<Rightarrow> u64 option" where
  "checked_div a b = (if b = 0 then None else Some (a div b))"

definition checked_rem :: "u64 \<Rightarrow> u64 \<Rightarrow> u64 option" where
  "checked_rem a b = (if b = 0 then None else Some (a mod b))"

definition handle_entry_address ::
  "windows_introspector \<Rightarrow> u64 \<Rightarrow> u64 \<Rightarrow> u64 \<Rightarrow> u64 \<Rightarrow> ('s vmi_session, u64) guest" where
  "handle_entry_address wi table_base level index entry_sz =
     guest_bind (guest_ret (ok_or (Option.bind (checked_div 4096 entry_sz) (\<lambda>n. if n \<noteq> 0 then Some n else None))
       (Backend ''invalid Windows handle entry size''))) (\<lambda>entries_per_page.
     guest_bind (guest_ret (ok_or (checked_div index entries_per_page)
       (Backend ''invalid Windows handle page divisor''))) (\<lambda>leaf_index.
     guest_bind (guest_ret (ok_or (checked_rem index entries_per_page)
       (Backend ''invalid Windows handle page divisor''))) (\<lambda>entry_index.
     guest_bind
       (if level = 0 then guest_ret (Inr table_base)
        else if level = 1 then read_table_pointer wi table_base leaf_index
        else if level = 2 then
          guest_bind (read_table_pointer wi table_base (leaf_index div 512)) (\<lambda>directory.
            read_table_pointer wi directory (leaf_index mod 512))
        else guest_ret (Inl (Backend (''invalid Windows handle table level '' @ dec (unat level))))) (\<lambda>leaf.
     guest_ret
       (and_then (ok_or (checked_mul entry_index entry_sz) (Backend ''Windows handle entry offset overflow'')) (\<lambda>scaled.
          ok_or (checked_add leaf scaled) (Backend ''Windows handle leaf overflow'')))))))"

definition handle_body ::
  "windows_introspector \<Rightarrow> windows_handle_table_offsets \<Rightarrow> u64 \<Rightarrow> u64 \<Rightarrow> usize \<Rightarrow> windows_handle list \<Rightarrow>
   ('s vmi_session, windows_handle list) guest" where
  "handle_body wi offsets entry_array level index out =
     guest_bind (guest_ret (ok_or (u64_of_usize index) (Backend ''Windows handle index is too large''))) (\<lambda>index64.
     guest_bind (handle_entry_address wi entry_array level index64 (entry_size offsets)) (\<lambda>entry.
     guest_bind (win_at (win_read_u64 wi) entry (entry_object offsets) ''handle object'') (\<lambda>encoded.
     guest_bind (guest_ret (ok_or (checked_shl (encoded AND object_pointer_mask offsets)
       (unat (object_pointer_shift offsets))) (Backend ''Windows object pointer shift overflow''))) (\<lambda>pointer.
     if pointer = 0 then guest_ret (Inr out)
     else
       guest_bind (guest_ret (sign_extend pointer (object_pointer_sign_bit offsets))) (\<lambda>object.
       guest_bind (win_at (win_read_u32 wi) entry (entry_granted_access offsets) ''handle granted access'') (\<lambda>access.
       guest_bind (guest_ret (reserve_one 24 (length out) ''Windows handle list'')) (\<lambda>_.
       guest_ret (and_then (ok_or (checked_mul index64 4) (Backend ''Windows handle value overflow'')) (\<lambda>h.
         Inr (out @ [\<lparr>handle = h, handle_object = Gva object, granted_access = access\<rparr>]))))))))))"

fun handles_loop ::
  "windows_introspector \<Rightarrow> windows_handle_table_offsets \<Rightarrow> u64 \<Rightarrow> u64 \<Rightarrow> usize list \<Rightarrow> windows_handle list \<Rightarrow>
   ('s vmi_session, windows_handle list) guest" where
  "handles_loop wi offsets entry_array level [] out = guest_ret (Inr out)"
| "handles_loop wi offsets entry_array level (index # is) out =
     guest_bind (handle_body wi offsets entry_array level index out) (handles_loop wi offsets entry_array level is)"

definition handles ::
  "windows_introspector \<Rightarrow> gva \<Rightarrow> windows_handle_table_offsets \<Rightarrow> usize \<Rightarrow> ('s vmi_session, windows_handle list) guest" where
  "handles wi process offsets handle_limit =
     (if gva_raw process = 0 \<or> handle_limit = 0 \<or> entry_size offsets = 0 \<or> entry_size offsets > 4096 \<or>
         checked_rem 4096 (entry_size offsets) \<noteq> Some 0 \<or> object_pointer_shift offsets \<ge> 64 \<or>
         object_pointer_sign_bit offsets \<ge> 64 then
        guest_ret (Inl (Backend ''invalid Windows handle-table arguments''))
      else
        guest_bind (win_at (win_read_u64 wi) (gva_raw process) (eprocess_object_table offsets) ''process object table'')
          (\<lambda>table.
        if table = 0 then guest_ret (Inr [])
        else
          guest_bind (win_at (win_read_u64 wi) table (table_code_offset offsets) ''handle table code'') (\<lambda>table_code.
          let level = table_code AND 3; entry_array = table_code AND NOT 3 in
          if level > 2 then
            guest_ret (Inl (Backend (''invalid Windows handle table level '' @ dec (unat level))))
          else if entry_array = 0 then guest_ret (Inl (Backend ''Windows handle table has null entry array''))
          else
            guest_bind (win_at (win_read_u64 wi) table (next_handle_needing_pool offsets) ''next handle'') (\<lambda>next_handle.
            if next_handle AND 3 \<noteq> 0 then
              guest_ret (Inl (Backend (''unaligned Windows next handle '' @ hex0x next_handle)))
            else
              guest_bind (guest_ret (ok_or (usize_of_u64 (next_handle div 4))
                (Backend ''Windows handle count is too large''))) (\<lambda>count.
              if count > handle_limit then
                guest_ret (Inl (Backend (''Windows handle count '' @ dec count @ '' exceeds limit '' @ dec handle_limit)))
              else handles_loop wi offsets entry_array level [0 ..< count] [])))))"

section \<open>Sign extension\<close>

lemma pointer_mask_eq:
  assumes "0 < w" "w < 64"
  shows "Option.bind (checked_shl (1 :: u64) w) (\<lambda>m. checked_sub m 1) = Some (mask w)"
proof -
  have "push_bit w (1 :: u64) \<noteq> 0" using assms by (auto simp: push_bit_eq_0_iff)
  then have "1 \<le> push_bit w (1 :: u64)" by (simp add: word_le_nat_alt unat_gt_0 Suc_le_eq)
  then show ?thesis using assms by (simp add: checked_shl_def checked_sub_def mask_eq_exp_minus_1)
qed

lemma sign_extend_eq:
  assumes "unat b < 64"
  shows "sign_extend v b = Inr (signed_take_bit (unat b) v)"
proof -
  let ?n = "unat b"
  have u: "unat (b + 1) = ?n + 1"
    using assms by (subst unat_add_lem [THEN iffD1]) simp_all
  have add: "checked_add b 1 = Some (b + 1)" using assms by (simp add: checked_add_def)
  have w64: "b + 1 = 64 \<longleftrightarrow> ?n = 63" using u by (auto simp: word_unat_eq_iff)
  have mask: "(if b + 1 = 64 then Inr (- 1) else ok_or (Option.bind (checked_shl 1 (unat (b + 1))) (\<lambda>m. checked_sub m 1)) e) =
      Inr (mask (Suc ?n) :: u64)" for e :: vmi_error
  proof (cases "?n = 63")
    case True
    then show ?thesis using w64 by (simp add: mask_full [symmetric])
  next
    case False
    then show ?thesis using w64 assms pointer_mask_eq [of "?n + 1"] by (simp add: u)
  qed
  have shl: "checked_shl (1 :: u64) ?n = Some (push_bit ?n 1)" using assms by (simp add: checked_shl_def)
  have test: "(v AND mask (Suc ?n)) AND push_bit ?n 1 = 0 \<longleftrightarrow> \<not> bit v ?n"
    using and_exp_eq_0_iff_not_bit [of "v AND mask (Suc ?n)" ?n] assms by (simp add: bit_simps push_bit_eq_mult)
  have "sign_extend v b = Inr (if bit v ?n then (v AND mask (Suc ?n)) OR NOT (mask (Suc ?n)) else v AND mask (Suc ?n))"
    unfolding sign_extend_def add ok_or_simps and_then_simps mask shl Let_def test by simp
  also have "(if bit v ?n then (v AND mask (Suc ?n)) OR NOT (mask (Suc ?n)) else v AND mask (Suc ?n)) = signed_take_bit ?n v"
    using assms by (intro bit_word_eqI) (auto simp: bit_simps min_def less_Suc_eq_le)
  finally show ?thesis .
qed

section \<open>What the reads compute\<close>

abbreviation win_mem :: "read_into \<Rightarrow> (nat \<Rightarrow> u8 option) \<Rightarrow> windows_introspector \<Rightarrow> nat \<Rightarrow> u8 option" where
  "win_mem rd bytes wi \<equiv> virtual_byte rd bytes (wi_translator wi) (wi_root wi)"

lemma runs_win_read:
  "reservable len \<Longrightarrow> runs_in rd bytes (wi_translator wi) (win_read wi a len) (mem_bytes (win_mem rd bytes wi) a len)"
  unfolding win_read_def by (rule vm.runs_read)

lemma runs_win_read_u64: "runs_in rd bytes (wi_translator wi) (win_read_u64 wi a) (mem_word (win_mem rd bytes wi) a)"
  unfolding win_read_u64_def win_read_def by (rule runs_mem_word) (simp_all add: reservable_8)

lemma runs_win_read_u32: "runs_in rd bytes (wi_translator wi) (win_read_u32 wi a) (mem_word (win_mem rd bytes wi) a)"
  unfolding win_read_u32_def win_read_def by (rule runs_mem_word) (simp_all add: reservable_def isize_max_def)

lemma runs_win_at:
  assumes "\<And>a. runs_in rd bytes t (get a) (f a)"
  shows "runs_in rd bytes t (win_at get base offset name) (field f base offset)"
  unfolding win_at_def field_def
  by (rule vm.runs_bind) (auto intro!: vm.runs_ret assms simp: win_add_def)

section \<open>The process list in memory\<close>

definition win_process_at ::
  "(nat \<Rightarrow> u8 option) \<Rightarrow> windows_process_offsets \<Rightarrow> u64 \<Rightarrow> windows_process option" where
  "win_process_at mem offsets node =
     Option.bind (checked_sub node (active_process_links offsets)) (\<lambda>address.
     Option.bind (field (mem_word mem) address (unique_process_id offsets)) (\<lambda>pid.
     Option.bind (field (mem_word mem) address (dtb_offset offsets)) (\<lambda>dtb.
     Option.bind (field (\<lambda>a. mem_bytes mem a (image_file_name_length offsets)) address (image_file_name offsets)) (\<lambda>bytes.
     Option.bind (ok_value (decode_guest_bytes (until_nul bytes) ''Windows process image'')) (\<lambda>image.
       Some \<lparr>eprocess = Gva address, win_pid = pid, win_image = image, directory_table_base = dtb\<rparr>)))))"

lemma runs_win_process_body:
  assumes "image_file_name_length (wi_offsets wi) \<le> 4096" "reservable (48 * limit)" "length out < limit"
  shows "runs_in rd bytes (wi_translator wi) (win_process_body wi head limit k out)
    (collect (\<lambda>k. map_option (\<lambda>x. [x]) (win_process_at (win_mem rd bytes wi) (wi_offsets wi) k))
      (until_head (mem_word (win_mem rd bytes wi)) head) limit k out)"
proof -
  let ?m = "win_mem rd bytes wi" and ?o = "wi_offsets wi"
  have room: "reserve_one 48 (length out) ''Windows process list'' = Inr ()"
    using assms(2,3) by (simp add: reserve_one_def reservable_def)
  have len: "reservable (image_file_name_length ?o)" using assms(1) by (simp add: reservable_def isize_max_def)
  have p: "runs_in rd bytes (wi_translator wi) (win_read_process wi address)
     (Option.bind (field (mem_word ?m) address (unique_process_id ?o)) (\<lambda>pid.
      Option.bind (field (mem_word ?m) address (dtb_offset ?o)) (\<lambda>dtb.
      Option.bind (checked_add address (image_file_name ?o)) (\<lambda>a.
      Option.bind (mem_bytes ?m a (image_file_name_length ?o)) (\<lambda>bs.
      Option.bind (ok_value (decode_guest_bytes (until_nul bs) ''Windows process image'')) (\<lambda>image.
        Some \<lparr>eprocess = Gva address, win_pid = pid, win_image = image, directory_table_base = dtb\<rparr>))))))" for address
    unfolding win_read_process_def
    by (intro vm.runs_bind vm.runs_ret runs_win_read runs_win_at runs_win_read_u64 len) (simp_all add: win_add_def)
  have "runs_in rd bytes (wi_translator wi) (win_process_body wi head limit k out)
     (Option.bind (checked_sub k (active_process_links ?o)) (\<lambda>address.
      Option.bind (ok_value (reserve_one 48 (length out) ''Windows process list'')) (\<lambda>_.
      Option.bind (Option.bind (field (mem_word ?m) address (unique_process_id ?o)) (\<lambda>pid.
        Option.bind (field (mem_word ?m) address (dtb_offset ?o)) (\<lambda>dtb.
        Option.bind (checked_add address (image_file_name ?o)) (\<lambda>a.
        Option.bind (mem_bytes ?m a (image_file_name_length ?o)) (\<lambda>bs.
        Option.bind (ok_value (decode_guest_bytes (until_nul bs) ''Windows process image'')) (\<lambda>image.
          Some \<lparr>eprocess = Gva address, win_pid = pid, win_image = image, directory_table_base = dtb\<rparr>)))))) (\<lambda>x.
      Option.bind (mem_word ?m k) (\<lambda>n.
        if n \<noteq> head \<and> limit \<le> length (out @ [x]) then None
        else if n = head then Some (out @ [x], None) else Some (out @ [x], Some n))))))"
    unfolding win_process_body_def
    by (intro vm.runs_bind vm.runs_ret p runs_win_read_u64) simp_all
  then show ?thesis
    by (simp add: collect_until_head win_process_at_def field_def room)
qed

lemma win_processes_list:
  assumes "cache_coherent builtin_translators s rd" "wi_translator wi \<in> builtin_translators" "reads_bytes rd bytes"
    "0 < limit" "reservable (48 * limit)" "0 < image_file_name_length (wi_offsets wi)"
    "image_file_name_length (wi_offsets wi) \<le> 4096" "table_symbol (wi_profile wi) ''PsActiveProcessHead'' = Some sb"
  shows "cache_coherent builtin_translators (fst (win_processes wi limit s)) rd \<and>
    (snd (win_processes wi limit s) = Inr ps \<longleftrightarrow>
      (\<exists>ns. ring (mem_word (win_mem rd bytes wi)) (symbol_address sb)
          (mem_word (win_mem rd bytes wi) (symbol_address sb)) ns \<and> length ns \<le> limit \<and>
         map (win_process_at (win_mem rd bytes wi) (wi_offsets wi)) ns = map Some ps))"
proof -
  have "reservable (8 * limit)" using assms(5) by (simp add: reservable_def)
  from vm.head_list [OF runs_win_process_body [where rd = rd and bytes = bytes and head = "symbol_address sb", OF assms(7,5)]
      runs_win_read_u64 assms(4) this, where w = s]
  show ?thesis
    using assms by (auto simp: win_processes_def guest_bind_def [of "guest_ret _"] guest_ret_def [of "Inr _"] Let_def)
qed

section \<open>Handle tables in memory\<close>

text \<open>
  A handle table is a tree of one, two or three levels: the page of an entry is found through page-aligned
  pointers, by the page number itself or by its quotient and remainder by 512.
\<close>

definition table_pointer :: "(nat \<Rightarrow> u8 option) \<Rightarrow> u64 \<Rightarrow> u64 \<Rightarrow> u64 option" where
  "table_pointer mem table index =
     Option.bind (checked_mul index 8) (\<lambda>scaled.
     Option.bind (field (mem_word mem) table scaled) (\<lambda>raw.
       let p = raw AND NOT 0xf in if p = 0 \<or> p AND 0xfff \<noteq> 0 then None else Some p))"

definition handle_page :: "(nat \<Rightarrow> u8 option) \<Rightarrow> u64 \<Rightarrow> u64 \<Rightarrow> u64 \<Rightarrow> u64 option" where
  "handle_page mem base level leaf =
     (if level = 0 then Some base
      else if level = 1 then table_pointer mem base leaf
      else if level = 2 then
        Option.bind (table_pointer mem base (leaf div 512)) (\<lambda>directory. table_pointer mem directory (leaf mod 512))
      else None)"

definition handle_entry :: "(nat \<Rightarrow> u8 option) \<Rightarrow> u64 \<Rightarrow> u64 \<Rightarrow> u64 \<Rightarrow> u64 \<Rightarrow> u64 option" where
  "handle_entry mem base level index sz =
     (let per_page = 4096 div sz in
      Option.bind (handle_page mem base level (index div per_page)) (\<lambda>page. checked_add page (index mod per_page * sz)))"

text \<open>The handle of an index, if its entry is used: its object pointer is sign-extended.\<close>

definition handle_at ::
  "(nat \<Rightarrow> u8 option) \<Rightarrow> windows_handle_table_offsets \<Rightarrow> u64 \<Rightarrow> u64 \<Rightarrow> u64 \<Rightarrow> windows_handle list option" where
  "handle_at mem offsets base level index =
     Option.bind (handle_entry mem base level index (entry_size offsets)) (\<lambda>entry.
     Option.bind (field (mem_word mem) entry (entry_object offsets)) (\<lambda>encoded.
     let pointer = push_bit (unat (object_pointer_shift offsets)) (encoded AND object_pointer_mask offsets) in
     if pointer = 0 then Some []
     else
       Option.bind (field (mem_word mem) entry (entry_granted_access offsets)) (\<lambda>access.
         Some [\<lparr>handle = 4 * index,
           handle_object = Gva (signed_take_bit (unat (object_pointer_sign_bit offsets)) pointer),
           granted_access = access\<rparr>])))"

lemma runs_read_table_pointer:
  "runs_in rd bytes (wi_translator wi) (read_table_pointer wi table index)
     (table_pointer (win_mem rd bytes wi) table index)"
proof -
  let ?m = "win_mem rd bytes wi"
  have "runs_in rd bytes (wi_translator wi) (read_table_pointer wi table index)
     (Option.bind (Option.bind (checked_mul index 8) (checked_add table)) (\<lambda>a.
      Option.bind (mem_word ?m a) (\<lambda>raw.
        if raw AND NOT 0xf = 0 \<or> (raw AND NOT 0xf) AND 0xfff \<noteq> 0 then None else Some (raw AND NOT 0xf))))"
    unfolding read_table_pointer_def Let_def
    by (intro vm.runs_bind vm.runs_ret runs_win_read_u64) simp_all
  then show ?thesis
    by (simp add: table_pointer_def field_def Let_def cong: if_cong)
qed

lemma handle_offset:
  assumes "sz \<noteq> 0" "sz \<le> 4096"
  shows "4096 div sz \<noteq> (0 :: u64)" "checked_mul (index mod (4096 div sz)) sz = Some (index mod (4096 div sz) * sz)"
proof -
  have sz: "0 < unat sz" "unat sz \<le> 4096"
    using assms by (simp_all add: unat_gt_0 word_le_nat_alt)
  have per: "unat (4096 div sz) = 4096 div unat sz" by (simp add: unat_div)
  then show nz: "4096 div sz \<noteq> 0"
    using sz by (metis div_greater_zero_iff not_less0 unat_0)
  have "unat (index mod (4096 div sz)) < 4096 div unat sz"
    unfolding unat_mod per using sz by (simp add: div_greater_zero_iff)
  then have "unat (index mod (4096 div sz)) * unat sz \<le> 4096 div unat sz * unat sz" by simp
  also have "\<dots> \<le> 4096" by (rule div_times_less_eq_dividend)
  finally show "checked_mul (index mod (4096 div sz)) sz = Some (index mod (4096 div sz) * sz)"
    by (simp add: checked_mul_def)
qed

lemma runs_handle_entry:
  assumes "sz \<noteq> 0" "sz \<le> 4096"
  shows "runs_in rd bytes (wi_translator wi) (handle_entry_address wi base level index sz)
     (handle_entry (win_mem rd bytes wi) base level index sz)"
proof -
  let ?m = "win_mem rd bytes wi" and ?per = "4096 div sz :: u64"
  have page: "runs_in rd bytes (wi_translator wi)
      (if level = 0 then guest_ret (Inr base)
       else if level = 1 then read_table_pointer wi base leaf
       else if level = 2 then
         guest_bind (read_table_pointer wi base (leaf div 512)) (\<lambda>directory.
           read_table_pointer wi directory (leaf mod 512))
       else guest_ret (Inl (Backend (''invalid Windows handle table level '' @ dec (unat level)))))
      (handle_page ?m base level leaf)" for leaf
    unfolding handle_page_def by (auto intro!: vm.runs_bind vm.runs_ret runs_read_table_pointer)
  have "runs_in rd bytes (wi_translator wi) (handle_entry_address wi base level index sz)
     (Option.bind (Some ?per) (\<lambda>per. Option.bind (Some (index div per)) (\<lambda>leaf.
      Option.bind (Some (index mod per)) (\<lambda>i. Option.bind (handle_page ?m base level leaf) (\<lambda>p.
      Option.bind (checked_mul i sz) (checked_add p))))))"
    unfolding handle_entry_address_def
    using handle_offset [OF assms]
    by (intro vm.runs_bind vm.runs_ret page) (auto simp: checked_div_def checked_rem_def assms)
  then show ?thesis
    by (simp add: handle_entry_def Let_def handle_offset(2) [OF assms])
qed

lemma runs_handle_body:
  assumes "entry_size offsets \<noteq> 0" "entry_size offsets \<le> 4096" "object_pointer_shift offsets < 64"
    "object_pointer_sign_bit offsets < 64" "index < 2 ^ 62" "reservable (24 * Suc (length out))"
  shows "runs_in rd bytes (wi_translator wi) (handle_body wi offsets base level index out)
    (map_option (\<lambda>xs. out @ xs) (handle_at (win_mem rd bytes wi) offsets base level (of_nat index)))"
proof -
  let ?m = "win_mem rd bytes wi" and ?i = "of_nat index :: u64"
  let ?p = "\<lambda>encoded. push_bit (unat (object_pointer_shift offsets)) (encoded AND object_pointer_mask offsets)"
  have bits: "unat (object_pointer_shift offsets) < 64" "unat (object_pointer_sign_bit offsets) < 64"
    using assms(3,4) by (simp_all add: word_less_nat_alt)
  have idx: "u64_of_usize index = Some ?i" "checked_mul ?i 4 = Some (4 * ?i)"
    using assms(5) by (simp_all add: u64_of_usize_def checked_mul_def unat_of_nat take_bit_nat_eq_self mult.commute)
  have room: "reserve_one 24 (length out) ''Windows handle list'' = Inr ()"
    using assms(6) by (simp add: reserve_one_def)
  have "runs_in rd bytes (wi_translator wi) (handle_body wi offsets base level index out)
     (Option.bind (Some ?i) (\<lambda>i. Option.bind (handle_entry ?m base level i (entry_size offsets)) (\<lambda>entry.
      Option.bind (field (mem_word ?m) entry (entry_object offsets)) (\<lambda>encoded.
      Option.bind (Some (?p encoded)) (\<lambda>pointer.
      if pointer = 0 then Some out
      else
        Option.bind (Some (signed_take_bit (unat (object_pointer_sign_bit offsets)) pointer)) (\<lambda>object.
        Option.bind (field (mem_word ?m) entry (entry_granted_access offsets)) (\<lambda>access.
        Option.bind (Some ()) (\<lambda>_.
          Some (out @ [\<lparr>handle = 4 * ?i, handle_object = Gva object, granted_access = access\<rparr>]))))))))) "
    unfolding handle_body_def
    by (intro vm.runs_bind vm.runs_ret vm.runs_if runs_handle_entry runs_win_at runs_win_read_u64 runs_win_read_u32 assms(1,2))
      (auto simp: idx checked_shl_def bits sign_extend_eq [OF bits(2)] room)
  then show ?thesis
    by (simp add: handle_at_def Let_def map_option_bind comp_def if_distrib [of "map_option _"] cong: if_cong)
qed

lemma handle_at_short: "handle_at mem offsets base level index = Some xs \<Longrightarrow> length xs \<le> 1"
  by (auto simp: handle_at_def Let_def bind_eq_Some_conv split: if_splits)

lemma those_Some: "those xs = Some ys \<longleftrightarrow> xs = map Some ys"
proof (induction xs arbitrary: ys)
  case (Cons x xs)
  then show ?case by (cases x; cases ys) auto
qed auto

lemma runs_handles_loop:
  assumes "entry_size offsets \<noteq> 0" "entry_size offsets \<le> 4096" "object_pointer_shift offsets < 64"
    "object_pointer_sign_bit offsets < 64" "\<forall>i \<in> set js. i < 2 ^ 62" "reservable (24 * (length out + length js))"
  shows "runs_in rd bytes (wi_translator wi) (handles_loop wi offsets base level js out :: ('s vmi_session, windows_handle list) guest)
    (map_option (\<lambda>xss. out @ concat xss)
      (those (map (\<lambda>i. handle_at (win_mem rd bytes wi) offsets base level (of_nat i)) js)))"
  using assms(5,6)
proof (induction js arbitrary: out)
  case Nil
  show ?case by (auto intro!: vm.runs_ret)
next
  case (Cons i js)
  let ?runs = "runs_in rd bytes (wi_translator wi) :: ('s vmi_session, windows_handle list) guest \<Rightarrow> _"
  let ?h = "handle_at (win_mem rd bytes wi) offsets base level"
  have "?runs (handles_loop wi offsets base level (i # js) out)
     (Option.bind (map_option (\<lambda>xs. out @ xs) (?h (of_nat i))) (\<lambda>out'.
       map_option (\<lambda>xss. out' @ concat xss) (those (map (\<lambda>i. ?h (of_nat i)) js))))"
    unfolding handles_loop.simps
  proof (rule vm.runs_bind)
    show "?runs (handle_body wi offsets base level i out)
        (map_option (\<lambda>xs. out @ xs) (?h (of_nat i)))"
      using Cons.prems by (intro runs_handle_body assms(1-4)) (auto simp: reservable_def)
    fix out' assume "map_option (\<lambda>xs. out @ xs) (?h (of_nat i)) = Some out'"
    then have "length out' \<le> length out + 1" by (auto dest: handle_at_short)
    then show "?runs (handles_loop wi offsets base level js out')
        (map_option (\<lambda>xss. out' @ concat xss) (those (map (\<lambda>i. ?h (of_nat i)) js)))"
      using Cons.prems by - (rule Cons.IH, auto simp: reservable_def)
  qed
  also have "Option.bind (map_option (\<lambda>xs. out @ xs) (?h (of_nat i))) (\<lambda>out'.
       map_option (\<lambda>xss. out' @ concat xss) (those (map (\<lambda>i. ?h (of_nat i)) js))) =
     map_option (\<lambda>xss. out @ concat xss) (those (map (\<lambda>i. ?h (of_nat i)) (i # js)))"
    by (cases "?h (of_nat i)") (simp_all add: option.map_comp comp_def)
  finally show ?case .
qed

definition handle_table ::
  "(nat \<Rightarrow> u8 option) \<Rightarrow> windows_handle_table_offsets \<Rightarrow> usize \<Rightarrow> u64 \<Rightarrow> windows_handle list option" where
  "handle_table mem offsets limit table =
     Option.bind (field (mem_word mem) table (table_code_offset offsets)) (\<lambda>code.
     if code AND 3 > 2 then None
     else if code AND NOT 3 = 0 then None
     else
       Option.bind (field (mem_word mem) table (next_handle_needing_pool offsets)) (\<lambda>next :: u64.
       if next AND 3 \<noteq> 0 then None
       else if unat (next div 4) > limit then None
       else
         map_option concat (those (map (\<lambda>i. handle_at mem offsets (code AND NOT 3) (code AND 3) (of_nat i))
           [0 ..< unat (next div 4)]))))"

lemma runs_handles:
  assumes "entry_size offsets \<le> 4096" "checked_rem 4096 (entry_size offsets) = Some 0"
    "object_pointer_shift offsets < 64" "object_pointer_sign_bit offsets < 64" "process \<noteq> 0" "0 < limit"
    "reservable (24 * limit)"
  shows "runs_in rd bytes (wi_translator wi) (handles wi (Gva process) offsets limit)
    (Option.bind (field (mem_word (win_mem rd bytes wi)) process (eprocess_object_table offsets)) (\<lambda>table.
       if table = 0 then Some [] else handle_table (win_mem rd bytes wi) offsets limit table))"
proof -
  let ?m = "win_mem rd bytes wi"
  have sz: "entry_size offsets \<noteq> 0" using assms(2) by (auto simp: checked_rem_def)
  have guard: "\<not> (gva_raw (Gva process) = 0 \<or> limit = 0 \<or> entry_size offsets = 0 \<or> entry_size offsets > 4096 \<or>
      checked_rem 4096 (entry_size offsets) \<noteq> Some 0 \<or> object_pointer_shift offsets \<ge> 64 \<or>
      object_pointer_sign_bit offsets \<ge> 64)"
    using assms sz by auto
  have loop: "runs_in rd bytes (wi_translator wi) (handles_loop wi offsets base level [0 ..< count] [])
      (map_option concat (those (map (\<lambda>i. handle_at ?m offsets base level (of_nat i)) [0 ..< count])))"
    if "count = unat (nh div 4)" "\<not> limit < count" for base level count and nh :: u64
  proof -
    have "count < 2 ^ 62" using u64_unat_bound [of nh] that(1) by (simp add: unat_div less_mult_imp_div_less)
    moreover have "reservable (24 * count)" using that(2) assms(7) by (auto simp: reservable_def)
    ultimately show ?thesis
      using runs_handles_loop [OF sz assms(1,3,4), where out = "[]" and js = "[0 ..< count]"] by simp
  qed
  have "runs_in rd bytes (wi_translator wi) (handles wi (Gva process) offsets limit)
     (Option.bind (field (mem_word ?m) process (eprocess_object_table offsets)) (\<lambda>table.
      if table = 0 then Some []
      else Option.bind (field (mem_word ?m) table (table_code_offset offsets)) (\<lambda>code.
        if code AND 3 > 2 then None else if code AND NOT 3 = 0 then None
        else Option.bind (field (mem_word ?m) table (next_handle_needing_pool offsets)) (\<lambda>next :: u64.
          if next AND 3 \<noteq> 0 then None
          else Option.bind (Some (unat (next div 4))) (\<lambda>count.
            if count > limit then None
            else map_option concat (those (map (\<lambda>i. handle_at ?m offsets (code AND NOT 3) (code AND 3) (of_nat i))
              [0 ..< count])))))))"
    unfolding handles_def Let_def if_not_P [OF guard] unfolding gva.sel
    by (intro vm.runs_bind vm.runs_ret vm.runs_if runs_win_at runs_win_read_u64 loop) auto
  then show ?thesis
    unfolding handle_table_def Option.bind.bind_lunit .
qed

lemma handle_table_Some:
  "handle_table mem offsets limit table = Some hs \<longleftrightarrow>
     (\<exists>code (nh :: u64) xss. field (mem_word mem) table (table_code_offset offsets) = Some code \<and>
        field (mem_word mem) table (next_handle_needing_pool offsets) = Some nh \<and>
        code AND 3 \<le> 2 \<and> code AND NOT 3 \<noteq> 0 \<and> nh AND 3 = 0 \<and> unat (nh div 4) \<le> limit \<and>
        map (\<lambda>i. handle_at mem offsets (code AND NOT 3) (code AND 3) (of_nat i)) [0 ..< unat (nh div 4)] =
          map Some xss \<and> hs = concat xss)"
  by (cases "field (mem_word mem) table (table_code_offset offsets) :: u64 option";
      cases "field (mem_word mem) table (next_handle_needing_pool offsets) :: u64 option")
    (auto simp: handle_table_def those_Some not_less)

section \<open>Properties\<close>

text \<open>
  C27: Listing the processes of a Windows guest. On a coherent session the listing succeeds with \<open>ps\<close> if and only
  if guest memory holds a circular list from \<open>PsActiveProcessHead\<close> back to it, with at most \<open>limit\<close> nodes,
  whose nodes describe exactly \<open>ps\<close> in list order. The session stays coherent.
\<close>

theorem windows_processes_exact:
  assumes "cache_coherent builtin_translators s rd" "wi_translator wi \<in> builtin_translators" "reads_bytes rd bytes"
    "0 < limit" "reservable (48 * limit)" "0 < image_file_name_length (wi_offsets wi)"
    "image_file_name_length (wi_offsets wi) \<le> 4096" "table_symbol (wi_profile wi) ''PsActiveProcessHead'' = Some sb"
  shows "cache_coherent builtin_translators (fst (win_processes wi limit s)) rd \<and>
    (snd (win_processes wi limit s) = Inr ps \<longleftrightarrow>
      (\<exists>ns. ring (mem_word (win_mem rd bytes wi)) (symbol_address sb)
          (mem_word (win_mem rd bytes wi) (symbol_address sb)) ns \<and> length ns \<le> limit \<and>
         map (win_process_at (win_mem rd bytes wi) (wi_offsets wi)) ns = map Some ps))"
  using assms by (rule win_processes_list)

text \<open>The list head at address 16 and one process at address 24: links, PID, page-table base, image name.\<close>

definition sample_processes :: "u8 list" where
  "sample_processes = [0, 0, 0, 0, 0, 0, 0, 0, 24, 0, 0, 0, 0, 0, 0, 0,
     16, 0, 0, 0, 0, 0, 0, 0, 4, 0, 0, 0, 0, 0, 0, 0, 0, 16, 0, 0, 0, 0, 0, 0, 0x53, 0x79, 0, 0]"

definition sample_windows :: windows_introspector where
  "sample_windows = \<lparr>wi_translator = sample_translator, wi_root = TranslationRoot 0,
     wi_profile = \<lparr>by_name = [(''PsActiveProcessHead'',
         \<lparr>symbol_name = ''PsActiveProcessHead'', symbol_address = 16, symbol_kind = None\<rparr>)],
       by_address = [(16, [''PsActiveProcessHead''])]\<rparr>,
     wi_offsets = \<lparr>active_process_links = 0, unique_process_id = 8, image_file_name = 24,
       image_file_name_length = 4, dtb_offset = 16\<rparr>\<rparr>"

theorem windows_processes_exact_witness:
  "snd (win_processes sample_windows 8 (fixture_session (flat_memory (sample_image sample_processes)))) =
     Inr [\<lparr>eprocess = Gva 24, win_pid = 4, win_image = ''Sy'', directory_table_base = 0x1000\<rparr>]"
proof -
  let ?rd = "flat_memory (sample_image sample_processes)" and ?bs = "flat_byte (sample_image sample_processes)"
  define m where "m = win_mem ?rd ?bs sample_windows"
  let ?o = "wi_offsets sample_windows"
  have read: "mem_bytes m a len = Some (take len (drop (unat a) (sample_image sample_processes)))"
    if "unat a + len \<le> 52" for a len
    unfolding m_def sample_windows_def using that
    by (simp, intro sample_mem_bytes) (simp_all add: sample_image_def sample_processes_def)
  note eval = field_def checked_add_def checked_sub_def mem_word_def read sample_image_def sample_processes_def
    sample_windows_def from_le_bytes_def
  have "ring (mem_word m) 16 (mem_word m 16) [24]" by (simp add: eval)
  moreover have "map (win_process_at m ?o) [24] =
      map Some [\<lparr>eprocess = Gva 24, win_pid = 4, win_image = ''Sy'', directory_table_base = 0x1000\<rparr>]"
    by (simp add: win_process_at_def eval until_nul_def decode_guest_bytes_def from_utf8_def utf8_width_def string_of_def
        char_of_def bit_Suc_0_iff)
  ultimately have "\<exists>ns. ring (mem_word m) 16 (mem_word m 16) ns \<and> length ns \<le> 8 \<and> map (win_process_at m ?o) ns =
      map Some [\<lparr>eprocess = Gva 24, win_pid = 4, win_image = ''Sy'', directory_table_base = 0x1000\<rparr>]"
    by (intro exI [of _ "[24]"]) simp
  then show ?thesis
    unfolding m_def
    using windows_processes_exact [OF fixture_coherent, where wi = sample_windows and bytes = ?bs and limit = 8
        and rd = ?rd] sample_translator_builtin flat.memory_reads_bytes [of "sample_image sample_processes"]
    by (simp add: sample_windows_def reservable_def isize_max_def table_symbol_def)
qed

text \<open>
  C28: Reading a process's handle table of one, two or three levels. With valid arguments the listing succeeds with
  \<open>hs\<close> if and only if the process has no table and \<open>hs\<close> is empty, or the table's code and size are well formed and
  within the limit, every entry up to the size can be found through page-aligned pointers and read, and \<open>hs\<close> are
  the used entries in ascending order: the handle value is four times the index and the object pointer is the masked
  and shifted entry, sign-extended from its sign bit.
\<close>

theorem windows_handles_exact:
  assumes "cache_coherent builtin_translators s rd" "wi_translator wi \<in> builtin_translators" "reads_bytes rd bytes"
    "entry_size offsets \<le> 4096" "checked_rem 4096 (entry_size offsets) = Some 0"
    "object_pointer_shift offsets < 64" "object_pointer_sign_bit offsets < 64" "process \<noteq> 0" "0 < limit"
    "reservable (24 * limit)"
  shows "snd (handles wi (Gva process) offsets limit s) = Inr hs \<longleftrightarrow>
    (\<exists>table. field (mem_word (win_mem rd bytes wi)) process (eprocess_object_table offsets) = Some table \<and>
      (if table = 0 then hs = []
       else \<exists>code (nh :: u64) xss.
         field (mem_word (win_mem rd bytes wi)) table (table_code_offset offsets) = Some code \<and>
         field (mem_word (win_mem rd bytes wi)) table (next_handle_needing_pool offsets) = Some nh \<and>
         code AND 3 \<le> 2 \<and> code AND NOT 3 \<noteq> 0 \<and> nh AND 3 = 0 \<and> unat (nh div 4) \<le> limit \<and>
         map (\<lambda>i. handle_at (win_mem rd bytes wi) offsets (code AND NOT 3) (code AND 3) (of_nat i))
           [0 ..< unat (nh div 4)] = map Some xss \<and> hs = concat xss))"
proof -
  have "snd (handles wi (Gva process) offsets limit s) = Inr hs \<longleftrightarrow>
      Option.bind (field (mem_word (win_mem rd bytes wi)) process (eprocess_object_table offsets)) (\<lambda>table.
        if table = 0 then Some [] else handle_table (win_mem rd bytes wi) offsets limit table) = Some hs"
    by (rule vm.runsD [OF runs_handles [OF assms(4-10)]]) (use assms in auto)
  also have "\<dots> \<longleftrightarrow> (\<exists>table. field (mem_word (win_mem rd bytes wi)) process (eprocess_object_table offsets) = Some table \<and>
      (if table = 0 then hs = [] else handle_table (win_mem rd bytes wi) offsets limit table = Some hs))"
    by (auto simp: bind_eq_Some_conv)
  finally show ?thesis unfolding handle_table_Some .
qed

text \<open>A process at address 16 with a table at 24, whose two entries at 40 and 56 are unused and used.\<close>

definition sample_handles :: "u8 list" where
  "sample_handles = [0, 0, 0, 0, 0, 0, 0, 0, 24, 0, 0, 0, 0, 0, 0, 0,
     40, 0, 0, 0, 0, 0, 0, 0, 8, 0, 0, 0, 0, 0, 0, 0,
     0, 0, 0, 0, 0, 0, 0, 0, 0, 0, 0, 0, 0, 0, 0, 0,
     0x80, 0, 0, 0, 0, 0, 0, 0, 5, 0, 0, 0, 0, 0, 0, 0]"

definition sample_handle_offsets :: windows_handle_table_offsets where
  "sample_handle_offsets = \<lparr>eprocess_object_table = 0, table_code_offset = 0, next_handle_needing_pool = 8,
     entry_size = 16, entry_object = 0, entry_granted_access = 8, object_pointer_mask = - 1,
     object_pointer_shift = 0, object_pointer_sign_bit = 7\<rparr>"

theorem windows_handles_exact_witness:
  "snd (handles sample_windows (Gva 16) sample_handle_offsets 8
      (fixture_session (flat_memory (sample_image sample_handles)))) =
     Inr [\<lparr>handle = 4, handle_object = Gva 0xFFFFFFFFFFFFFF80, granted_access = 5\<rparr>]"
proof -
  let ?rd = "flat_memory (sample_image sample_handles)" and ?bs = "flat_byte (sample_image sample_handles)"
  define m where "m = win_mem ?rd ?bs sample_windows"
  let ?o = sample_handle_offsets and ?hs = "[\<lparr>handle = 4, handle_object = Gva 0xFFFFFFFFFFFFFF80, granted_access = 5\<rparr>]"
  have read: "mem_bytes m a len = Some (take len (drop (unat a) (sample_image sample_handles)))"
    if "unat a + len \<le> 72" for a len
    unfolding m_def sample_windows_def using that
    by (simp, intro sample_mem_bytes) (simp_all add: sample_image_def sample_handles_def)
  note eval = field_def checked_add_def mem_word_def read sample_image_def sample_handles_def
    sample_handle_offsets_def from_le_bytes_def
  have "signed_take_bit 7 (0x80 :: u64) = 0xFFFFFFFFFFFFFF80"
    by (simp add: signed_take_bit_def mask_eq_exp_minus_1)
  then have "map (\<lambda>i. handle_at m ?o 40 0 (of_nat i)) [0 ..< 2] = map Some [[], ?hs]"
    by (simp add: handle_at_def handle_entry_def handle_page_def eval upt_rec)
  then have "\<exists>table. field (mem_word m) 16 (eprocess_object_table ?o) = Some table \<and> (if table = 0 then ?hs = []
      else \<exists>code (nh :: u64) xss. field (mem_word m) table (table_code_offset ?o) = Some code \<and>
        field (mem_word m) table (next_handle_needing_pool ?o) = Some nh \<and>
        code AND 3 \<le> 2 \<and> code AND NOT 3 \<noteq> 0 \<and> nh AND 3 = 0 \<and> unat (nh div 4) \<le> 8 \<and>
        map (\<lambda>i. handle_at m ?o (code AND NOT 3) (code AND 3) (of_nat i)) [0 ..< unat (nh div 4)] = map Some xss \<and>
        ?hs = concat xss)"
    by (intro exI [of _ 24]) (simp add: eval, intro exI [of _ "[[], ?hs]"], simp)
  then show ?thesis
    unfolding m_def
    using windows_handles_exact [OF fixture_coherent, where wi = sample_windows and bytes = ?bs and limit = 8
        and rd = ?rd and process = 16 and offsets = ?o and hs = ?hs]
      sample_translator_builtin flat.memory_reads_bytes [of "sample_image sample_handles"]
    by (simp add: sample_windows_def sample_handle_offsets_def reservable_def isize_max_def checked_rem_def)
qed

end
