(* ===== verification/Driver_Command.thy ===== *)
theory Driver_Command
  imports Guest Publish Driver_Snapshot
begin

text \<open>
  What the drivers that run a command line tool share: \<open>vmi-driver-libvirt\<close> runs \<open>virsh\<close>,
  \<open>vmi-driver-virtualbox\<close> runs \<open>VBoxManage\<close>, \<open>vmi-driver-xen\<close> runs \<open>xl\<close> and
  \<open>xenctx\<close>. The polling loop, the two reader threads and their shared byte budget are modelled for any
  command; the threads interleave in any order. The VirtualBox and Xen crates also share, up to the name of the
  hypervisor in their texts, the acquisition of a range through a temporary core and its publication.
\<close>

section \<open>Bounded commands\<close>

text \<open>Durations in nanoseconds.\<close>

definition DEFAULT_COMMAND_TIMEOUT :: nat where
  "DEFAULT_COMMAND_TIMEOUT = 30 * 10 ^ 9"

definition MAX_COMMAND_TIMEOUT :: nat where
  "MAX_COMMAND_TIMEOUT = 24 * 60 * 60 * 10 ^ 9"

record process_transport =
  executable :: string
  command_timeout :: nat

definition process_transport_new :: "string \<Rightarrow> process_transport" where
  "process_transport_new name = \<lparr>executable = name, command_timeout = DEFAULT_COMMAND_TIMEOUT\<rparr>"

definition bounded_command_timeout :: "nat \<Rightarrow> string \<Rightarrow> nat result" where
  "bounded_command_timeout timeout name =
     (if timeout = 0 then Inl (Backend (name @ '' timeout must be non-zero''))
      else Inr (min timeout MAX_COMMAND_TIMEOUT))"

text \<open>What distinguishes the commands: their name, the operation a timeout reports, and the budget.\<close>

record command_spec =
  command_name :: string
  command_operation :: string
  command_overrun :: string
  command_capacity :: usize

text \<open>
  The budget of captured bytes is shared by the two reader threads; \<open>observed\<close> are the values that failing
  compare-and-exchange calls saw. \<open>None\<close> is the answer \<open>false\<close>, otherwise the new value of the counter is given.
\<close>

fun reserve_captured_bytes :: "usize \<Rightarrow> usize list \<Rightarrow> usize \<Rightarrow> usize \<Rightarrow> usize option" where
  "reserve_captured_bytes current [] count cap =
     Option.bind (usize_checked_add current count) (\<lambda>next. if next > cap then None else Some next)"
| "reserve_captured_bytes current (seen # observed) count cap =
     Option.bind (usize_checked_add current count) (\<lambda>next.
       if next > cap then None else reserve_captured_bytes seen observed count cap)"

text \<open>A reader thread: its pipe, what it captured, and its result once it has ended.\<close>

record pipe_reader =
  pipe_source :: reader
  pipe_output :: "u8 list"
  pipe_result :: "(string + u8 list) option"

record capture =
  captured :: usize
  exceeded :: bool
  stdout_pipe :: pipe_reader
  stderr_pipe :: pipe_reader

text \<open>
  One iteration of the reader loop; an interrupted read is retried.  \<open>seen\<close> is what the shared counter held at the
  first load and \<open>observed\<close> what each failing exchange returned, while the other reader was moving it.
\<close>

definition pipe_step :: "command_spec \<Rightarrow> pipe_reader \<Rightarrow> usize \<Rightarrow> usize list \<Rightarrow> usize \<Rightarrow> bool \<Rightarrow>
    pipe_reader \<times> usize \<times> bool" where
  "pipe_step spec p seen observed count_so_far over_budget =
     (case read_retry (pipe_source p) 8192 of
        (r, Inl e) \<Rightarrow> (p\<lparr>pipe_source := r, pipe_result := Some (Inl e)\<rparr>, count_so_far, over_budget)
      | (r, Inr bs) \<Rightarrow>
          if length bs = 0 then
            (p\<lparr>pipe_source := r, pipe_result := Some (Inr (pipe_output p))\<rparr>, count_so_far, over_budget)
          else
            (case reserve_captured_bytes seen observed (length bs) (command_capacity spec) of
               None \<Rightarrow> (p\<lparr>pipe_source := r, pipe_result := Some (Inr (pipe_output p))\<rparr>, count_so_far, True)
             | Some next \<Rightarrow>
                 if \<not> reservable (length (pipe_output p) + length bs) then
                   (p\<lparr>pipe_source := r, pipe_result := Some (Inl capacity_overflow)\<rparr>, next, over_budget)
                 else if length bs > 8192 then
                   (p\<lparr>pipe_source := r, pipe_result := Some (Inl (command_overrun spec))\<rparr>, next, over_budget)
                 else (p\<lparr>pipe_source := r, pipe_output := pipe_output p @ bs\<rparr>, next, over_budget)))"

text \<open>
  What the retry loop sees of the counter: any number of older values, none above the present one because the counter
  only grows, and in the exchange that succeeds the present one.
\<close>

definition counter_history :: "usize \<Rightarrow> usize list \<Rightarrow> usize \<Rightarrow> bool" where
  "counter_history seen observed present \<longleftrightarrow>
     (\<forall>old \<in> set (seen # observed). old \<le> present) \<and> last (seen # observed) = present"

text \<open>The threads interleave in any order.\<close>

inductive capture_step :: "command_spec \<Rightarrow> capture \<Rightarrow> capture \<Rightarrow> bool" for spec where
  stdout: "pipe_result (stdout_pipe c) = None \<Longrightarrow>
    counter_history seen observed (captured c) \<Longrightarrow>
    pipe_step spec (stdout_pipe c) seen observed (captured c) (exceeded c) = (p, n, x) \<Longrightarrow>
    capture_step spec c (c\<lparr>stdout_pipe := p, captured := n, exceeded := x\<rparr>)"
| stderr: "pipe_result (stderr_pipe c) = None \<Longrightarrow>
    counter_history seen observed (captured c) \<Longrightarrow>
    pipe_step spec (stderr_pipe c) seen observed (captured c) (exceeded c) = (p, n, x) \<Longrightarrow>
    capture_step spec c (c\<lparr>stderr_pipe := p, captured := n, exceeded := x\<rparr>)"

definition pipe_start :: "reader \<Rightarrow> pipe_reader" where
  "pipe_start r = \<lparr>pipe_source = r, pipe_output = [], pipe_result = None\<rparr>"

definition capture_start :: "reader \<Rightarrow> reader \<Rightarrow> capture" where
  "capture_start out err = \<lparr>captured = 0, exceeded = False, stdout_pipe = pipe_start out, stderr_pipe = pipe_start err\<rparr>"

text \<open>
  The polling loop: each poll gives what \<open>try_wait\<close> returned, whether the budget was seen exceeded and whether the
  deadline had passed. \<open>None\<close> means that the loop is still running after these polls.
\<close>

record exit_status =
  exit_success :: bool
  exit_text :: string

record poll =
  poll_wait :: "string + exit_status option"
  poll_exceeded :: bool
  poll_deadline :: bool

definition output_exceeds :: "command_spec \<Rightarrow> vmi_error" where
  "output_exceeds spec = Backend (command_name spec @ '' output exceeds '' @ dec (command_capacity spec) @ '' bytes'')"

fun poll_loop :: "command_spec \<Rightarrow> poll list \<Rightarrow> exit_status result option" where
  "poll_loop spec [] = None"
| "poll_loop spec (p # ps) =
     (case poll_wait p of
        Inl e \<Rightarrow> Some (Inl (Backend (''failed to wait for '' @ command_name spec @ '': '' @ e)))
      | Inr (Some status) \<Rightarrow> Some (Inr status)
      | Inr None \<Rightarrow>
          if poll_exceeded p then Some (Inl (output_exceeds spec))
          else if poll_deadline p then Some (Inl (Timeout (command_operation spec)))
          else poll_loop spec ps)"

definition join_reader :: "command_spec \<Rightarrow> pipe_reader \<Rightarrow> string \<Rightarrow> u8 list result option" where
  "join_reader spec p stream =
     map_option (map_err (\<lambda>e. Backend (''failed to read '' @ command_name spec @ '' '' @ stream @ '': '' @ e)))
       (pipe_result p)"

text \<open>
  One run of a command: whether the process and the two threads could be started, what the polls saw, and the
  state in which the threads ended.
\<close>

record process_run =
  run_spawn :: "string option"
  run_stdout_thread :: "string option"
  run_stderr_thread :: "string option"
  run_polls :: "poll list"
  run_capture :: capture

definition start_command :: "command_spec \<Rightarrow> string \<Rightarrow> process_run \<Rightarrow> unit result" where
  "start_command spec program run =
     (case run_spawn run of
        Some e \<Rightarrow> Inl (Backend (''failed to execute '' @ program @ '': '' @ e))
      | None \<Rightarrow>
          (case run_stdout_thread run of
             Some e \<Rightarrow> Inl (Backend (''failed to start '' @ command_name spec @ '' stdout reader: '' @ e))
           | None \<Rightarrow>
               (case run_stderr_thread run of
                  Some e \<Rightarrow> Inl (Backend (''failed to start '' @ command_name spec @ '' stderr reader: '' @ e))
                | None \<Rightarrow> Inr ())))"

definition finish_command :: "command_spec \<Rightarrow> process_run \<Rightarrow> (exit_status \<times> u8 list \<times> u8 list) result option" where
  "finish_command spec run =
     Option.bind (poll_loop spec (run_polls run)) (\<lambda>r. case r of
       Inl e \<Rightarrow> Some (Inl e)
     | Inr status \<Rightarrow>
         Option.bind (join_reader spec (stdout_pipe (run_capture run)) ''stdout'') (\<lambda>out.
         Option.bind (join_reader spec (stderr_pipe (run_capture run)) ''stderr'') (\<lambda>err.
           Some (and_then out (\<lambda>out_bytes. and_then err (\<lambda>err_bytes.
             if exceeded (run_capture run) then Inl (output_exceeds spec)
             else Inr (status, out_bytes, err_bytes)))))))"

definition try_thread_name :: "string \<Rightarrow> string \<Rightarrow> string result" where
  "try_thread_name name stream =
     and_then (ok_or (Option.bind (usize_checked_add (length name) (length stream)) (\<lambda>n. usize_checked_add n 1))
       (Backend ''command reader thread name length overflow'')) (\<lambda>cap.
     if \<not> reservable cap then
       Inl (Backend (''failed to allocate command reader thread name: '' @ capacity_overflow))
     else Inr (name @ ''-'' @ stream))"

definition validate_command_output_lengths_with_limit :: "usize \<Rightarrow> usize \<Rightarrow> string \<Rightarrow> usize \<Rightarrow> unit result" where
  "validate_command_output_lengths_with_limit out err name cap =
     and_then (ok_or (usize_checked_add out err) (Backend (name @ '' output length overflow''))) (\<lambda>n.
     if n > cap then Inl (Backend (name @ '' output exceeds '' @ dec cap @ '' bytes'')) else Inr ())"

text \<open>The runner of the VirtualBox and Xen crates.\<close>

definition run_bounded_command_with_limit ::
  "command_spec \<Rightarrow> process_transport \<Rightarrow> process_run \<Rightarrow> (exit_status \<times> u8 list \<times> u8 list) result option" where
  "run_bounded_command_with_limit spec t run =
     (case and_then (bounded_command_timeout (command_timeout t) (command_name spec)) (\<lambda>_.
        and_then (try_thread_name (command_name spec) ''stdout'') (\<lambda>_.
        and_then (try_thread_name (command_name spec) ''stderr'') (\<lambda>_.
        and_then (ok_or (usize_checked_add (command_capacity spec) 1)
          (Backend (command_name spec @ '' output capacity is too large for bounded capture''))) (\<lambda>_.
        start_command spec (executable t) run)))) of
        Inl e \<Rightarrow> Some (Inl e)
      | Inr _ \<Rightarrow>
          map_option (\<lambda>r. and_then r (\<lambda>(status, out_bytes, err_bytes).
            and_then (validate_command_output_lengths_with_limit (length out_bytes) (length err_bytes)
              (command_name spec) (command_capacity spec)) (\<lambda>_. Inr (status, out_bytes, err_bytes))))
            (finish_command spec run))"

definition lossy_text :: "u8 list \<Rightarrow> string" where
  "lossy_text bytes = (case decode_loop [] bytes 0 [] of Inr txt \<Rightarrow> txt | Inl _ \<Rightarrow> [])"

text \<open>The output of a command that ended, as every transport reads it.\<close>

definition command_text :: "command_spec \<Rightarrow> exit_status \<times> u8 list \<times> u8 list \<Rightarrow> string result" where
  "command_text spec = (\<lambda>(status, out_bytes, err_bytes).
     if \<not> exit_success status then
       Inl (Backend (command_name spec @ '' failed with '' @ exit_text status @ '': '' @ trim (lossy_text err_bytes)))
     else map_err (\<lambda>e. Backend (command_name spec @ '' output is not UTF-8: '' @ e)) (from_utf8 out_bytes))"

section \<open>The byte budget of the reader threads\<close>

text \<open>
  A reader that has not ended still has the rest of its stream before it; one that ended captured the whole
  stream, failed with the stream's error, or the budget was exceeded.
\<close>

definition pipe_ok :: "reader \<Rightarrow> bool \<Rightarrow> pipe_reader \<Rightarrow> bool" where
  "pipe_ok stream x p =
     (case pipe_result p of
        None \<Rightarrow> stream_content stream = and_then (stream_content (pipe_source p)) (\<lambda>rest. Inr (pipe_output p @ rest))
      | Some (Inl e) \<Rightarrow> stream_content stream = Inl e
      | Some (Inr bytes) \<Rightarrow> bytes = pipe_output p \<and> (x \<or> stream_content stream = Inr bytes))"

lemma pipe_ok_exceeded: "pipe_ok stream x p \<Longrightarrow> x \<longrightarrow> x' \<Longrightarrow> pipe_ok stream x' p"
  by (auto simp: pipe_ok_def split: option.splits sum.splits)

text \<open>However often the exchange is retried, the reservation is decided by the value it is finally made on.\<close>

lemma reserve_captured_history:
  assumes "counter_history seen observed n"
  shows "reserve_captured_bytes seen observed k cap = (if n + k \<le> cap \<and> n + k < usize_bound then Some (n + k) else None)"
  using assms
proof (induction seen observed k cap rule: reserve_captured_bytes.induct)
  case (1 current count cap)
  then show ?case by (auto simp: counter_history_def usize_checked_add_def)
next
  case (2 current seen observed count cap)
  then have "current \<le> n" "counter_history seen observed n" by (simp_all add: counter_history_def)
  with 2 show ?case by (auto simp: usize_checked_add_def)
qed

lemma pipe_step_ok:
  assumes "pipe_step spec p seen observed n x = (p', n', x')" "pipe_result p = None" "pipe_ok stream x p"
    "n = length (pipe_output p) + other" "n \<le> command_capacity spec" "reservable (command_capacity spec)"
    and history: "counter_history seen observed n"
  shows "pipe_ok stream x' p' \<and> n' = length (pipe_output p') + other \<and> n' \<le> command_capacity spec \<and> (x \<longrightarrow> x')"
proof -
  obtain r res where rd: "read_retry (pipe_source p) 8192 = (r, res)" by fastforce
  have st: "stream_content stream = and_then (stream_content (pipe_source p)) (\<lambda>rest. Inr (pipe_output p @ rest))"
    using assms(2,3) by (simp add: pipe_ok_def)
  show ?thesis
  proof (cases res)
    case (Inl e)
    then show ?thesis
      using assms rd st read_retry_error [OF rd [unfolded Inl]] by (auto simp: pipe_step_def pipe_ok_def)
  next
    case (Inr bs)
    note bytes = read_retry_bytes [OF rd [unfolded Inr]]
    consider "bs = []" | "bs \<noteq> []" "command_capacity spec < n + length bs"
      | "bs \<noteq> []" "n + length bs \<le> command_capacity spec" by linarith
    then show ?thesis
    proof cases
      case 1
      then show ?thesis
        using assms rd Inr st bytes(2) by (auto simp: pipe_step_def pipe_ok_def)
    next
      case 2
      then have "reserve_captured_bytes seen observed (length bs) (command_capacity spec) = None"
        by (simp add: reserve_captured_history [OF history])
      then show ?thesis
        using 2(1) assms rd Inr by (auto simp: pipe_step_def pipe_ok_def)
    next
      case 3
      have small: "n + length bs < usize_bound" "reservable (length (pipe_output p) + length bs)"
        using 3(2) assms(4,6) by (simp_all add: usize_bound_def reservable_def isize_max_def)
      then have "reserve_captured_bytes seen observed (length bs) (command_capacity spec) = Some (n + length bs)"
        using 3(2) by (simp add: reserve_captured_history [OF history])
      then have step: "p' = p\<lparr>pipe_source := r, pipe_output := pipe_output p @ bs\<rparr>" "n' = n + length bs" "x' = x"
        using assms(1) rd Inr 3(1) bytes(1) small(2) by (auto simp: pipe_step_def)
      then show ?thesis
        using 3 bytes(2) st assms by (simp add: pipe_ok_def and_then_assoc)
    qed
  qed
qed

definition capture_ok :: "command_spec \<Rightarrow> reader \<Rightarrow> reader \<Rightarrow> capture \<Rightarrow> bool" where
  "capture_ok spec out err c \<longleftrightarrow> captured c = length (pipe_output (stdout_pipe c)) + length (pipe_output (stderr_pipe c)) \<and>
     captured c \<le> command_capacity spec \<and> pipe_ok out (exceeded c) (stdout_pipe c) \<and>
     pipe_ok err (exceeded c) (stderr_pipe c)"

lemma capture_step_ok: 
  "capture_step spec c c' \<Longrightarrow> capture_ok spec out err c \<Longrightarrow> reservable (command_capacity spec) \<Longrightarrow> capture_ok spec out err c'"
proof (induction rule: capture_step.induct)
  case (stdout c seen observed p n x)
  have "pipe_ok out x p \<and> n = length (pipe_output p) + length (pipe_output (stderr_pipe c)) \<and>
      n \<le> command_capacity spec \<and> (exceeded c \<longrightarrow> x)"
    by (rule pipe_step_ok [OF stdout(3,1) _ _ _ _ stdout(2)]) (use stdout(4,5) in \<open>simp_all add: capture_ok_def\<close>)
  then show ?case
    using stdout(4) by (simp add: capture_ok_def) (blast intro: pipe_ok_exceeded)
next
  case (stderr c seen observed p n x)
  have "pipe_ok err x p \<and> n = length (pipe_output p) + length (pipe_output (stdout_pipe c)) \<and>
      n \<le> command_capacity spec \<and> (exceeded c \<longrightarrow> x)"
    by (rule pipe_step_ok [OF stderr(3,1) _ _ _ _ stderr(2)]) (use stderr(4,5) in \<open>simp_all add: capture_ok_def\<close>)
  then show ?case
    using stderr(4) by (simp add: capture_ok_def) (blast intro: pipe_ok_exceeded)
qed

lemma capture_reachable_ok:
  assumes "(capture_step spec)\<^sup>*\<^sup>* (capture_start out err) c" "reservable (command_capacity spec)"
  shows "capture_ok spec out err c"
  using assms(1)
proof (induction rule: rtranclp_induct)
  case base
  have "and_then r (\<lambda>rest. Inr rest) = r" for r :: "string + u8 list" by (cases r) auto
  then show ?case by (simp add: capture_ok_def capture_start_def pipe_start_def pipe_ok_def)
next
  case (step c c')
  then show ?case using assms(2) by (blast intro: capture_step_ok)
qed

lemma finish_command_complete:
  assumes "(capture_step spec)\<^sup>*\<^sup>* (capture_start out err) (run_capture run)" "reservable (command_capacity spec)"
    "finish_command spec run = Some (Inr (status, o_bytes, e_bytes))"
  shows "stream_content out = Inr o_bytes" "stream_content err = Inr e_bytes"
    "length o_bytes + length e_bytes \<le> command_capacity spec"
proof -
  let ?c = "run_capture run"
  have "\<not> exceeded ?c" "pipe_result (stdout_pipe ?c) = Some (Inr o_bytes)" "pipe_result (stderr_pipe ?c) = Some (Inr e_bytes)"
    using assms(3)
    by (cases "poll_loop spec (run_polls run)"; cases "the (poll_loop spec (run_polls run))";
        cases "pipe_result (stdout_pipe ?c)"; cases "pipe_result (stderr_pipe ?c)";
        auto simp: finish_command_def join_reader_def split: if_splits)+
  then show "stream_content out = Inr o_bytes" "stream_content err = Inr e_bytes"
    "length o_bytes + length e_bytes \<le> command_capacity spec"
    using capture_reachable_ok [OF assms(1,2)] by (auto simp: capture_ok_def pipe_ok_def)
qed

section \<open>Arguments, paths and files\<close>

text \<open>A transport takes arguments to output; it may change the outside world and the disk.\<close>

type_synonym 'v command_transport = "string list \<Rightarrow> 'v \<times> disk \<Rightarrow> ('v \<times> disk) \<times> string result"

text \<open>\<open>char::is_control\<close>: the Unicode category Cc.\<close>

definition is_control :: "string \<Rightarrow> bool" where
  "is_control ch =
     (case map of_char ch of
        [a] \<Rightarrow> a < (0x20 :: nat) \<or> a = 0x7F
      | [a, b] \<Rightarrow> a = 0xC2 \<and> 0x80 \<le> b \<and> b \<le> 0x9F
      | _ \<Rightarrow> False)"

definition bad_argument :: "string \<Rightarrow> bool" where
  "bad_argument v \<longleftrightarrow> v = [] \<or> starts_with v ''-'' \<or> (\<exists>ch \<in> set (utf8_chars v). is_control ch)"

definition validate_target_name :: "string \<Rightarrow> string \<Rightarrow> unit result" where
  "validate_target_name name description =
     (if bad_argument name then Inl (Backend (''invalid '' @ description @ '' target name'')) else Inr ())"

definition try_owned_id :: "string \<Rightarrow> string \<Rightarrow> string result" where
  "try_owned_id v description =
     (if \<not> reservable (length v) then Inl (Backend (''failed to allocate '' @ description @ '': '' @ capacity_overflow))
      else Inr v)"

definition to_ascii_lowercase :: "string \<Rightarrow> string" where
  "to_ascii_lowercase s =
     map (\<lambda>c. let n = of_char c :: nat in if 65 \<le> n \<and> n \<le> 90 then char_of (n + 32) else c) s"

text \<open>\<open>Path::to_str\<close>: a path is any list of bytes.\<close>

definition path_to_str :: "string \<Rightarrow> string option" where
  "path_to_str p = (if utf8_check 0 (map (\<lambda>c. of_nat (of_char c)) p) = None then Some p else None)"

lemma utf8_check_ascii: "\<forall>b \<in> set bs. b < 0x80 \<Longrightarrow> utf8_check i bs = None"
  by (induction bs arbitrary: i) (auto simp: utf8_width_def)

lemma path_to_str_ascii: "\<forall>c \<in> set p. of_char c < (0x80 :: nat) \<Longrightarrow> path_to_str p = Some p"
  unfolding path_to_str_def by (subst utf8_check_ascii) (auto simp: word_less_nat_alt unat_of_nat)

text \<open>
  What the calls of an acquisition meet: the failures of inspecting a path other than its absence, of creating,
  writing, synchronising and removing files, those of a publication, the process, the clock, the values of the
  counters that failing exchanges saw, and the directory for temporary files.
\<close>

record host_env =
  env_inspect :: "string \<Rightarrow> string option"
  env_create :: "string option"
  env_write :: "(nat \<times> string) option"
  env_sync :: "string option"
  env_discard :: "string option"
  env_cleanup :: "string option"
  env_publish :: publish_faults
  env_pid :: u32
  env_clock :: "string + nat"
  env_observed :: "u64 list"
  env_range_observed :: "u64 list"
  env_temp_dir :: string

definition ensure_output_absent :: "host_env \<Rightarrow> disk \<Rightarrow> string \<Rightarrow> string \<Rightarrow> unit result" where
  "ensure_output_absent env d path description =
     (case env_inspect env path of
        Some e \<Rightarrow> Inl (Backend (''failed to inspect '' @ description @ '' output '' @ path @ '': '' @ e))
      | None \<Rightarrow>
          if map_of d path \<noteq> None then
            Inl (Backend (''refusing to replace existing '' @ description @ '' output '' @ path))
          else Inr ())"

text \<open>\<open>Path::exists\<close> takes a path that cannot be inspected for absent.\<close>

definition path_exists :: "host_env \<Rightarrow> disk \<Rightarrow> string \<Rightarrow> bool" where
  "path_exists env d path \<longleftrightarrow> env_inspect env path = None \<and> map_of d path \<noteq> None"

text \<open>The files of the disk, for the artifact readers.\<close>

definition disk_fs :: "disk \<Rightarrow> file_system" where
  "disk_fs d = \<lparr>fs_open = (\<lambda>p. case map_of d p of
       None \<Rightarrow> Inl os_missing
     | Some bytes \<Rightarrow> Inr \<lparr>file_len = Inr (of_nat (length bytes)), file_seek = (\<lambda>_. Inr ()),
         file_at = (\<lambda>n. [Chunk (drop (unat n) bytes)])\<rparr>),
     fs_canonicalize = (\<lambda>p. Inr p)\<rparr>"

lemma disk_fs_missing: "map_of d p = None \<Longrightarrow> read_file_limited (disk_fs d) p limit description \<noteq> Inr bytes"
  by (simp add: read_file_limited_def disk_fs_def)

section \<open>Ranges of a dumped core\<close>

text \<open>The bytes of a range, read from a core by one of the artifact readers.\<close>

definition core_range ::
  "(file_system \<Rightarrow> string \<Rightarrow> snapshot_bundle result) \<Rightarrow> string \<Rightarrow> disk \<Rightarrow> string \<Rightarrow> gpa \<Rightarrow> usize \<Rightarrow> u8 list result" where
  "core_range open_core allocation d core start len =
     and_then (open_core (disk_fs d) core) (\<lambda>b.
     if \<not> reservable len then Inl (Backend (allocation @ capacity_overflow))
     else (case bundle_read_into b start (replicate len 0) of (bytes, r) \<Rightarrow> and_then r (\<lambda>_. Inr bytes)))"

text \<open>What the drivers rely on: a reader that opens only existing files gives well-formed bundles.\<close>

locale core_reader =
  fixes open_core :: "file_system \<Rightarrow> string \<Rightarrow> snapshot_bundle result"
  assumes opened_ok: "open_core fs p = Inr b \<Longrightarrow> bundle_ok b"
    and opened_exists: "open_core (disk_fs d) p = Inr b \<Longrightarrow> map_of d p \<noteq> None"
begin

lemma core_range_Inr:
  assumes "core_range open_core allocation d core start len = Inr bytes"
  shows "\<exists>b. open_core (disk_fs d) core = Inr b \<and> map_of d core \<noteq> None \<and> length bytes = len \<and>
    (\<forall>i < len. bundle_byte b (unat (gpa_raw start) + i) = Some (bytes ! i))"
proof -
  obtain b r where b: "open_core (disk_fs d) core = Inr b" "reservable len"
      "bundle_read_into b start (replicate len 0) = (bytes, Inr r)"
    using assms by (auto simp: core_range_def split: if_splits prod.splits)
  moreover have "read_bytes (bundle_read_into b) start len = Inr bytes"
    using b by (simp add: read_bytes_def allocate_read_buffer_def)
  ultimately show ?thesis
    using snap.read_bytes_Inr [OF opened_ok [OF b(1)] b(2)] opened_exists [OF b(1)] by blast
qed

end

interpretation elf_core: core_reader elf_vmcore_file
proof unfold_locales
  show "bundle_ok b" if "elf_vmcore_file fs p = Inr b" for fs p b
    using that elf_segments by (auto simp: elf_vmcore_file_def elf_vmcore_file_with_limits_def)
  show "map_of d p \<noteq> None" if "elf_vmcore_file (disk_fs d) p = Inr b" for d p b
    using that disk_fs_missing [of d p] by (auto simp: elf_vmcore_file_def elf_vmcore_file_with_limits_def)
qed

interpretation xen_core: core_reader xen_core_file
proof unfold_locales
  show "bundle_ok b" if "xen_core_file fs p = Inr b" for fs p b
    using that elf_segments by (auto simp: xen_core_file_def xen_core_file_with_limits_def)
  show "map_of d p \<noteq> None" if "xen_core_file (disk_fs d) p = Inr b" for d p b
    using that disk_fs_missing [of d p] by (auto simp: xen_core_file_def xen_core_file_with_limits_def)
qed

lemma disk_remove_Inr:
  "disk_remove_file fault p d = (d', r) \<Longrightarrow> (r = Inr () \<or> fault = None) \<Longrightarrow> map_of d' = (map_of d)(p := None)"
  by (auto simp: disk_remove_file_def delete_conv' fun_eq_iff split: option.splits if_splits)

section \<open>A sample host\<close>

text \<open>A host where nothing fails, and a core file on its disk.\<close>

definition sample_env :: host_env where
  "sample_env = \<lparr>env_inspect = (\<lambda>_. None), env_create = None, env_write = None, env_sync = None, env_discard = None,
     env_cleanup = None, env_publish = no_faults, env_pid = 7, env_clock = Inr 9, env_observed = [],
     env_range_observed = [], env_temp_dir = ''/tmp''\<rparr>"

lemma elf_fixture_bundle:
  "\<exists>b. from_elf_with_limits source elf_fixture ''elf-vmcore'' DEFAULT_MAX_ARTIFACT_SIZE = Inr b \<and>
     segments b = [segment_new (Gpa 0x1000) [0xaa, 0]]"
  by (simp add: from_elf_with_limits_def elf_fixture_fields elf_entry_offset_def checked_mul_def checked_add_def
      add_offset_def usize_checked_add_def usize_bound_def elf_segment_bytes_def reservable_def isize_max_def
      reserve_segment_def finish_segments_def sort_segments_def upt_rec DEFAULT_MAX_ARTIFACT_SIZE_def
      get_range_def [of "replicate _ _"] splice_def bundle_of_def)

lemma elf_fixture_file:
  assumes "map_of d core = Some elf_fixture"
  shows "\<exists>b. elf_vmcore_file (disk_fs d) core = Inr b \<and> segments b = [segment_new (Gpa 0x1000) [0xaa, 0]]"
proof -
  have len: "length elf_fixture = 121" by (simp add: elf_fixture_def bytes_of_def to_le_bytes_def)
  have "stream_content [Chunk elf_fixture] = Inr elf_fixture" using len by auto
  then have "read_file_limited (disk_fs d) core DEFAULT_MAX_ARTIFACT_SIZE ''ELF artifact'' = Inr elf_fixture"
    using capture_loop_iff [of DEFAULT_MAX_ARTIFACT_SIZE _ "[Chunk elf_fixture]" elf_fixture] assms len
    by (simp add: read_file_limited_def disk_fs_def DEFAULT_MAX_ARTIFACT_SIZE_def
        usize_of_u64_def reservable_def isize_max_def usize_bound_def)
  then show ?thesis
    using elf_fixture_bundle [of core] by (auto simp: elf_vmcore_file_def elf_vmcore_file_with_limits_def)
qed

lemma elf_fixture_range:
  assumes "map_of d core = Some elf_fixture"
  shows "core_range elf_vmcore_file allocation d core (Gpa 0x1000) 2 = Inr [0xaa, 0]"
proof -
  obtain b where b: "elf_vmcore_file (disk_fs d) core = Inr b" "segments b = [segment_new (Gpa 0x1000) [0xaa, 0]]"
    using elf_fixture_file [OF assms] by blast
  have "bundle_byte b (0x1000 + i) = Some ([0xaa, 0] ! i)" if "i < 2" for i
  proof -
    from that consider "i = 0" | "i = 1" by linarith
    then show ?thesis
      by cases (simp_all add: b(2) bundle_byte_def seg_end_eq seg_start_def segment_new_def range_new_def u64_of_usize_def)
  qed
  then have "read_bytes (bundle_read_into b) (Gpa 0x1000) 2 = Inr [0xaa, 0]"
    by (subst snap.read_bytes_Inr [OF elf_core.opened_ok [OF b(1)]]) (simp_all add: reservable_def isize_max_def)
  then show ?thesis
    using b(1) by (simp add: core_range_def read_bytes_def allocate_read_buffer_def reservable_def isize_max_def)
qed

end
