(* ===== verification/Driver_Libvirt.thy ===== *)
theory Driver_Libvirt
  imports Driver_Command
begin

text \<open>
  The crate \<open>vmi-driver-libvirt\<close>: a connector that controls a domain and acquires its memory through the
  \<open>virsh\<close> command. The transport is a trait, so the session works with any function from arguments to output that
  may change the outside world and the disk; the process transport is an instance of the bounded commands. Files are
  those of the disk model, and every file system call may fail as the environment record says.
\<close>

section \<open>The process transport (lib.rs)\<close>

definition COMMAND_OUTPUT_CAPACITY :: usize where
  "COMMAND_OUTPUT_CAPACITY = 1024 * 1024"

definition virsh_spec :: command_spec where
  "virsh_spec = \<lparr>command_name = ''virsh'', command_operation = ''libvirt command'',
     command_overrun = ''virsh read exceeded its buffer'', command_capacity = COMMAND_OUTPUT_CAPACITY\<rparr>"

definition process_transport_default :: process_transport where
  "process_transport_default = process_transport_new ''virsh''"

definition with_timeout :: "process_transport \<Rightarrow> nat \<Rightarrow> process_transport result" where
  "with_timeout t timeout =
     (if timeout = 0 then Inl (Backend ''virsh command timeout must be non-zero'')
      else Inr (t\<lparr>command_timeout := min timeout MAX_COMMAND_TIMEOUT\<rparr>))"

definition run_bounded_command ::
  "string \<Rightarrow> process_run \<Rightarrow> (exit_status \<times> u8 list \<times> u8 list) result option" where
  "run_bounded_command program run =
     (case start_command virsh_spec program run of
        Inl e \<Rightarrow> Some (Inl e)
      | Inr _ \<Rightarrow> finish_command virsh_spec run)"

definition process_execute :: "process_transport \<Rightarrow> process_run \<Rightarrow> string result option" where
  "process_execute t run =
     map_option (\<lambda>r. and_then r (command_text virsh_spec)) (run_bounded_command (executable t) run)"

section \<open>Sessions\<close>

text \<open>The connector and the session have the same fields; the host's state is added for the session.\<close>

record 'v libvirt_session =
  lv_descriptor :: provider_descriptor
  lv_target :: target_descriptor
  lv_transport :: "'v command_transport"
  lv_uri :: "string option"
  lv_world :: 'v
  lv_disk :: disk
  lv_sequence :: u64

definition libvirt_with_transport ::
  "flag_ops \<Rightarrow> string \<Rightarrow> guest_architecture \<Rightarrow> 'v command_transport \<Rightarrow> 'v \<Rightarrow> disk \<Rightarrow> u64 \<Rightarrow> 'v libvirt_session" where
  "libvirt_with_transport fl domain architecture transport world d sequence =
     \<lparr>lv_descriptor = provider_descriptor_new ''libvirt-qemu'' ''libvirt QEMU/KVM'' Experimental
        (from_caps fl [Control, Acquisition]),
      lv_target = target_descriptor_new domain (Some domain) architecture LiveBestEffort,
      lv_transport = transport, lv_uri = None, lv_world = world, lv_disk = d, lv_sequence = sequence\<rparr>"

definition with_uri :: "'v libvirt_session \<Rightarrow> string \<Rightarrow> 'v libvirt_session" where
  "with_uri c uri = c\<lparr>lv_uri := Some uri\<rparr>"

definition lv_execute :: "'v libvirt_session \<Rightarrow> string list \<Rightarrow> 'v libvirt_session \<times> string result" where
  "lv_execute s arguments =
     (let extra = (if lv_uri s \<noteq> None then 2 else 0) in
      case usize_checked_add (length arguments) extra of
        None \<Rightarrow> (s, Inl (Backend ''virsh argument count exceeds addressable memory''))
      | Some n \<Rightarrow>
          if \<not> reservable (24 * n) then
            (s, Inl (Backend (''failed to allocate virsh arguments: '' @ capacity_overflow)))
          else
            (case lv_transport s ((case lv_uri s of Some uri \<Rightarrow> [''--connect'', uri] | None \<Rightarrow> []) @ arguments)
                (lv_world s, lv_disk s) of
               ((w, d), r) \<Rightarrow> (s\<lparr>lv_world := w, lv_disk := d\<rparr>, r)))"

definition validate_argument :: "string \<Rightarrow> string \<Rightarrow> unit result" where
  "validate_argument v description =
     (if bad_argument v then
        Inl (Backend (''invalid '' @ description))
      else Inr ())"

definition is_qemu_domain :: "string \<Rightarrow> bool" where
  "is_qemu_domain xml =
     list_ex (\<lambda>marker. str_contains marker xml)
       [''type='' @ [CHR 0x27] @ ''kvm'' @ [CHR 0x27], ''type='' @ [CHR 0x22] @ ''kvm'' @ [CHR 0x22],
        ''type='' @ [CHR 0x27] @ ''qemu'' @ [CHR 0x27], ''type='' @ [CHR 0x22] @ ''qemu'' @ [CHR 0x22]]"

definition domain_state :: "string \<Rightarrow> execution_state" where
  "domain_state output_text =
     (let state = to_ascii_lowercase (trim output_text) in
      if state \<in> {''running'', ''idle'', ''blocked''} then Running
      else if state \<in> {''paused'', ''pmsuspended''} then Paused
      else if state \<in> {''shut off'', ''shutdown'', ''crashed''} then Shutdown
      else UnknownState)"

definition lv_execution_state :: "'v libvirt_session \<Rightarrow> 'v libvirt_session \<times> execution_state result" where
  "lv_execution_state s =
     (case lv_execute s [''domstate'', target_id (lv_target s)] of
        (s', r) \<Rightarrow> (s', and_then r (\<lambda>txt. Inr (domain_state txt))))"

definition lv_pause :: "'v libvirt_session \<Rightarrow> 'v libvirt_session \<times> unit result" where
  "lv_pause s = (case lv_execute s [''suspend'', target_id (lv_target s)] of (s', r) \<Rightarrow> (s', and_then r (\<lambda>_. Inr ())))"

definition lv_resume :: "'v libvirt_session \<Rightarrow> 'v libvirt_session \<times> unit result" where
  "lv_resume s = (case lv_execute s [''resume'', target_id (lv_target s)] of (s', r) \<Rightarrow> (s', and_then r (\<lambda>_. Inr ())))"

section \<open>Acquisition\<close>

fun next_sequence :: "u64 \<Rightarrow> u64 list \<Rightarrow> (u64 \<times> u64) result" where
  "next_sequence sequence [] =
     and_then (ok_or (checked_add sequence 1) (Backend ''libvirt temporary sequence exhausted'')) (\<lambda>next.
       Inr (sequence, next))"
| "next_sequence sequence (seen # observed) =
     and_then (ok_or (checked_add sequence 1) (Backend ''libvirt temporary sequence exhausted'')) (\<lambda>_.
       next_sequence seen observed)"

text \<open>The temporary path and the new value of the counter.\<close>

definition temporary_core_path :: "host_env \<Rightarrow> string \<Rightarrow> u64 \<Rightarrow> u64 \<times> string result" where
  "temporary_core_path env path counter =
     (let parent = (case path_parent path of Some p \<Rightarrow> p | None \<Rightarrow> ''.'') in
      case Option.bind (path_file_name path) path_to_str of
        None \<Rightarrow> (counter, Inl (Backend ''libvirt output filename is not UTF-8''))
      | Some name \<Rightarrow>
          (case next_sequence counter (env_observed env) of
             Inl e \<Rightarrow> (counter, Inl e)
           | Inr (sequence, counter') \<Rightarrow>
               (counter', and_then (map_err (\<lambda>e. Backend (''system clock precedes epoch: '' @ e)) (env_clock env)) (\<lambda>nanos.
                 Inr (path_join parent (''.'' @ name @ ''.libvirt-'' @ dec (unat (env_pid env)) @ ''-'' @ dec nanos
                   @ ''-'' @ dec (unat sequence) @ ''.core''))))))"

definition publish_new :: "host_env \<Rightarrow> string \<Rightarrow> u8 list \<Rightarrow> disk \<Rightarrow> disk \<times> unit result" where
  "publish_new env path bytes d =
     (case disk_create_new (env_create env) path d of
        (d1, Inl e) \<Rightarrow> (d1, Inl (Backend (''failed to create '' @ path @ '': '' @ e)))
      | (d1, Inr _) \<Rightarrow>
          (case disk_write_all (env_write env) path bytes d1 of
             (d2, r) \<Rightarrow>
               (case and_then r (\<lambda>_. case env_sync env of Some e \<Rightarrow> Inl e | None \<Rightarrow> Inr ()) of
                  Inl e \<Rightarrow>
                    (fst (disk_remove_file (env_discard env) path d2),
                     Inl (Backend (''failed to publish '' @ path @ '': '' @ e)))
                | Inr _ \<Rightarrow> (d2, Inr ()))))"

definition dump_arguments :: "'v libvirt_session \<Rightarrow> string \<Rightarrow> string list" where
  "dump_arguments s destination =
     [''dump'', target_id (lv_target s), destination, ''--memory-only'', ''--live'', ''--format'', ''elf'']"

definition lv_save_snapshot :: "host_env \<Rightarrow> 'v libvirt_session \<Rightarrow> string \<Rightarrow> 'v libvirt_session \<times> unit result" where
  "lv_save_snapshot env s path =
     (case ensure_output_absent env (lv_disk s) path ''libvirt core'' of
        Inl e \<Rightarrow> (s, Inl e)
      | Inr _ \<Rightarrow>
          (case path_to_str path of
             None \<Rightarrow> (s, Inl (Backend ''libvirt core path is not UTF-8''))
           | Some destination \<Rightarrow>
               (case lv_execute s (dump_arguments s destination) of
                  (s1, Inl e) \<Rightarrow> (s1, Inl e)
                | (s1, Inr _) \<Rightarrow>
                    (s1, if map_of (lv_disk s1) path = None then
                       Inl (Backend ''virsh reported success without creating the core'')
                     else Inr ()))))"

definition range_bytes :: "disk \<Rightarrow> string \<Rightarrow> gpa \<Rightarrow> usize \<Rightarrow> u8 list result" where
  "range_bytes = core_range elf_vmcore_file ''failed to allocate range: ''"

text \<open>The closure between the choice of the temporary path and its removal.\<close>

definition acquire_range ::
  "host_env \<Rightarrow> 'v libvirt_session \<Rightarrow> string \<Rightarrow> string \<Rightarrow> gpa \<Rightarrow> usize \<Rightarrow> 'v libvirt_session \<times> unit result" where
  "acquire_range env s temporary path start len =
     (case lv_save_snapshot env s temporary of
        (s1, Inl e) \<Rightarrow> (s1, Inl e)
      | (s1, Inr _) \<Rightarrow>
          (case range_bytes (lv_disk s1) temporary start len of
             Inl e \<Rightarrow> (s1, Inl e)
           | Inr bytes \<Rightarrow>
               (case publish_new env path bytes (lv_disk s1) of (d, r) \<Rightarrow> (s1\<lparr>lv_disk := d\<rparr>, r))))"

definition lv_save_physical_range ::
  "host_env \<Rightarrow> 'v libvirt_session \<Rightarrow> string \<Rightarrow> gpa \<Rightarrow> u64 \<Rightarrow> 'v libvirt_session \<times> unit result" where
  "lv_save_physical_range env s path start len =
     (if len = 0 then (s, Inl (Backend ''libvirt acquisition length must be non-zero''))
      else if checked_add (gpa_raw start) len = None then
        (s, Inl (Backend ''libvirt acquisition physical range overflows''))
      else
        (case and_then (ok_or (usize_of_u64 len) (Backend ''requested libvirt range is too large'')) (\<lambda>n.
            and_then (ensure_output_absent env (lv_disk s) path ''libvirt range'') (\<lambda>_. Inr n)) of
           Inl e \<Rightarrow> (s, Inl e)
         | Inr n \<Rightarrow>
             (case temporary_core_path env path (lv_sequence s) of
                (counter, Inl e) \<Rightarrow> (s\<lparr>lv_sequence := counter\<rparr>, Inl e)
              | (counter, Inr temporary) \<Rightarrow>
                  (case acquire_range env (s\<lparr>lv_sequence := counter\<rparr>) temporary path start n of
                     (s1, r) \<Rightarrow>
                       (case disk_remove_file (env_cleanup env) temporary (lv_disk s1) of
                          (d, cleanup) \<Rightarrow>
                            (s1\<lparr>lv_disk := d\<rparr>,
                             (case (r, cleanup) of
                                (Inl e, _) \<Rightarrow> Inl e
                              | (Inr _, Inr _) \<Rightarrow> Inr ()
                              | (Inr _, Inl e) \<Rightarrow>
                                  if env_cleanup env = None then Inr ()
                                  else Inl (Backend (''failed to remove temporary libvirt core: '' @ e)))))))))"

section \<open>The connector\<close>

text \<open>
  \<open>execution_state\<close> only asks: the state that the query leaves is not part of the session interface.
\<close>

definition libvirt_session_ops :: "host_env \<Rightarrow> 'v libvirt_session session" where
  "libvirt_session_ops env =
     \<lparr>provider = lv_descriptor, target = lv_target, capabilities = (\<lambda>s. provider_capabilities (lv_descriptor s)),
      memory_impl = None, memory_write_impl = None, cpu_impl = None,
      control_impl = Some (\<lambda>_. Inr \<lparr>execution_state_of = (\<lambda>s. snd (lv_execution_state s)),
        pause = lv_pause, resume = lv_resume\<rparr>),
      events_impl = None, views_impl = None,
      acquisition_impl = Some (\<lambda>_. Inr \<lparr>save_physical_range = lv_save_physical_range env,
        save_snapshot = lv_save_snapshot env\<rparr>),
      lifecycle_impl = None\<rparr>"

definition libvirt_connect ::
  "flag_ops \<Rightarrow> host_env \<Rightarrow> 'v libvirt_session \<Rightarrow> attach_request \<Rightarrow>
   ('v libvirt_session session \<times> 'v libvirt_session) result" where
  "libvirt_connect fl env c request =
     and_then (validate_argument (target_id (lv_target c)) ''libvirt domain'') (\<lambda>_.
     and_then (case lv_uri c of Some uri \<Rightarrow> validate_argument uri ''libvirt URI'' | None \<Rightarrow> Inr ()) (\<lambda>_.
     let missing = difference_of fl (required_capabilities request) (provider_capabilities (lv_descriptor c)) in
     if \<not> fl_is_empty fl (cap_bits missing) then Inl (AttachRejected (provider_id (lv_descriptor c)) missing)
     else
       and_then
         (case request_selector request of
            NamedTarget expected \<Rightarrow>
              if expected \<noteq> target_id (lv_target c) then
                Inl (Backend (''libvirt domain '' @ expected @ '' does not match '' @ target_id (lv_target c)))
              else Inr ()
          | AnyTarget \<Rightarrow> Inr ()) (\<lambda>_.
       case lv_execute c [''dumpxml'', target_id (lv_target c)] of
         (s1, r) \<Rightarrow>
           and_then r (\<lambda>xml.
           if \<not> is_qemu_domain xml then Inl (Backend ''libvirt domain is not a QEMU/KVM domain'')
           else
             (case lv_execution_state s1 of (s2, st) \<Rightarrow> and_then st (\<lambda>_. Inr (libvirt_session_ops env, s2)))))))"

section \<open>Acquired ranges\<close>

lemma publish_new_Inr:
  assumes "publish_new env path bytes d = (d', Inr ())"
  shows "map_of d path = None \<and> map_of d' = (map_of d)(path \<mapsto> bytes)"
  using assms
  by (auto simp: publish_new_def disk_create_new_def disk_write_all_def update_conv'
      split: option.splits if_splits sum.splits prod.splits)

lemma acquire_range_Inr:
  assumes "acquire_range env s temporary path start len = (s', Inr ())"
  obtains s1 b bytes where "lv_save_snapshot env s temporary = (s1, Inr ())"
    "elf_vmcore_file (disk_fs (lv_disk s1)) temporary = Inr b" "length bytes = len"
    "\<forall>i < len. bundle_byte b (unat (gpa_raw start) + i) = Some (bytes ! i)"
    "map_of (lv_disk s1) path = None" "map_of (lv_disk s') = (map_of (lv_disk s1))(path \<mapsto> bytes)"
proof -
  obtain s1 bytes d where run: "lv_save_snapshot env s temporary = (s1, Inr ())"
      "range_bytes (lv_disk s1) temporary start len = Inr bytes"
      "publish_new env path bytes (lv_disk s1) = (d, Inr ())" "s' = s1\<lparr>lv_disk := d\<rparr>"
    using assms by (auto simp: acquire_range_def split: prod.splits sum.splits)
  from elf_core.core_range_Inr [OF run(2) [unfolded range_bytes_def]] publish_new_Inr [OF run(3)] run(1,4) show thesis
    by (auto intro: that)
qed

section \<open>Properties\<close>

text \<open>
  C30: The bounded capture of a command's output. However the two reader threads interleave, however the pipes
  deliver their data and however often the exchange on the shared counter fails and is retried on the value the
  other reader left, never more than the budget is captured;
  and when the command succeeds its result is the complete content of both streams.
\<close>

theorem command_output_complete:
  assumes "(capture_step virsh_spec)\<^sup>*\<^sup>* (capture_start out err) (run_capture run)"
  shows "captured (run_capture run) =
      length (pipe_output (stdout_pipe (run_capture run))) + length (pipe_output (stderr_pipe (run_capture run))) \<and>
    captured (run_capture run) \<le> COMMAND_OUTPUT_CAPACITY \<and>
    (\<forall>status o_bytes e_bytes. run_bounded_command program run = Some (Inr (status, o_bytes, e_bytes)) \<longrightarrow>
      stream_content out = Inr o_bytes \<and> stream_content err = Inr e_bytes \<and>
      length o_bytes + length e_bytes \<le> COMMAND_OUTPUT_CAPACITY)"
proof -
  have cap: "reservable (command_capacity virsh_spec)" "command_capacity virsh_spec = COMMAND_OUTPUT_CAPACITY"
    by (simp_all add: virsh_spec_def COMMAND_OUTPUT_CAPACITY_def reservable_def isize_max_def)
  have "stream_content out = Inr o_bytes \<and> stream_content err = Inr e_bytes \<and>
      length o_bytes + length e_bytes \<le> COMMAND_OUTPUT_CAPACITY"
    if "run_bounded_command program run = Some (Inr (status, o_bytes, e_bytes))" for status o_bytes e_bytes
  proof -
    have "finish_command virsh_spec run = Some (Inr (status, o_bytes, e_bytes))"
      using that by (simp add: run_bounded_command_def split: sum.splits)
    from finish_command_complete [OF assms cap(1) this] show ?thesis by (simp add: cap(2))
  qed
  moreover have "capture_ok virsh_spec out err (run_capture run)" by (rule capture_reachable_ok [OF assms cap(1)])
  ultimately show ?thesis by (simp add: capture_ok_def cap(2))
qed

theorem command_output_complete_witness:
  "\<exists>run. (capture_step virsh_spec)\<^sup>*\<^sup>* (capture_start [Interrupted, Chunk [1]] []) (run_capture run) \<and>
     run_bounded_command ''virsh'' run =
       Some (Inr (\<lparr>exit_success = True, exit_text = ''exit status: 0''\<rparr>, [1], [])) \<and>
     stream_content [Interrupted, Chunk [1]] = Inr [1]"
proof -
  let ?c0 = "capture_start [Interrupted, Chunk [1]] []"
  let ?done = "\<lambda>bs. \<lparr>pipe_source = [], pipe_output = bs, pipe_result = Some (Inr bs)\<rparr>"
  let ?c1 = "\<lparr>captured = 1, exceeded = False,
     stdout_pipe = \<lparr>pipe_source = [], pipe_output = [1], pipe_result = None\<rparr>, stderr_pipe = pipe_start []\<rparr>"
  let ?c2 = "\<lparr>captured = 1, exceeded = False, stdout_pipe = ?done [1], stderr_pipe = pipe_start []\<rparr>"
  let ?c3 = "\<lparr>captured = 1, exceeded = False, stdout_pipe = ?done [1], stderr_pipe = ?done []\<rparr>"
  have "read_retry [Chunk [1]] 8192 = ([], Inr [1])" by (subst read_retry.simps) simp
  then have read: "read_retry [Interrupted, Chunk [1]] 8192 = ([], Inr [1])" "read_retry [] 8192 = ([], Inr [])"
    by (subst read_retry.simps, simp)+
  have "capture_step virsh_spec ?c0 ?c1"
    using capture_step.stdout [of ?c0 0 "[0]" virsh_spec "stdout_pipe ?c1" 1 False]
    by (simp add: counter_history_def capture_start_def pipe_start_def pipe_step_def read usize_checked_add_def usize_bound_def
        virsh_spec_def COMMAND_OUTPUT_CAPACITY_def reservable_def isize_max_def)
  moreover have "capture_step virsh_spec ?c1 ?c2"
    using capture_step.stdout [of ?c1 1 "[]" virsh_spec "?done [1]" 1 False]
    by (simp add: counter_history_def pipe_step_def read)
  moreover have "capture_step virsh_spec ?c2 ?c3"
    using capture_step.stderr [of ?c2 1 "[]" virsh_spec "?done []" 1 False]
    by (simp add: counter_history_def pipe_start_def pipe_step_def read)
  ultimately have reach: "(capture_step virsh_spec)\<^sup>*\<^sup>* ?c0 ?c3"
    by (meson converse_rtranclp_into_rtranclp rtranclp.rtrancl_refl)
  let ?st = "\<lparr>exit_success = True, exit_text = ''exit status: 0''\<rparr>"
  define run where "run = \<lparr>run_spawn = None, run_stdout_thread = None, run_stderr_thread = None,
    run_polls = [\<lparr>poll_wait = Inr (Some ?st), poll_exceeded = False, poll_deadline = False\<rparr>], run_capture = ?c3\<rparr>"
  have "run_bounded_command ''virsh'' run = Some (Inr (?st, [1], []))"
    by (simp add: run_def run_bounded_command_def start_command_def finish_command_def join_reader_def)
  moreover have reach': "(capture_step virsh_spec)\<^sup>*\<^sup>* ?c0 (run_capture run)"
    using reach by (simp add: run_def)
  ultimately show ?thesis
    using command_output_complete [OF reach', of "''virsh''"] by blast
qed

text \<open>
  C29: Acquiring a physical range through libvirt. An existing destination is never touched: the call fails and
  changes nothing. When the call succeeds, the new file contains exactly the bytes of the requested range in
  the memory image that virsh dumped, the destination did not exist when it was created, the temporary core is gone
  and every other file is as virsh left it, whatever file system calls fail in between.
\<close>

theorem libvirt_range_exact:
  assumes "lv_save_physical_range env s path start len = (s', r)"
  shows "(map_of (lv_disk s) path \<noteq> None \<longrightarrow> s' = s \<and> r \<noteq> Inr ()) \<and>
    (r = Inr () \<longrightarrow> (\<exists>counter temporary s1 b bytes.
       temporary_core_path env path (lv_sequence s) = (counter, Inr temporary) \<and>
       lv_save_snapshot env (s\<lparr>lv_sequence := counter\<rparr>) temporary = (s1, Inr ()) \<and>
       elf_vmcore_file (disk_fs (lv_disk s1)) temporary = Inr b \<and> length bytes = unat len \<and>
       (\<forall>i < unat len. bundle_byte b (unat (gpa_raw start) + i) = Some (bytes ! i)) \<and>
       map_of (lv_disk s1) path = None \<and>
       map_of (lv_disk s') = (map_of (lv_disk s1))(path \<mapsto> bytes, temporary := None)))"
proof (intro conjI impI)
  assume "map_of (lv_disk s) path \<noteq> None"
  then obtain e where "ensure_output_absent env (lv_disk s) path ''libvirt range'' = Inl e"
    by (cases "env_inspect env path") (auto simp: ensure_output_absent_def)
  then have "s' = s \<and> r \<noteq> Inr ()"
    using assms by (auto simp: lv_save_physical_range_def split: if_splits)
  then show "s' = s" "r \<noteq> Inr ()" by blast+
next
  assume r: "r = Inr ()"
  obtain counter temporary s1 d cleanup where
      temp: "temporary_core_path env path (lv_sequence s) = (counter, Inr temporary)" and
      acq: "acquire_range env (s\<lparr>lv_sequence := counter\<rparr>) temporary path start (unat len) = (s1, Inr ())" and
      rm: "disk_remove_file (env_cleanup env) temporary (lv_disk s1) = (d, cleanup)" and
      s': "s' = s1\<lparr>lv_disk := d\<rparr>" "cleanup = Inr () \<or> env_cleanup env = None"
    using assms r
    by (auto simp: lv_save_physical_range_def split: if_splits sum.splits prod.splits)
  from acquire_range_Inr [OF acq] obtain s0 b bytes where
    "lv_save_snapshot env (s\<lparr>lv_sequence := counter\<rparr>) temporary = (s0, Inr ())"
    "elf_vmcore_file (disk_fs (lv_disk s0)) temporary = Inr b" "length bytes = unat len"
    "\<forall>i < unat len. bundle_byte b (unat (gpa_raw start) + i) = Some (bytes ! i)"
    "map_of (lv_disk s0) path = None" "map_of (lv_disk s1) = (map_of (lv_disk s0))(path \<mapsto> bytes)" .
  moreover have "map_of (lv_disk s') = (map_of (lv_disk s1))(temporary := None)"
    using disk_remove_Inr [OF rm s'(2)] s'(1) by simp
  ultimately show "\<exists>counter temporary s1 b bytes.
       temporary_core_path env path (lv_sequence s) = (counter, Inr temporary) \<and>
       lv_save_snapshot env (s\<lparr>lv_sequence := counter\<rparr>) temporary = (s1, Inr ()) \<and>
       elf_vmcore_file (disk_fs (lv_disk s1)) temporary = Inr b \<and> length bytes = unat len \<and>
       (\<forall>i < unat len. bundle_byte b (unat (gpa_raw start) + i) = Some (bytes ! i)) \<and>
       map_of (lv_disk s1) path = None \<and>
       map_of (lv_disk s') = (map_of (lv_disk s1))(path \<mapsto> bytes, temporary := None)"
    using temp by auto
qed

text \<open>A transport that dumps the sample core whatever it is asked.\<close>

definition sample_transport :: "unit command_transport" where
  "sample_transport arguments host = (((), AList.update (arguments ! 2) elf_fixture (snd host)), Inr [])"

definition sample_domain :: "unit libvirt_session" where
  "sample_domain = libvirt_with_transport plain_flags ''vm'' Amd64 sample_transport () [] 0"

theorem libvirt_range_exact_witness:
  "\<exists>s'. lv_save_physical_range sample_env sample_domain ''out'' (Gpa 0x1000) 2 = (s', Inr ()) \<and>
     map_of (lv_disk s') ''out'' = Some [0xaa, 0]"
proof -
  let ?t = "''.out.libvirt-7-9-0.core''"
  have temp: "temporary_core_path sample_env ''out'' 0 = (1, Inr ?t)"
    by (simp add: temporary_core_path_def sample_env_def path_parent_def path_file_name_def path_components_def
        path_to_str_ascii is_absolute_def starts_with_def checked_add_def path_join_def dec_def fmt_radix.simps digit_char_def)
  define s1 where "s1 = sample_domain\<lparr>lv_sequence := 1, lv_disk := [(?t, elf_fixture)]\<rparr>"
  have snap: "lv_save_snapshot sample_env (sample_domain\<lparr>lv_sequence := 1\<rparr>) ?t = (s1, Inr ())"
    by (simp add: lv_save_snapshot_def path_to_str_ascii ensure_output_absent_def sample_env_def sample_domain_def lv_execute_def
        libvirt_with_transport_def sample_transport_def dump_arguments_def usize_checked_add_def usize_bound_def
        reservable_def isize_max_def s1_def)
  have "range_bytes (lv_disk s1) ?t (Gpa 0x1000) 2 = Inr [0xaa, 0]"
    unfolding range_bytes_def by (rule elf_fixture_range) (simp add: s1_def)
  then have acq: "acquire_range sample_env (sample_domain\<lparr>lv_sequence := 1\<rparr>) ?t ''out'' (Gpa 0x1000) 2 =
      (s1\<lparr>lv_disk := [(?t, elf_fixture), (''out'', [0xaa, 0])]\<rparr>, Inr ())"
    using snap by (simp add: acquire_range_def publish_new_def disk_create_new_def disk_write_all_def sample_env_def s1_def)
  have run: "lv_save_physical_range sample_env sample_domain ''out'' (Gpa 0x1000) 2 =
      (s1\<lparr>lv_disk := [(''out'', [0xaa, 0])]\<rparr>, Inr ())"
    using temp acq
    by (simp add: lv_save_physical_range_def checked_add_def ensure_output_absent_def disk_remove_file_def)
      (simp add: sample_env_def sample_domain_def libvirt_with_transport_def disk_remove_file_def)
  from libvirt_range_exact [OF run] run show ?thesis by auto
qed

end
