(* ===== verification/Std_Format.thy ===== *)
theory Std_Format
  imports Std_Text
begin

text \<open>
  Lemmas on text that the drivers print and parse: numbers written in a radix read back, ASCII text splits into
  its characters, has nothing to trim, and lines are found again.
\<close>

section \<open>Numbers\<close>

lemma digit_cases: "d < 16 \<Longrightarrow> d \<in> {0, 1, 2, 3, 4, 5, 6, 7, 8, 9, 10, 11, 12, 13, 14, 15 :: nat}"
  by simp presburger

lemma to_digit_char: "d < 16 \<Longrightarrow> d < radix \<Longrightarrow> radix \<le> 16 \<Longrightarrow> to_digit radix (digit_char d) = Some d"
  using digit_cases [of d] by (auto simp: to_digit_def digit_char_def)

lemma radix_loop_append:
  "radix_loop radix acc (xs @ ys) = and_then (radix_loop radix acc xs) (\<lambda>a. radix_loop radix a ys)"
  by (induction xs arbitrary: acc) (simp_all add: and_then_assoc)

lemma radix_step:
  assumes "2 \<le> radix" "radix \<le> 16" "d < radix" "n * radix + d < 2 ^ 64"
  shows "radix_loop radix (of_nat n) [digit_char d] = Inr (of_nat (n * radix + d))"
proof -
  have "n * radix < 2 ^ 64" "n \<le> n * radix" using assms by simp_all
  then have "n < 2 ^ 64" by linarith
  then have "unat (of_nat n :: u64) = n" "unat (of_nat radix :: u64) = radix" "unat (of_nat d :: u64) = d"
    using assms by (simp_all add: unat_of_nat)
  moreover have "unat (of_nat n * of_nat radix :: u64) = n * radix"
    using \<open>n * radix < 2 ^ 64\<close> by (simp flip: of_nat_mult add: unat_of_nat)
  ultimately show ?thesis
    using assms to_digit_char [of d radix] \<open>n * radix < 2 ^ 64\<close>
    by (simp add: checked_mul_def checked_add_def)
qed

lemma radix_loop_fmt:
  assumes "2 \<le> radix" "radix \<le> 16" "n < 2 ^ 64"
  shows "radix_loop radix 0 (fmt_radix radix n) = Inr (of_nat n)"
  using assms
proof (induction radix n rule: fmt_radix.induct)
  case (1 radix n)
  show ?case
  proof (cases "n < radix")
    case True
    then show ?thesis using 1(2-) radix_step [of radix n 0] by (simp add: fmt_radix.simps)
  next
    case False
    then have "n div radix < 2 ^ 64"
      using 1(4) by (meson div_le_dividend le_less_trans)
    then have "radix_loop radix 0 (fmt_radix radix (n div radix)) = Inr (of_nat (n div radix))"
      using 1 False by simp
    moreover have "radix_loop radix (of_nat (n div radix)) [digit_char (n mod radix)] = Inr (of_nat n)"
      using radix_step [of radix "n mod radix" "n div radix"] 1(2-) by simp
    ultimately show ?thesis
      using False 1(2) by (subst fmt_radix.simps) (simp add: radix_loop_append)
  qed
qed

lemma radix_loop_zeros:
  assumes "2 \<le> radix" "radix \<le> 16"
  shows "radix_loop radix 0 (replicate k CHR ''0'' @ s) = radix_loop radix 0 s"
  using assms by (induction k) (simp_all add: to_digit_def checked_mul_def checked_add_def)

lemma fmt_radix_digits:
  assumes "2 \<le> radix" "radix \<le> 16"
  shows "set (fmt_radix radix n) \<subseteq> digit_char ` {..<16}"
  using assms
proof (induction radix n rule: fmt_radix.induct)
  case (1 radix n)
  have "n mod radix < 16" using 1(2,3) by (meson less_le_trans mod_less_divisor zero_less_numeral order_less_le_trans)
  then show ?case using 1 by (subst fmt_radix.simps) auto
qed

lemma fmt_radix_nonempty [simp]: "fmt_radix radix n \<noteq> []"
  by (subst fmt_radix.simps) simp

lemma digit_char_range: "c \<in> digit_char ` {..<16} \<Longrightarrow> 48 \<le> (of_char c :: nat) \<and> of_char c < (128 :: nat)"
proof -
  assume "c \<in> digit_char ` {..<16}"
  then obtain d where "d < 16" "c = digit_char d" by blast
  then show ?thesis using digit_cases [of d] by (auto simp: digit_char_def)
qed

lemma from_str_radix_plain: "s \<noteq> [] \<Longrightarrow> CHR ''+'' \<notin> set s \<Longrightarrow> from_str_radix radix s = radix_loop radix 0 s"
  by (cases s) (auto simp: from_str_radix_def)

section \<open>ASCII text\<close>

definition ascii :: "string \<Rightarrow> bool" where
  "ascii s \<longleftrightarrow> (\<forall>c \<in> set s. of_char c < (128 :: nat))"

lemma utf8_chars_ascii: "ascii s \<Longrightarrow> utf8_chars s = map (\<lambda>c. [c]) s"
proof (induction s)
  case (Cons c cs)
  then have "utf8_width (of_nat (of_char c)) = 1"
    by (simp add: ascii_def utf8_width_def word_less_nat_alt unat_of_nat)
  then show ?case using Cons by (simp add: ascii_def)
qed simp

definition printing :: "string \<Rightarrow> bool" where
  "printing s \<longleftrightarrow> (\<forall>c \<in> set s. 32 < (of_char c :: nat) \<and> of_char c < (128 :: nat))"

lemma printing_simps [simp]:
  "printing []" "printing (c # cs) \<longleftrightarrow> 32 < (of_char c :: nat) \<and> of_char c < (128 :: nat) \<and> printing cs"
  "printing (xs @ ys) \<longleftrightarrow> printing xs \<and> printing ys"
  by (auto simp: printing_def)

lemma printing_ascii: "printing s \<Longrightarrow> ascii s"
  by (simp add: printing_def ascii_def)

lemma printing_no_space: "printing s \<Longrightarrow> \<forall>c \<in> set s. \<not> is_whitespace [c]"
  by (auto simp: printing_def is_whitespace_single)

lemma concat_singletons: "concat (map (\<lambda>c. [c]) s) = s"
  by (induction s) auto

lemma dropWhile_none: "\<forall>x \<in> set xs. \<not> P x \<Longrightarrow> dropWhile P xs = xs"
  by (cases xs) auto

lemma trim_printing: "printing s \<Longrightarrow> trim s = s"
  using printing_no_space [of s]
  by (simp add: trim_def utf8_chars_ascii printing_ascii dropWhile_none concat_singletons)

lemma fmt_radix_printing: "2 \<le> radix \<Longrightarrow> radix \<le> 16 \<Longrightarrow> printing (fmt_radix radix n)"
  using fmt_radix_digits [of radix n] digit_char_range unfolding printing_def by fastforce

lemma str_lines_line:
  assumes "printing l"
  shows "str_lines (l @ CHR 0x0A # rest) = l # str_lines rest"
proof -
  have "\<forall>c \<in> set l. of_char c \<noteq> (10 :: nat) \<and> of_char c \<noteq> (13 :: nat)"
    using assms by (auto simp: printing_def)
  moreover have "lines_loop acc (l @ CHR 0x0A # rest) = strip_cr (acc @ l) # lines_loop [] rest"
    if "\<forall>c \<in> set l. of_char c \<noteq> (10 :: nat)" for acc
    using that by (induction l arbitrary: acc) simp_all
  moreover have "strip_cr l = l" if "\<forall>c \<in> set l. of_char c \<noteq> (13 :: nat)"
    using that by (cases l rule: rev_cases) (auto simp: strip_cr_def)
  ultimately show ?thesis by (simp add: str_lines_def)
qed

end
