(* ===== verification/Driver_Core_Dump.thy ===== *)
theory Driver_Core_Dump
  imports Driver_Command Std_Format
begin

text \<open>
  What \<open>vmi-driver-virtualbox\<close> and \<open>vmi-driver-xen\<close> have in common: a session that runs a command,
  acquires a physical range by dumping a core to a temporary file and publishes it atomically. The crates
  repeat this code with their own name in the texts, which is the first argument of the definitions here; the lines
  mapped are those of the VirtualBox crate.
\<close>

section \<open>Sessions that run a command\<close>

text \<open>The crates' sessions extend this record with their optional transports.\<close>

record 'v command_session =
  cs_descriptor :: provider_descriptor
  cs_target :: target_descriptor
  cs_transport :: "'v command_transport"
  cs_world :: 'v
  cs_disk :: disk
  cs_core_sequence :: u64
  cs_range_sequence :: u64

definition session_execute ::
  "string \<Rightarrow> ('v, 'm) command_session_scheme \<Rightarrow> string list \<Rightarrow> ('v, 'm) command_session_scheme \<times> string result" where
  "session_execute command s arguments =
     (if \<not> reservable (24 * length arguments) then
        (s, Inl (Backend (''failed to allocate '' @ command @ '' arguments: '' @ capacity_overflow)))
      else if \<exists>a \<in> set arguments. \<not> reservable (length a) then
        (s, Inl (Backend (''failed to allocate '' @ command @ '' argument: '' @ capacity_overflow)))
      else
        (case cs_transport s arguments (cs_world s, cs_disk s) of
           ((w, d), r) \<Rightarrow> (s\<lparr>cs_world := w, cs_disk := d\<rparr>, r)))"

definition try_decimal_u32 :: "u32 \<Rightarrow> string \<Rightarrow> string result" where
  "try_decimal_u32 v description =
     (if \<not> reservable 10 then Inl (Backend (''failed to allocate '' @ description @ '': '' @ capacity_overflow))
      else Inr (dec (unat v)))"

definition is_ascii_alphanumeric :: "char \<Rightarrow> bool" where
  "is_ascii_alphanumeric c \<longleftrightarrow> (let n = of_char c :: nat in 48 \<le> n \<and> n \<le> 57 \<or> 65 \<le> n \<and> n \<le> 90 \<or> 97 \<le> n \<and> n \<le> 122)"

definition valid_register :: "string \<Rightarrow> bool" where
  "valid_register r \<longleftrightarrow> r \<noteq> [] \<and> list_all is_ascii_alphanumeric r"

definition strip_hex_prefix :: "string \<Rightarrow> string" where
  "strip_hex_prefix v = (if starts_with v ''0x'' \<or> starts_with v ''0X'' then drop 2 v else v)"

section \<open>Temporary cores\<close>

text \<open>
  \<open>PathBuf::set_extension\<close>: the path is cut after the stem of its file name, which drops trailing separators and
  current directories too; a path without a file name is left alone.
\<close>

definition file_stem :: "string \<Rightarrow> string" where
  "file_stem name =
     (let n = length (takeWhile (\<lambda>c. c \<noteq> CHR ''.'') (rev name)) in
      if name = ''..'' \<or> n = length name then name
      else let before = take (length name - n - 1) name in if before = [] then name else before)"

fun strip_tail_rev :: "string \<Rightarrow> string" where
  "strip_tail_rev [] = []"
| "strip_tail_rev (c # r) =
     (if c = CHR ''/'' \<or> c = CHR ''.'' \<and> r \<noteq> [] \<and> hd r = CHR ''/'' then strip_tail_rev r else c # r)"

definition path_set_extension :: "string \<Rightarrow> string \<Rightarrow> string" where
  "path_set_extension p extension =
     (case path_file_name p of
        None \<Rightarrow> p
      | Some name \<Rightarrow>
          let whole = rev (strip_tail_rev (rev p)) in
          take (length whole - length name + length (file_stem name)) whole @
            (if extension = [] then [] else ''.'' @ extension))"

definition try_with_extension :: "string \<Rightarrow> string \<Rightarrow> string \<Rightarrow> string result" where
  "try_with_extension destination extension description =
     and_then (ok_or (Option.bind (usize_checked_add (length destination) (length extension)) (\<lambda>n. usize_checked_add n 1))
       (Backend (description @ '' path length overflow''))) (\<lambda>cap.
     if \<not> reservable cap then
       Inl (Backend (''failed to allocate '' @ description @ '' path: '' @ capacity_overflow))
     else Inr (path_set_extension destination extension))"

definition core_dump_path ::
  "string \<Rightarrow> host_env \<Rightarrow> string \<Rightarrow> ('v, 'm) command_session_scheme \<Rightarrow> ('v, 'm) command_session_scheme \<times> string result" where
  "core_dump_path name env destination s =
     (let nonce = (case env_clock env of Inr n \<Rightarrow> n | Inl _ \<Rightarrow> 0) in
      case next_temp_id (name @ '' temporary core'') (cs_core_sequence s) (env_observed env) of
        Inl e \<Rightarrow> (s, Inl e)
      | Inr (sequence, counter) \<Rightarrow>
          (s\<lparr>cs_core_sequence := counter\<rparr>,
           if \<not> reservable 73 then
             Inl (Backend (''failed to allocate '' @ name @ '' core extension: '' @ capacity_overflow))
           else
             try_with_extension destination
               (''vmi-'' @ dec (unat (env_pid env)) @ ''-'' @ dec nonce @ ''-'' @ dec (unat sequence) @ ''.core'')
               (name @ '' temporary core'')))"

definition finish_temporary_core ::
  "string \<Rightarrow> host_env \<Rightarrow> string \<Rightarrow> unit result \<Rightarrow> ('v, 'm) command_session_scheme \<Rightarrow>
   ('v, 'm) command_session_scheme \<times> unit result" where
  "finish_temporary_core name env path r s =
     (case disk_remove_file (env_cleanup env) path (cs_disk s) of
        (d, removed) \<Rightarrow>
          (s\<lparr>cs_disk := d\<rparr>,
           (case (r, removed) of
              (Inl e, _) \<Rightarrow> Inl e
            | (Inr _, Inr _) \<Rightarrow> Inr ()
            | (Inr _, Inl e) \<Rightarrow>
                Inl (Backend (''failed to remove temporary '' @ name @ '' core '' @ path @ '': '' @ e)))))"

section \<open>Ranges\<close>

definition range_texts :: "string \<Rightarrow> publish_texts" where
  "range_texts name = \<lparr>text_no_name = ''acquisition path has no file name'',
     text_sequence = name @ '' range publication'', text_names = name @ '' publication'',
     text_suffix = ''.vmi-range-'',
     text_create = (\<lambda>e. Backend (''failed to create acquisition output: '' @ e)),
     text_write = (\<lambda>e. Backend (''failed to write acquisition output: '' @ e)),
     text_link = (\<lambda>path e. Backend (''failed to publish '' @ path @ '': '' @ e)),
     text_remove = (\<lambda>path e. Backend (''published '' @ path @ '' but failed to remove temporary output: '' @ e))\<rparr>"

definition publish_range ::
  "string \<Rightarrow> host_env \<Rightarrow> string \<Rightarrow> u8 list \<Rightarrow> ('v, 'm) command_session_scheme \<Rightarrow>
   ('v, 'm) command_session_scheme \<times> unit result" where
  "publish_range name env path bytes s =
     (if path_exists env (cs_disk s) path then
        (s, Inl (Backend (''refusing to replace existing acquisition output '' @ path)))
      else
        (case publish_atomically (range_texts name) (env_publish env) (ucast (env_pid env)) (env_range_observed env)
            path bytes (cs_disk s, cs_range_sequence s) of
           ((d, counter), r) \<Rightarrow> (s\<lparr>cs_disk := d, cs_range_sequence := counter\<rparr>, r)))"

text \<open>The closure between the dump and the removal of the core.\<close>

definition publish_core_range ::
  "string \<Rightarrow> (file_system \<Rightarrow> string \<Rightarrow> snapshot_bundle result) \<Rightarrow> host_env \<Rightarrow> string \<Rightarrow> string \<Rightarrow> gpa \<Rightarrow> usize \<Rightarrow>
   ('v, 'm) command_session_scheme \<Rightarrow> ('v, 'm) command_session_scheme \<times> unit result" where
  "publish_core_range name open_core env temporary path start len s =
     (case core_range open_core (''failed to allocate '' @ dec len @ ''-byte '' @ name @ '' acquisition buffer: '')
         (cs_disk s) temporary start len of
        Inl e \<Rightarrow> (s, Inl e)
      | Inr bytes \<Rightarrow> publish_range name env path bytes s)"

definition save_range_through ::
  "string \<Rightarrow> (file_system \<Rightarrow> string \<Rightarrow> snapshot_bundle result) \<Rightarrow>
   (('v, 'm) command_session_scheme \<Rightarrow> string \<Rightarrow> ('v, 'm) command_session_scheme \<times> unit result) \<Rightarrow> host_env \<Rightarrow>
   ('v, 'm) command_session_scheme \<Rightarrow> string \<Rightarrow> gpa \<Rightarrow> u64 \<Rightarrow> ('v, 'm) command_session_scheme \<times> unit result" where
  "save_range_through name open_core dump env s path start len =
     (if len = 0 then (s, Inl (Backend (name @ '' acquisition length must be non-zero'')))
      else if checked_add (gpa_raw start) len = None then
        (s, Inl (Backend (name @ '' acquisition physical range overflows'')))
      else
        (case ok_or (usize_of_u64 len) (Backend (''requested '' @ name @ '' range is too large'')) of
           Inl e \<Rightarrow> (s, Inl e)
         | Inr n \<Rightarrow>
             (case core_dump_path name env path s of
                (s1, Inl e) \<Rightarrow> (s1, Inl e)
              | (s1, Inr temporary) \<Rightarrow>
                  (case dump s1 temporary of
                     (s2, Inl e) \<Rightarrow> (s2, Inl e)
                   | (s2, Inr _) \<Rightarrow>
                       (case publish_core_range name open_core env temporary path start n s2 of
                          (s3, r) \<Rightarrow> finish_temporary_core name env temporary r s3)))))"

section \<open>Acquired ranges\<close>

lemma publish_range_Inr:
  assumes "publish_range name env path bytes s = (s', Inr ())"
  shows "map_of (cs_disk s) path = None" "map_of (cs_disk s') = (map_of (cs_disk s))(path \<mapsto> bytes)"
proof -
  obtain d c where run: "publish_atomically (range_texts name) (env_publish env) (ucast (env_pid env))
      (env_range_observed env) path bytes (cs_disk s, cs_range_sequence s) = ((d, c), Inr ())"
    and s': "s' = s\<lparr>cs_disk := d, cs_range_sequence := c\<rparr>"
    using assms by (auto simp: publish_range_def split: if_splits prod.splits)
  have "CHR ''/'' \<notin> set (text_suffix (range_texts name))" by (simp add: range_texts_def)
  from publish_atomically_Inr [OF run this] s'
  show "map_of (cs_disk s) path = None" "map_of (cs_disk s') = (map_of (cs_disk s))(path \<mapsto> bytes)" by simp_all
qed

lemma finish_temporary_core_Inr:
  assumes "finish_temporary_core name env path r s = (s', Inr ())"
  shows "r = Inr ()" "map_of (cs_disk s') = (map_of (cs_disk s))(path := None)"
  using assms disk_remove_Inr
  by (force simp: finish_temporary_core_def split: prod.splits sum.splits)+

context core_reader
begin

text \<open>
  A range that was saved is the range of the dumped core, byte by byte, in a file that did not exist; the temporary
  core is gone and no other file differs from what the dump left.
\<close>

lemma save_range_through_Inr:
  assumes "save_range_through name open_core dump env s path start len = (s', Inr ())"
  obtains s1 temporary s2 b bytes where
    "core_dump_path name env path s = (s1, Inr temporary)" "dump s1 temporary = (s2, Inr ())"
    "open_core (disk_fs (cs_disk s2)) temporary = Inr b" "length bytes = unat len" "temporary \<noteq> path"
    "\<forall>i < unat len. bundle_byte b (unat (gpa_raw start) + i) = Some (bytes ! i)"
    "map_of (cs_disk s2) path = None"
    "map_of (cs_disk s') = (map_of (cs_disk s2))(path \<mapsto> bytes, temporary := None)"
proof -
  obtain s1 temporary s2 s3 r where run: "core_dump_path name env path s = (s1, Inr temporary)"
      "dump s1 temporary = (s2, Inr ())"
      "publish_core_range name open_core env temporary path start (unat len) s2 = (s3, r)"
      "finish_temporary_core name env temporary r s3 = (s', Inr ())"
    using assms by (auto simp: save_range_through_def split: if_splits prod.splits sum.splits)
  note fin = finish_temporary_core_Inr [OF run(4)]
  obtain bytes where bytes: "core_range open_core (''failed to allocate '' @ dec (unat len) @ ''-byte '' @ name @
      '' acquisition buffer: '') (cs_disk s2) temporary start (unat len) = Inr bytes"
    and pub: "publish_range name env path bytes s2 = (s3, Inr ())"
    using run(3) fin(1) by (auto simp: publish_core_range_def split: sum.splits)
  from core_range_Inr [OF bytes] obtain b where b: "open_core (disk_fs (cs_disk s2)) temporary = Inr b"
      "map_of (cs_disk s2) temporary \<noteq> None" "length bytes = unat len"
      "\<forall>i < unat len. bundle_byte b (unat (gpa_raw start) + i) = Some (bytes ! i)" by blast
  note disk = publish_range_Inr [OF pub]
  have "temporary \<noteq> path" using b(2) disk(1) by auto
  with that [OF run(1,2) b(1,3)] b(4) disk fin(2) show thesis by simp
qed

end

end
