(* ===== verification/Driver_Virtualbox.thy ===== *)
theory Driver_Virtualbox
  imports Driver_Core_Dump
begin

text \<open>
  The crate \<open>vmi-driver-virtualbox\<close>: registers, live memory, control and acquisition of a machine through the
  \<open>VBoxManage\<close> command, or its memory through a transport of its own.
\<close>

section \<open>The process transport (lib.rs)\<close>

definition VBOX_OUTPUT_CAPACITY :: usize where
  "VBOX_OUTPUT_CAPACITY = 16 * 1024 * 1024"

definition vbox_spec :: command_spec where
  "vbox_spec = \<lparr>command_name = ''VBoxManage'', command_operation = ''VirtualBox command'',
     command_overrun = ''command read exceeded its buffer'', command_capacity = VBOX_OUTPUT_CAPACITY\<rparr>"

definition vbox_transport_default :: process_transport where
  "vbox_transport_default = process_transport_new ''VBoxManage''"

definition vbox_with_timeout :: "process_transport \<Rightarrow> nat \<Rightarrow> process_transport result" where
  "vbox_with_timeout t timeout =
     and_then (bounded_command_timeout timeout ''VBoxManage'') (\<lambda>n. Inr (t\<lparr>command_timeout := n\<rparr>))"

definition vbox_process_execute :: "process_transport \<Rightarrow> process_run \<Rightarrow> string result option" where
  "vbox_process_execute t run =
     map_option (\<lambda>r. and_then r (command_text vbox_spec)) (run_bounded_command_with_limit vbox_spec t run)"

section \<open>Parsing the output of VBoxManage\<close>

definition trim_quotes :: "string \<Rightarrow> string" where
  "trim_quotes s = rev (dropWhile (\<lambda>c. c = CHR 0x22) (rev (dropWhile (\<lambda>c. c = CHR 0x22) s)))"

definition vbox_state_of :: "string \<Rightarrow> execution_state" where
  "vbox_state_of v =
     (if v = ''running'' then Running
      else if v = ''paused'' then Paused
      else if v \<in> {''poweroff'', ''saved'', ''aborted''} then Shutdown
      else UnknownState)"

definition vbox_parse_state :: "string \<Rightarrow> execution_state result" where
  "vbox_parse_state output_text =
     (case filter (\<lambda>line. starts_with line ''VMState='') (str_lines output_text) of
        [] \<Rightarrow> Inl (Backend ''VBoxManage output lacks VMState'')
      | line # _ \<Rightarrow> Inr (vbox_state_of (trim_quotes (drop 8 line))))"

text \<open>\<open>str::split_once\<close> at an equals sign.\<close>

definition split_equals :: "string \<Rightarrow> (string \<times> string) option" where
  "split_equals line =
     (if CHR ''='' \<notin> set line then None
      else Some (takeWhile (\<lambda>c. c \<noteq> CHR ''='') line, tl (dropWhile (\<lambda>c. c \<noteq> CHR ''='') line)))"

fun parse_register_lines :: "string list \<Rightarrow> string \<Rightarrow> u64 result" where
  "parse_register_lines [] wanted = Inl (Backend (''VBoxManage output lacks register '' @ wanted))"
| "parse_register_lines (line # rest) wanted =
     (case split_equals line of
        None \<Rightarrow> parse_register_lines rest wanted
      | Some (name, v) \<Rightarrow>
          if to_ascii_lowercase (trim name) = to_ascii_lowercase wanted then
            map_err (\<lambda>e. Backend (''invalid register value: '' @ e))
              (from_str_radix 16 (strip_hex_prefix (trim_quotes (trim v))))
          else parse_register_lines rest wanted)"

definition parse_register :: "string \<Rightarrow> string \<Rightarrow> u64 result" where
  "parse_register output_text wanted = parse_register_lines (str_lines output_text) wanted"

section \<open>Sessions\<close>

text \<open>The connector and the session have the same fields; the host's state is added for the session.\<close>

record 'v vbox_session = "'v command_session" +
  vb_memory :: "('v \<Rightarrow> read_into) option"

definition vbox_with_transport ::
  "flag_ops \<Rightarrow> string \<Rightarrow> guest_architecture \<Rightarrow> 'v command_transport \<Rightarrow> 'v \<Rightarrow> disk \<Rightarrow> u64 \<Rightarrow> u64 \<Rightarrow> 'v vbox_session" where
  "vbox_with_transport fl vm architecture transport world d cores ranges =
     \<lparr>cs_descriptor = provider_descriptor_new ''virtualbox'' ''VirtualBox Live'' Preview
        (from_caps fl [MemoryRead, RegisterRead, Control, Acquisition]),
      cs_target = target_descriptor_new vm (Some vm) architecture LiveBestEffort,
      cs_transport = transport, cs_world = world, cs_disk = d, cs_core_sequence = cores, cs_range_sequence = ranges,
      vb_memory = None\<rparr>"

definition vbox_with_memory_transport :: "'v vbox_session \<Rightarrow> ('v \<Rightarrow> read_into) \<Rightarrow> 'v vbox_session" where
  "vbox_with_memory_transport c memory = c\<lparr>vb_memory := Some memory\<rparr>"

definition vbox_with_register_write :: "flag_ops \<Rightarrow> 'v vbox_session \<Rightarrow> 'v vbox_session" where
  "vbox_with_register_write fl c =
     c\<lparr>cs_descriptor := (cs_descriptor c)\<lparr>provider_capabilities :=
        insert_capability fl (provider_capabilities (cs_descriptor c)) RegisterWrite\<rparr>\<rparr>"

definition vb_execute :: "'v vbox_session \<Rightarrow> string list \<Rightarrow> 'v vbox_session \<times> string result" where
  "vb_execute = session_execute ''VBoxManage''"

definition vb_read_register :: "'v vbox_session \<Rightarrow> u32 \<Rightarrow> string \<Rightarrow> 'v vbox_session \<times> u64 result" where
  "vb_read_register s vcpu wanted =
     (if \<not> valid_register wanted then (s, Inl (Backend ''invalid VirtualBox register name''))
      else
        (case try_decimal_u32 vcpu ''VirtualBox vCPU index'' of
           Inl e \<Rightarrow> (s, Inl e)
         | Inr cpu \<Rightarrow>
             (case vb_execute s [''debugvm'', target_id (cs_target s), ''getregisters'', ''--cpu'', cpu, wanted] of
                (s1, r) \<Rightarrow> (s1, and_then r (\<lambda>txt. parse_register txt wanted)))))"

text \<open>\<open>{value:016x}\<close>\<close>

definition hex16 :: "u64 \<Rightarrow> string" where
  "hex16 v = (let h = fmt_radix 16 (unat v) in replicate (16 - length h) CHR ''0'' @ h)"

definition try_register_assignment :: "string \<Rightarrow> u64 \<Rightarrow> string result" where
  "try_register_assignment name v =
     and_then (ok_or (usize_checked_add (length name) 19)
       (Backend ''VirtualBox register assignment length overflow'')) (\<lambda>cap.
     if \<not> reservable cap then
       Inl (Backend (''failed to allocate VirtualBox register assignment: '' @ capacity_overflow))
     else Inr (name @ ''=0x'' @ hex16 v))"

definition vb_write_register ::
  "flag_ops \<Rightarrow> 'v vbox_session \<Rightarrow> u32 \<Rightarrow> string \<Rightarrow> u64 \<Rightarrow> 'v vbox_session \<times> unit result" where
  "vb_write_register fl s vcpu name v =
     (if \<not> contains_capability fl (provider_capabilities (cs_descriptor s)) RegisterWrite then
        (s, and_then (try_owned_id (provider_id (cs_descriptor s)) ''VirtualBox provider ID'')
          (\<lambda>owned. Inl (CapabilityMissing owned RegisterWrite)))
      else if \<not> valid_register name then (s, Inl (Backend ''invalid VirtualBox register name''))
      else
        (case and_then (try_decimal_u32 vcpu ''VirtualBox vCPU index'') (\<lambda>cpu.
           and_then (try_register_assignment name v) (\<lambda>assignment. Inr (cpu, assignment))) of
           Inl e \<Rightarrow> (s, Inl e)
         | Inr (cpu, assignment) \<Rightarrow>
             (case vb_execute s [''debugvm'', target_id (cs_target s), ''setregisters'', ''--cpu'', cpu, assignment] of
                (s1, Inl e) \<Rightarrow> (s1, Inl e)
              | (s1, Inr _) \<Rightarrow>
                  (case vb_read_register s1 vcpu name of
                     (s2, Inl e) \<Rightarrow> (s2, Inl e)
                   | (s2, Inr actual) \<Rightarrow>
                       (s2, if actual \<noteq> v then
                          Inl (Backend (''VirtualBox register write verification failed: expected '' @ hex0x v @
                            '', got '' @ hex0x actual))
                        else Inr ())))))"

definition vb_save_snapshot :: "host_env \<Rightarrow> 'v vbox_session \<Rightarrow> string \<Rightarrow> 'v vbox_session \<times> unit result" where
  "vb_save_snapshot env s path =
     (case and_then (ensure_output_absent env (cs_disk s) path ''VirtualBox core'') (\<lambda>_.
        and_then (ok_or (path_to_str path) (Backend ''VirtualBox core path is not UTF-8'')) (\<lambda>destination.
        and_then (ok_or (usize_checked_add (length destination) 11)
          (Backend ''VirtualBox filename argument length overflow'')) (\<lambda>cap.
        if \<not> reservable cap then
          Inl (Backend (''failed to allocate VirtualBox filename argument: '' @ capacity_overflow))
        else Inr (''--filename='' @ destination)))) of
        Inl e \<Rightarrow> (s, Inl e)
      | Inr filename \<Rightarrow>
          (case vb_execute s [''debugvm'', target_id (cs_target s), ''dumpvmcore'', filename] of
             (s1, r) \<Rightarrow> (s1, and_then r (\<lambda>_. Inr ()))))"

definition vb_save_physical_range ::
  "host_env \<Rightarrow> 'v vbox_session \<Rightarrow> string \<Rightarrow> gpa \<Rightarrow> u64 \<Rightarrow> 'v vbox_session \<times> unit result" where
  "vb_save_physical_range env = save_range_through ''VirtualBox'' elf_vmcore_file (vb_save_snapshot env) env"

text \<open>Reading live memory, with the session that the dump of a core leaves.\<close>

definition vb_read_into ::
  "host_env \<Rightarrow> 'v vbox_session \<Rightarrow> gpa \<Rightarrow> u8 list \<Rightarrow> 'v vbox_session \<times> u8 list \<times> unit result" where
  "vb_read_into env s address buffer =
     (if buffer = [] then (s, buffer, Inr ())
      else
        (case vb_memory s of
           Some memory \<Rightarrow> (s, memory (cs_world s) address buffer)
         | None \<Rightarrow>
             (case try_child_path (env_temp_dir env) ''virtualbox-live.core'' ''VirtualBox live core'' of
                Inl e \<Rightarrow> (s, buffer, Inl e)
              | Inr live_core \<Rightarrow>
                  (case core_dump_path ''VirtualBox'' env live_core s of
                     (s1, Inl e) \<Rightarrow> (s1, buffer, Inl e)
                   | (s1, Inr temporary) \<Rightarrow>
                       (case vb_save_snapshot env s1 temporary of
                          (s2, Inl e) \<Rightarrow> (s2, buffer, Inl e)
                        | (s2, Inr _) \<Rightarrow>
                            (case (case elf_vmcore_file (disk_fs (cs_disk s2)) temporary of
                                     Inl e \<Rightarrow> (buffer, Inl e)
                                   | Inr b \<Rightarrow> bundle_read_into b address buffer) of
                               (bytes, r) \<Rightarrow>
                                 (case finish_temporary_core ''VirtualBox'' env temporary r s2 of
                                    (s3, r') \<Rightarrow> (s3, bytes, r'))))))))"

definition vb_execution_state :: "'v vbox_session \<Rightarrow> 'v vbox_session \<times> execution_state result" where
  "vb_execution_state s =
     (case vb_execute s [''showvminfo'', target_id (cs_target s), ''--machinereadable''] of
        (s1, r) \<Rightarrow> (s1, and_then r vbox_parse_state))"

definition vb_pause :: "'v vbox_session \<Rightarrow> 'v vbox_session \<times> unit result" where
  "vb_pause s =
     (case vb_execute s [''controlvm'', target_id (cs_target s), ''pause''] of (s1, r) \<Rightarrow> (s1, and_then r (\<lambda>_. Inr ())))"

definition vb_resume :: "'v vbox_session \<Rightarrow> 'v vbox_session \<times> unit result" where
  "vb_resume s =
     (case vb_execute s [''controlvm'', target_id (cs_target s), ''resume''] of (s1, r) \<Rightarrow> (s1, and_then r (\<lambda>_. Inr ())))"

text \<open>
  The facets only read the session in the interface of the driver crate, so the state that a query leaves is not
  part of it.
\<close>

definition vbox_session_ops :: "flag_ops \<Rightarrow> host_env \<Rightarrow> 'v vbox_session session" where
  "vbox_session_ops fl env =
     \<lparr>provider = cs_descriptor, target = cs_target, capabilities = (\<lambda>s. provider_capabilities (cs_descriptor s)),
      memory_impl = Some (\<lambda>_. Inr (\<lambda>s address buffer. snd (vb_read_into env s address buffer))),
      memory_write_impl = None,
      cpu_impl = Some (\<lambda>_. Inr \<lparr>read_register = (\<lambda>s vcpu r. snd (vb_read_register s vcpu r)),
        write_register = vb_write_register fl\<rparr>),
      control_impl = Some (\<lambda>_. Inr \<lparr>execution_state_of = (\<lambda>s. snd (vb_execution_state s)),
        pause = vb_pause, resume = vb_resume\<rparr>),
      events_impl = None, views_impl = None,
      acquisition_impl = Some (\<lambda>_. Inr \<lparr>save_physical_range = vb_save_physical_range env,
        save_snapshot = vb_save_snapshot env\<rparr>),
      lifecycle_impl = None\<rparr>"

definition vbox_connect ::
  "flag_ops \<Rightarrow> host_env \<Rightarrow> 'v vbox_session \<Rightarrow> attach_request \<Rightarrow> ('v vbox_session session \<times> 'v vbox_session) result" where
  "vbox_connect fl env c request =
     and_then (validate_target_name (target_id (cs_target c)) ''VirtualBox VM'') (\<lambda>_.
     let missing = difference_of fl (required_capabilities request) (provider_capabilities (cs_descriptor c)) in
     if \<not> fl_is_empty fl (cap_bits missing) then
       and_then (try_owned_id (provider_id (cs_descriptor c)) ''VirtualBox provider ID'')
         (\<lambda>owned. Inl (AttachRejected owned missing))
     else
       and_then
         (case request_selector request of
            NamedTarget expected \<Rightarrow>
              if expected \<noteq> target_id (cs_target c) then
                Inl (Backend (''VirtualBox VM '' @ expected @ '' does not match '' @ target_id (cs_target c)))
              else Inr ()
          | AnyTarget \<Rightarrow> Inr ()) (\<lambda>_.
       case vb_execution_state c of
         (s1, r) \<Rightarrow> and_then r (\<lambda>_. Inr (vbox_session_ops fl env, s1))))"

section \<open>Registers\<close>

text \<open>What \<open>VBoxManage\<close> prints for a list of registers: one line each.\<close>

definition register_line :: "string \<times> u64 \<Rightarrow> string" where
  "register_line = (\<lambda>(name, v). name @ ''=0x'' @ hex16 v)"

definition register_table :: "(string \<times> u64) list \<Rightarrow> string" where
  "register_table regs = concat (map (\<lambda>r. register_line r @ [CHR 0x0A]) regs)"

lemma hex16_printing: "printing (hex16 v)"
  using fmt_radix_printing [of 16 "unat v"] by (auto simp: hex16_def Let_def printing_def)

lemma hex16_no_quote: "CHR 0x22 \<notin> set (hex16 v)"
proof -
  have "CHR 0x22 \<notin> digit_char ` {..<16}" using digit_char_range [of "CHR 0x22"] by auto
  then show ?thesis using fmt_radix_digits [of 16 "unat v"] by (auto simp: hex16_def Let_def)
qed

lemma from_str_radix_hex16: "from_str_radix 16 (hex16 v) = Inr v"
proof -
  have "CHR ''+'' \<notin> digit_char ` {..<16}" using digit_char_range [of "CHR ''+''"] by auto
  then have "CHR ''+'' \<notin> set (hex16 v)" using fmt_radix_digits [of 16 "unat v"] by (auto simp: hex16_def Let_def)
  then have "from_str_radix 16 (hex16 v) = radix_loop 16 0 (hex16 v)"
    by (intro from_str_radix_plain) (simp_all add: hex16_def Let_def)
  also have "\<dots> = Inr v"
    using radix_loop_fmt [of 16 "unat v"] unsigned_less [of v]
    by (simp add: hex16_def Let_def radix_loop_zeros)
  finally show ?thesis .
qed

lemma valid_register_printing: "valid_register n \<Longrightarrow> printing n \<and> CHR ''='' \<notin> set n"
  by (auto simp: valid_register_def list_all_iff is_ascii_alphanumeric_def printing_def Let_def)

lemma split_register_line: "valid_register n \<Longrightarrow> split_equals (register_line (n, v)) = Some (n, ''0x'' @ hex16 v)"
  using valid_register_printing [of n]
  by (auto simp: split_equals_def register_line_def takeWhile_append dropWhile_append)

lemma trim_quotes_none: "CHR 0x22 \<notin> set s \<Longrightarrow> trim_quotes s = s"
  unfolding trim_quotes_def by (subst (2) dropWhile_none, fastforce, subst dropWhile_none, auto)

lemma register_value: "from_str_radix 16 (strip_hex_prefix (trim_quotes (trim (''0x'' @ hex16 v)))) = Inr v"
proof -
  have "trim (''0x'' @ hex16 v) = ''0x'' @ hex16 v" by (rule trim_printing) (simp add: hex16_printing)
  moreover have "trim_quotes (''0x'' @ hex16 v) = ''0x'' @ hex16 v"
    by (rule trim_quotes_none) (simp add: hex16_no_quote)
  ultimately show ?thesis
    by (simp add: strip_hex_prefix_def starts_with_def from_str_radix_hex16)
qed

lemma register_table_lines:
  "list_all (valid_register \<circ> fst) regs \<Longrightarrow> str_lines (register_table regs) = map register_line regs"
proof (induction regs)
  case (Cons r regs)
  then have "printing (register_line r)"
    using valid_register_printing hex16_printing by (auto simp: register_line_def split: prod.splits)
  from str_lines_line [OF this] Cons show ?case by (simp add: register_table_def)
qed (simp add: register_table_def str_lines_def)

text \<open>
  The register parser is exact on the tables that VBoxManage prints, and in particular on the assignments that
  the driver itself formats: the first register whose name agrees up to the case of its letters gives its full 64-bit
  value, and a table without it gives an error.
\<close>

lemma parse_register_table:
  assumes "list_all (valid_register \<circ> fst) regs"
  shows "parse_register (register_table regs) wanted =
    (case find (\<lambda>(n, v). to_ascii_lowercase n = to_ascii_lowercase wanted) regs of
       Some (n, v) \<Rightarrow> Inr v
     | None \<Rightarrow> Inl (Backend (''VBoxManage output lacks register '' @ wanted)))"
proof -
  have "parse_register_lines (map register_line regs) wanted =
    (case find (\<lambda>(n, v). to_ascii_lowercase n = to_ascii_lowercase wanted) regs of
       Some (n, v) \<Rightarrow> Inr v
     | None \<Rightarrow> Inl (Backend (''VBoxManage output lacks register '' @ wanted)))"
    using assms
  proof (induction regs)
    case (Cons r regs)
    obtain n v where r: "r = (n, v)" by fastforce
    with Cons.prems have "valid_register n" by simp
    then have "split_equals (register_line r) = Some (n, ''0x'' @ hex16 v)" "trim n = n"
      using split_register_line trim_printing valid_register_printing r by blast+
    then show ?case using Cons register_value [of v] by (simp add: r)
  qed simp
  then show ?thesis by (simp add: parse_register_def register_table_lines [OF assms])
qed

section \<open>Acquisition and live memory\<close>

text \<open>
  C31: Acquiring a physical range of a VirtualBox machine. When the call succeeds, the destination did not exist when
  the range was published and now holds exactly the bytes of the range in the core that VBoxManage dumped; the
  temporary core is gone, and no other file differs from what the dump left, whatever file system calls fail.
\<close>

theorem vbox_range_exact:
  assumes "vb_save_physical_range env s path start len = (s', Inr ())"
  shows "\<exists>s1 temporary s2 b bytes. core_dump_path ''VirtualBox'' env path s = (s1, Inr temporary) \<and>
    vb_save_snapshot env s1 temporary = (s2, Inr ()) \<and>
    elf_vmcore_file (disk_fs (cs_disk s2)) temporary = Inr b \<and> length bytes = unat len \<and>
    (\<forall>i < unat len. bundle_byte b (unat (gpa_raw start) + i) = Some (bytes ! i)) \<and>
    temporary \<noteq> path \<and> map_of (cs_disk s2) path = None \<and>
    map_of (cs_disk s') = (map_of (cs_disk s2))(path \<mapsto> bytes, temporary := None)"
  using assms unfolding vb_save_physical_range_def
  by (rule elf_core.save_range_through_Inr) blast

text \<open>Reading live memory without a memory transport: the bytes are those of a core dumped for this read.\<close>

lemma vb_live_read:
  assumes "vb_read_into env s address buffer = (s', bytes, Inr ())" "vb_memory s = None" "buffer \<noteq> []"
    "length buffer < usize_bound"
  obtains live s1 temporary s2 b where
    "core_dump_path ''VirtualBox'' env live s = (s1, Inr temporary)" "vb_save_snapshot env s1 temporary = (s2, Inr ())"
    "elf_vmcore_file (disk_fs (cs_disk s2)) temporary = Inr b" "length bytes = length buffer"
    "\<forall>i < length buffer. bundle_byte b (unat (gpa_raw address) + i) = Some (bytes ! i)"
    "map_of (cs_disk s') = (map_of (cs_disk s2))(temporary := None)"
proof -
  obtain live s1 temporary s2 where dump: "core_dump_path ''VirtualBox'' env live s = (s1, Inr temporary)"
      "vb_save_snapshot env s1 temporary = (s2, Inr ())"
    and run: "(case (case elf_vmcore_file (disk_fs (cs_disk s2)) temporary of Inl e \<Rightarrow> (buffer, Inl e)
        | Inr b \<Rightarrow> bundle_read_into b address buffer) of
        (bs, r) \<Rightarrow> (case finish_temporary_core ''VirtualBox'' env temporary r s2 of (s3, r') \<Rightarrow> (s3, bs, r'))) =
        (s', bytes, Inr ())"
    using assms(1-3) by (auto simp: vb_read_into_def split: sum.splits prod.splits)
  then obtain r where inner: "(case elf_vmcore_file (disk_fs (cs_disk s2)) temporary of Inl e \<Rightarrow> (buffer, Inl e)
        | Inr b \<Rightarrow> bundle_read_into b address buffer) = (bytes, r)"
      and fin: "finish_temporary_core ''VirtualBox'' env temporary r s2 = (s', Inr ())"
    by (auto split: prod.splits)
  note finished = finish_temporary_core_Inr [OF fin]
  obtain b where b: "elf_vmcore_file (disk_fs (cs_disk s2)) temporary = Inr b"
      "bundle_read_into b address buffer = (bytes, Inr ())"
    using inner finished(1) by (auto split: sum.splits)
  have "length bytes = length buffer"
    "\<forall>i < length buffer. bundle_byte b (unat (gpa_raw address) + i) = Some (bytes ! i)"
    using reads_bytesD [OF snap.memory_reads_bytes [OF elf_core.opened_ok [OF b(1)]] b(2) assms(4)] by simp_all
  from that [OF dump b(1) this finished(2)] show thesis .
qed

text \<open>A machine whose dump writes the sample core to the file named in its fourth argument.\<close>

definition sample_vbox_transport :: "unit command_transport" where
  "sample_vbox_transport arguments host = (((), AList.update (drop 11 (arguments ! 3)) elf_fixture (snd host)), Inr [])"

definition sample_vbox :: "unit vbox_session" where
  "sample_vbox = vbox_with_transport plain_flags ''vm'' Amd64 sample_vbox_transport () [] 0 0"

lemma sample_vbox_range:
  "\<exists>s'. vb_save_physical_range sample_env sample_vbox ''out'' (Gpa 0x1000) 2 = (s', Inr ())"
proof -
  let ?t = "''out.vmi-7-9-0.core''"
  define s1 where "s1 = sample_vbox\<lparr>cs_core_sequence := 1\<rparr>"
  define s2 where "s2 = s1\<lparr>cs_disk := [(?t, elf_fixture)]\<rparr>"
  have name: "path_file_name ''out'' = Some ''out''" "path_parent ''out'' = Some []"
    by (simp_all add: path_file_name_def path_parent_def path_components_def is_absolute_def starts_with_def Let_def)
  have small: "reservable n" if "n < 1000" for n
    using that by (simp add: reservable_def isize_max_def)
  have dec: "dec 7 = ''7''" "dec 9 = ''9''" "dec 0 = ''0''"
    by (simp_all add: dec_def fmt_radix.simps digit_char_def)
  have temp: "core_dump_path ''VirtualBox'' sample_env ''out'' sample_vbox = (s1, Inr ?t)"
    by (simp add: core_dump_path_def sample_env_def sample_vbox_def vbox_with_transport_def checked_add_def s1_def dec
        try_with_extension_def usize_checked_add_def usize_bound_def small path_set_extension_def name file_stem_def)
  have dump: "vb_save_snapshot sample_env s1 ?t = (s2, Inr ())"
    by (simp add: vb_save_snapshot_def ensure_output_absent_def sample_env_def path_to_str_ascii usize_checked_add_def
        usize_bound_def small vb_execute_def session_execute_def s1_def s2_def sample_vbox_def vbox_with_transport_def
        sample_vbox_transport_def target_descriptor_new_def)
  have range: "core_range elf_vmcore_file a (cs_disk s2) ?t (Gpa 0x1000) 2 = Inr [0xaa, 0]" for a
    by (rule elf_fixture_range) (simp add: s2_def)
  have "\<exists>s3. publish_range ''VirtualBox'' sample_env ''out'' [0xaa, 0] s2 = (s3, Inr ()) \<and>
      map_of (cs_disk s3) ?t = Some elf_fixture"
    by (simp add: publish_range_def path_exists_def publish_atomically_def name checked_add_def temp_path_of_def
        try_native_temp_name_def try_child_path_def usize_checked_add_def usize_bound_def small dec
        publish_steps_def no_faults_def range_texts_def disk_create_new_def disk_write_all_def disk_hard_link_def
        disk_remove_file_def path_join_def is_absolute_def starts_with_def s2_def s1_def sample_vbox_def
        vbox_with_transport_def sample_env_def)
  then obtain s3 where pub: "publish_range ''VirtualBox'' sample_env ''out'' [0xaa, 0] s2 = (s3, Inr ())"
    "map_of (cs_disk s3) ?t = Some elf_fixture" by blast
  then have "publish_core_range ''VirtualBox'' elf_vmcore_file sample_env ?t ''out'' (Gpa 0x1000) 2 s2 = (s3, Inr ())"
    by (simp add: publish_core_range_def range)
  with temp dump pub(2) show ?thesis
    by (simp add: vb_save_physical_range_def save_range_through_def checked_add_def finish_temporary_core_def
        disk_remove_file_def)
      (simp add: sample_env_def)
qed

theorem vbox_range_exact_witness:
  "\<exists>s' bytes. vb_save_physical_range sample_env sample_vbox ''out'' (Gpa 0x1000) 2 = (s', Inr ()) \<and>
     map_of (cs_disk s') ''out'' = Some bytes \<and> length bytes = 2"
proof -
  obtain s' where run: "vb_save_physical_range sample_env sample_vbox ''out'' (Gpa 0x1000) 2 = (s', Inr ())"
    using sample_vbox_range by blast
  from vbox_range_exact [OF run] obtain bytes temporary d where
    "length bytes = 2" "temporary \<noteq> ''out''" "map_of (cs_disk s') = d(''out'' \<mapsto> bytes, temporary := None)" by auto
  with run show ?thesis by auto
qed

end
