(* ===== verification/Driver_Xen.thy ===== *)
theory Driver_Xen
  imports Driver_Core_Dump
begin

text \<open>
  The crate \<open>vmi-driver-xen\<close>: control and acquisition of a domain through the \<open>xl\<close> command, and optional
  transports for its memory, its registers and its events. The foreign pages that \<open>libxenctrl\<close> maps are a map
  from frame numbers to pages; a frame that the library cannot map is absent.
\<close>

section \<open>Commands (lib.rs)\<close>

definition XEN_OUTPUT_CAPACITY :: usize where
  "XEN_OUTPUT_CAPACITY = 16 * 1024 * 1024"

definition xen_spec :: "string \<Rightarrow> command_spec" where
  "xen_spec name = \<lparr>command_name = name, command_operation = ''Xen command'',
     command_overrun = ''command read exceeded its buffer'', command_capacity = XEN_OUTPUT_CAPACITY\<rparr>"

definition xl_transport_default :: process_transport where
  "xl_transport_default = process_transport_new ''xl''"

definition xl_with_timeout :: "process_transport \<Rightarrow> nat \<Rightarrow> process_transport result" where
  "xl_with_timeout t timeout =
     and_then (bounded_command_timeout timeout ''xl'') (\<lambda>n. Inr (t\<lparr>command_timeout := n\<rparr>))"

definition xen_run_bounded_command ::
  "string \<Rightarrow> process_transport \<Rightarrow> process_run \<Rightarrow> (exit_status \<times> u8 list \<times> u8 list) result option" where
  "xen_run_bounded_command name = run_bounded_command_with_limit (xen_spec name)"

definition xl_process_execute :: "process_transport \<Rightarrow> process_run \<Rightarrow> string result option" where
  "xl_process_execute t run =
     map_option (\<lambda>r. and_then r (command_text (xen_spec ''xl''))) (xen_run_bounded_command ''xl'' t run)"

definition validate_register :: "string \<Rightarrow> unit result" where
  "validate_register r = (if \<not> valid_register r then Inl (Backend ''invalid Xen register name'') else Inr ())"

text \<open>The fields of a line, with the field before.\<close>

definition trim_end_colons :: "string \<Rightarrow> string" where
  "trim_end_colons s = rev (dropWhile (\<lambda>c. c = CHR '':'') (rev s))"

fun xenctx_fields :: "string option \<Rightarrow> string list \<Rightarrow> string \<Rightarrow> u64 result option" where
  "xenctx_fields previous [] wanted = None"
| "xenctx_fields previous (token # rest) wanted =
     (if (case previous of
            Some name \<Rightarrow> to_ascii_lowercase (trim_end_colons name) = to_ascii_lowercase wanted
          | None \<Rightarrow> False) then
        Some (map_err (\<lambda>e. Backend (''invalid xenctx register value: '' @ e))
          (from_str_radix 16 (strip_hex_prefix token)))
      else xenctx_fields (Some token) rest wanted)"

fun xenctx_lines :: "string list \<Rightarrow> string \<Rightarrow> u64 result" where
  "xenctx_lines [] wanted = Inl (Backend (''xenctx output lacks register '' @ wanted))"
| "xenctx_lines (line # rest) wanted =
     (case xenctx_fields None (split_whitespace line) wanted of
        Some r \<Rightarrow> r
      | None \<Rightarrow> xenctx_lines rest wanted)"

definition parse_xenctx_register :: "string \<Rightarrow> string \<Rightarrow> u64 result" where
  "parse_xenctx_register output_text wanted = xenctx_lines (str_lines output_text) wanted"

definition xen_parse_state :: "string \<Rightarrow> string \<Rightarrow> execution_state result" where
  "xen_parse_state output_text domain =
     and_then (ok_or (find (\<lambda>line. split_whitespace line \<noteq> [] \<and> hd (split_whitespace line) = domain)
         (drop 1 (str_lines output_text)))
       (Backend (''xl output does not contain domain '' @ domain))) (\<lambda>line.
     and_then (ok_or (get_at (split_whitespace line) 4) (Backend ''xl list row lacks state'')) (\<lambda>state.
       Inr (if CHR ''r'' \<in> set state then Running
            else if CHR ''p'' \<in> set state then Paused
            else if CHR ''s'' \<in> set state \<or> CHR ''d'' \<in> set state \<or> CHR ''c'' \<in> set state then Shutdown
            else UnknownState)))"

section \<open>Transports\<close>

record 'v xen_memory_transport =
  xm_read_into :: "'v \<Rightarrow> read_into"
  xm_write :: "'v \<Rightarrow> gpa \<Rightarrow> u8 list \<Rightarrow> 'v \<times> unit result"

record 'v xen_cpu_transport =
  xc_read_register :: "'v \<Rightarrow> u32 \<Rightarrow> string \<Rightarrow> u64 result"
  xc_supports_write :: bool
  xc_write_register :: "'v \<Rightarrow> u32 \<Rightarrow> string \<Rightarrow> u64 \<Rightarrow> 'v \<times> unit result"

type_synonym 'v xen_event_transport = "'v \<Rightarrow> 'v \<times> vmi_event option result"

text \<open>The default methods of the register transport.\<close>

definition read_only_cpu :: "('v \<Rightarrow> u32 \<Rightarrow> string \<Rightarrow> u64 result) \<Rightarrow> 'v xen_cpu_transport" where
  "read_only_cpu rd = \<lparr>xc_read_register = rd, xc_supports_write = False,
     xc_write_register = (\<lambda>w _ _ _. (w, Inl (Backend ''Xen CPU transport does not support register writes'')))\<rparr>"

record xenctx_transport =
  ctx_process :: process_transport
  ctx_domain_id :: u32

definition xenctx_with_executable :: "u32 \<Rightarrow> string \<Rightarrow> xenctx_transport" where
  "xenctx_with_executable domain_id program =
     \<lparr>ctx_process = process_transport_new program, ctx_domain_id = domain_id\<rparr>"

definition xenctx_new :: "u32 \<Rightarrow> xenctx_transport" where
  "xenctx_new domain_id = xenctx_with_executable domain_id ''xenctx''"

definition xenctx_with_timeout :: "xenctx_transport \<Rightarrow> nat \<Rightarrow> xenctx_transport result" where
  "xenctx_with_timeout t timeout =
     and_then (bounded_command_timeout timeout ''xenctx'') (\<lambda>n.
       Inr (t\<lparr>ctx_process := (ctx_process t)\<lparr>command_timeout := n\<rparr>\<rparr>))"

text \<open>\<open>runner\<close> is what running the command with the given arguments returned.\<close>

definition xenctx_read_register ::
  "xenctx_transport \<Rightarrow> (process_transport \<Rightarrow> string list \<Rightarrow> (exit_status \<times> u8 list \<times> u8 list) result) \<Rightarrow>
   u32 \<Rightarrow> string \<Rightarrow> u64 result" where
  "xenctx_read_register t runner vcpu wanted =
     and_then (validate_register wanted) (\<lambda>_.
     and_then (try_decimal_u32 (ctx_domain_id t) ''Xen domain ID'') (\<lambda>domain.
     and_then (try_decimal_u32 vcpu ''Xen vCPU index'') (\<lambda>cpu.
     and_then (runner (ctx_process t) [domain, cpu]) (\<lambda>done_run.
     and_then (command_text (xen_spec ''xenctx'') done_run) (\<lambda>txt.
       parse_xenctx_register txt wanted)))))"

section \<open>Connector and session\<close>

record 'v xen_session = "'v command_session" +
  xs_memory :: "'v xen_memory_transport option"
  xs_cpu :: "'v xen_cpu_transport option"
  xs_events :: "'v xen_event_transport option"

definition xen_with_transport ::
  "flag_ops \<Rightarrow> string \<Rightarrow> guest_architecture \<Rightarrow> 'v command_transport \<Rightarrow> 'v \<Rightarrow> disk \<Rightarrow> u64 \<Rightarrow> u64 \<Rightarrow> 'v xen_session" where
  "xen_with_transport fl domain architecture transport world d cores ranges =
     \<lparr>cs_descriptor = provider_descriptor_new ''xen-xl'' ''Xen xl'' Preview (from_caps fl [Control, Acquisition]),
      cs_target = target_descriptor_new domain (Some domain) architecture LiveBestEffort,
      cs_transport = transport, cs_world = world, cs_disk = d, cs_core_sequence = cores, cs_range_sequence = ranges,
      xs_memory = None, xs_cpu = None, xs_events = None\<rparr>"

definition add_capability :: "flag_ops \<Rightarrow> capability \<Rightarrow> 'v xen_session \<Rightarrow> 'v xen_session" where
  "add_capability fl capability c =
     c\<lparr>cs_descriptor := (cs_descriptor c)\<lparr>provider_capabilities :=
        insert_capability fl (provider_capabilities (cs_descriptor c)) capability\<rparr>\<rparr>"

definition xen_with_memory_transport ::
  "flag_ops \<Rightarrow> 'v xen_session \<Rightarrow> 'v xen_memory_transport \<Rightarrow> 'v xen_session" where
  "xen_with_memory_transport fl c memory =
     (add_capability fl MemoryWrite (add_capability fl MemoryRead c))\<lparr>xs_memory := Some memory\<rparr>"

definition xen_with_cpu_transport :: "flag_ops \<Rightarrow> 'v xen_session \<Rightarrow> 'v xen_cpu_transport \<Rightarrow> 'v xen_session" where
  "xen_with_cpu_transport fl c cpu =
     (let c1 = add_capability fl RegisterRead c;
          c2 = (if xc_supports_write cpu then add_capability fl RegisterWrite c1 else c1) in
      c2\<lparr>xs_cpu := Some cpu\<rparr>)"

definition xen_with_xenctx ::
  "flag_ops \<Rightarrow> ('v \<Rightarrow> process_transport \<Rightarrow> string list \<Rightarrow> (exit_status \<times> u8 list \<times> u8 list) result) \<Rightarrow>
   'v xen_session \<Rightarrow> u32 \<Rightarrow> 'v xen_session" where
  "xen_with_xenctx fl commands c domain_id =
     (add_capability fl RegisterRead c)
       \<lparr>xs_cpu := Some (read_only_cpu (\<lambda>w. xenctx_read_register (xenctx_new domain_id) (commands w)))\<rparr>"

definition xen_with_event_transport :: "flag_ops \<Rightarrow> 'v xen_session \<Rightarrow> 'v xen_event_transport \<Rightarrow> 'v xen_session" where
  "xen_with_event_transport fl c events = (add_capability fl Events c)\<lparr>xs_events := Some events\<rparr>"

definition xen_execute :: "'v xen_session \<Rightarrow> string list \<Rightarrow> 'v xen_session \<times> string result" where
  "xen_execute = session_execute ''xl''"

definition dump_core :: "host_env \<Rightarrow> 'v xen_session \<Rightarrow> string \<Rightarrow> 'v xen_session \<times> unit result" where
  "dump_core env s path =
     (case and_then (ensure_output_absent env (cs_disk s) path ''Xen core'') (\<lambda>_.
        ok_or (path_to_str path) (Backend ''Xen core path is not UTF-8'')) of
        Inl e \<Rightarrow> (s, Inl e)
      | Inr destination \<Rightarrow>
          (case xen_execute s [''dump-core'', target_id (cs_target s), destination] of
             (s1, r) \<Rightarrow> (s1, and_then r (\<lambda>_. Inr ()))))"

definition xen_execution_state :: "'v xen_session \<Rightarrow> 'v xen_session \<times> execution_state result" where
  "xen_execution_state s =
     (case xen_execute s [''list'', target_id (cs_target s)] of
        (s1, r) \<Rightarrow> (s1, and_then r (\<lambda>txt. xen_parse_state txt (target_id (cs_target s)))))"

definition xen_pause :: "'v xen_session \<Rightarrow> 'v xen_session \<times> unit result" where
  "xen_pause s = (case xen_execute s [''pause'', target_id (cs_target s)] of (s1, r) \<Rightarrow> (s1, and_then r (\<lambda>_. Inr ())))"

definition xen_resume :: "'v xen_session \<Rightarrow> 'v xen_session \<times> unit result" where
  "xen_resume s = (case xen_execute s [''unpause'', target_id (cs_target s)] of (s1, r) \<Rightarrow> (s1, and_then r (\<lambda>_. Inr ())))"

definition xen_save_physical_range ::
  "host_env \<Rightarrow> 'v xen_session \<Rightarrow> string \<Rightarrow> gpa \<Rightarrow> u64 \<Rightarrow> 'v xen_session \<times> unit result" where
  "xen_save_physical_range env = save_range_through ''Xen'' xen_core_file (dump_core env) env"

definition xen_save_snapshot :: "host_env \<Rightarrow> 'v xen_session \<Rightarrow> string \<Rightarrow> 'v xen_session \<times> unit result" where
  "xen_save_snapshot env s path = dump_core env s path"

section \<open>Facets\<close>

definition xen_capability_missing :: "string \<Rightarrow> capability \<Rightarrow> vmi_error result" where
  "xen_capability_missing id_text capability =
     and_then (try_owned_id id_text ''Xen provider ID'') (\<lambda>owned. Inr (CapabilityMissing owned capability))"

definition require_transport :: "'t option \<Rightarrow> string \<Rightarrow> capability \<Rightarrow> 't result" where
  "require_transport transport id_text capability =
     (case transport of Some t \<Rightarrow> Inr t | None \<Rightarrow> err_of (xen_capability_missing id_text capability))"

definition xen_read_into :: "'v xen_session \<Rightarrow> read_into" where
  "xen_read_into s address buffer =
     (case require_transport (xs_memory s) (provider_id (cs_descriptor s)) MemoryRead of
        Inl e \<Rightarrow> (buffer, Inl e)
      | Inr t \<Rightarrow> xm_read_into t (cs_world s) address buffer)"

definition xen_write :: "'v xen_session \<Rightarrow> gpa \<Rightarrow> u8 list \<Rightarrow> 'v xen_session \<times> unit result" where
  "xen_write s address data =
     (case require_transport (xs_memory s) (provider_id (cs_descriptor s)) MemoryWrite of
        Inl e \<Rightarrow> (s, Inl e)
      | Inr t \<Rightarrow> (case xm_write t (cs_world s) address data of (w, r) \<Rightarrow> (s\<lparr>cs_world := w\<rparr>, r)))"

definition xen_read_register :: "'v xen_session \<Rightarrow> u32 \<Rightarrow> string \<Rightarrow> u64 result" where
  "xen_read_register s vcpu wanted =
     and_then (validate_register wanted) (\<lambda>_.
     and_then (require_transport (xs_cpu s) (provider_id (cs_descriptor s)) RegisterRead) (\<lambda>cpu.
       xc_read_register cpu (cs_world s) vcpu wanted))"

definition xen_write_register :: "'v xen_session \<Rightarrow> u32 \<Rightarrow> string \<Rightarrow> u64 \<Rightarrow> 'v xen_session \<times> unit result" where
  "xen_write_register s vcpu wanted v =
     (case and_then (validate_register wanted) (\<lambda>_.
        require_transport (xs_cpu s) (provider_id (cs_descriptor s)) RegisterWrite) of
        Inl e \<Rightarrow> (s, Inl e)
      | Inr cpu \<Rightarrow>
          if \<not> xc_supports_write cpu then
            (s, err_of (xen_capability_missing (provider_id (cs_descriptor s)) RegisterWrite))
          else (case xc_write_register cpu (cs_world s) vcpu wanted v of (w, r) \<Rightarrow> (s\<lparr>cs_world := w\<rparr>, r)))"

definition xen_next_event :: "'v xen_session \<Rightarrow> 'v xen_session \<times> vmi_event option result" where
  "xen_next_event s =
     (case require_transport (xs_events s) (provider_id (cs_descriptor s)) Events of
        Inl e \<Rightarrow> (s, Inl e)
      | Inr t \<Rightarrow> (case t (cs_world s) of (w, r) \<Rightarrow> (s\<lparr>cs_world := w\<rparr>, r)))"

text \<open>A facet that needs a transport is there exactly when the transport is.\<close>

definition xen_facet :: "'t option \<Rightarrow> capability \<Rightarrow> 'f \<Rightarrow> 'v xen_session \<Rightarrow> 'f result" where
  "xen_facet transport capability facet s =
     (case transport of
        Some _ \<Rightarrow> Inr facet
      | None \<Rightarrow> err_of (xen_capability_missing (provider_id (cs_descriptor s)) capability))"

definition xen_session_ops :: "host_env \<Rightarrow> 'v xen_session session" where
  "xen_session_ops env =
     \<lparr>provider = cs_descriptor, target = cs_target, capabilities = (\<lambda>s. provider_capabilities (cs_descriptor s)),
      memory_impl = Some (\<lambda>s. xen_facet (xs_memory s) MemoryRead xen_read_into s),
      memory_write_impl = Some (\<lambda>s. xen_facet (xs_memory s) MemoryWrite xen_write s),
      cpu_impl = Some (\<lambda>s. xen_facet (xs_cpu s) RegisterRead
        \<lparr>read_register = xen_read_register, write_register = xen_write_register\<rparr> s),
      control_impl = Some (\<lambda>_. Inr \<lparr>execution_state_of = (\<lambda>s. snd (xen_execution_state s)),
        pause = xen_pause, resume = xen_resume\<rparr>),
      events_impl = Some (\<lambda>s. xen_facet (xs_events s) Events xen_next_event s), views_impl = None,
      acquisition_impl = Some (\<lambda>_. Inr \<lparr>save_physical_range = xen_save_physical_range env,
        save_snapshot = xen_save_snapshot env\<rparr>),
      lifecycle_impl = None\<rparr>"

definition xen_connect ::
  "flag_ops \<Rightarrow> host_env \<Rightarrow> 'v xen_session \<Rightarrow> attach_request \<Rightarrow> ('v xen_session session \<times> 'v xen_session) result" where
  "xen_connect fl env c request =
     and_then (validate_target_name (target_id (cs_target c)) ''Xen domain'') (\<lambda>_.
     let missing = difference_of fl (required_capabilities request) (provider_capabilities (cs_descriptor c)) in
     if \<not> fl_is_empty fl (cap_bits missing) then
       and_then (try_owned_id (provider_id (cs_descriptor c)) ''Xen provider ID'')
         (\<lambda>owned. Inl (AttachRejected owned missing))
     else
       and_then
         (case request_selector request of
            NamedTarget expected \<Rightarrow>
              if expected \<noteq> target_id (cs_target c) then
                Inl (Backend (''Xen domain '' @ expected @ '' does not match '' @ target_id (cs_target c)))
              else Inr ()
          | AnyTarget \<Rightarrow> Inr ()) (\<lambda>_.
       case xen_execution_state c of
         (s1, r) \<Rightarrow> and_then r (\<lambda>_. Inr (xen_session_ops env, s1))))"

section \<open>Foreign pages (XenCtrlMemory)\<close>

text \<open>
  The library's view of a domain: whether the mapping function was found, the lock, the pages by frame number, the
  frames that cannot be mapped for writing, and the frames whose unmapping fails. The conversions between \<open>usize\<close> and \<open>u64\<close> and the differences that the
  code checks cannot fail on a 64-bit host.
\<close>

record xenctrl =
  xctl_map_symbol :: "string option"
  xctl_poisoned :: bool
  xctl_pages :: "u64 \<Rightarrow> u8 list option"
  xctl_read_only :: "u64 \<Rightarrow> bool"
  xctl_unmap_fails :: "u64 \<Rightarrow> bool"

text \<open>The protection of a mapping, with the constants of the C library, and the mapping of one frame with it.\<close>

definition PROT_READ :: u32 where
  "PROT_READ = 1"

definition PROT_WRITE :: u32 where
  "PROT_WRITE = 2"

definition xen_protection :: "bool \<Rightarrow> u32" where
  "xen_protection is_write = (if is_write then PROT_READ OR PROT_WRITE else PROT_READ)"

definition map_foreign_page :: "xenctrl \<Rightarrow> u32 \<Rightarrow> u64 \<Rightarrow> u8 list option" where
  "map_foreign_page x protection gfn =
     (if protection AND PROT_WRITE \<noteq> 0 \<and> xctl_read_only x gfn then None else xctl_pages x gfn)"

lemma map_foreign_page_simps [simp]:
  "map_foreign_page x (xen_protection False) gfn = xctl_pages x gfn"
  "map_foreign_page x (xen_protection True) gfn = (if xctl_read_only x gfn then None else xctl_pages x gfn)"
  by (simp_all add: map_foreign_page_def xen_protection_def PROT_READ_def PROT_WRITE_def)

text \<open>One page: the page after a write and the buffer after a read.\<close>

definition transfer_page :: "bool \<Rightarrow> u8 list \<Rightarrow> nat \<Rightarrow> u8 list \<Rightarrow> nat \<Rightarrow> nat \<Rightarrow> u8 list \<times> u8 list" where
  "transfer_page is_write page page_offset buffer completed len =
     (if is_write then (splice page page_offset (take len (drop completed buffer)), buffer)
      else (page, splice buffer completed (take len (drop page_offset page))))"

lemma transfer_page_length:
  "transfer_page is_write page page_offset buffer completed len = (page', buffer') \<Longrightarrow>
   len \<le> length buffer - completed \<Longrightarrow> completed < length buffer \<Longrightarrow> length buffer' = length buffer"
  by (auto simp: transfer_page_def split: if_splits)

lemma page_offset_eq: "unat (current AND 0xfff) = unat current mod 4096" for current :: u64
using unat_and_mask [of current 12] by (simp add: mask_eq_exp_minus_1)

lemma page_offset_less: "unat (current AND 0xfff) < 4096" for current :: u64
  by (simp add: page_offset_eq)

function xen_access_loop :: "bool \<Rightarrow> u64 \<Rightarrow> xenctrl \<Rightarrow> u8 list \<Rightarrow> usize \<Rightarrow> xenctrl \<times> u8 list \<times> unit result" where
  "xen_access_loop is_write address x buffer completed =
     (if \<not> completed < length buffer then (x, buffer, Inr ())
      else
        (case checked_add address (of_nat completed) of
           None \<Rightarrow> (x, buffer, Inl (Backend ''Xen physical address overflow''))
         | Some current \<Rightarrow>
             let page_offset = unat (current AND 0xfff);
                 len = min (4096 - page_offset) (length buffer - completed);
                 frame = drop_bit 12 current in
             (case map_foreign_page x (xen_protection is_write) frame of
                None \<Rightarrow> (x, buffer, Inl (Backend (''xc_map_foreign_pages failed for GFN '' @ hex0x frame)))
              | Some page \<Rightarrow>
                  (case transfer_page is_write page page_offset buffer completed len of
                     (page', buffer') \<Rightarrow>
                       let x' = x\<lparr>xctl_pages := (xctl_pages x)(frame \<mapsto> page')\<rparr> in
                       if xctl_unmap_fails x frame then
                         (x', buffer', Inl (Backend (''munmap failed after Xen GFN '' @ hex0x frame @ '' access'')))
                       else
                         (case usize_checked_add completed len of
                            None \<Rightarrow> (x', buffer', Inl (Backend ''Xen transfer progress overflow''))
                          | Some completed' \<Rightarrow> xen_access_loop is_write address x' buffer' completed')))))"
  by pat_completeness auto
termination
proof (relation "measure (\<lambda>(_, _, _, buffer, completed). length buffer - completed)", goal_cases)
  case (2 is_write address x buffer completed current page_offset len frame page page' buffer' x' completed')
  have "length buffer' = length buffer"
    using transfer_page_length [of is_write page page_offset buffer completed len page' buffer'] 2 by simp
  moreover have "0 < len" "completed' = completed + len"
    using 2 page_offset_less [of current] by (auto simp: usize_checked_add_def split: if_splits)
  ultimately show ?case using 2(1) by simp
qed simp

declare xen_access_loop.simps [simp del]

definition xen_access :: "bool \<Rightarrow> xenctrl \<Rightarrow> gpa \<Rightarrow> u8 list \<Rightarrow> xenctrl \<times> u8 list \<times> unit result" where
  "xen_access is_write x address buffer =
     (case xctl_map_symbol x of
        Some e \<Rightarrow> (x, buffer, Inl (Backend (''missing xc_map_foreign_pages: '' @ e)))
      | None \<Rightarrow>
          if xctl_poisoned x then (x, buffer, Inl (Backend ''xenctrl interface lock is poisoned''))
          else xen_access_loop is_write (gpa_raw address) x buffer 0)"

definition xenctrl_read_into :: "xenctrl \<Rightarrow> read_into" where
  "xenctrl_read_into x address buffer = snd (xen_access False x address buffer)"

definition xenctrl_write :: "xenctrl \<Rightarrow> gpa \<Rightarrow> u8 list \<Rightarrow> xenctrl \<times> unit result" where
  "xenctrl_write x address data =
     (if \<not> reservable (length data) then
        (x, Inl (Backend (''failed to allocate Xen write buffer: '' @ capacity_overflow)))
      else (case xen_access True x address data of (x', _, r) \<Rightarrow> (x', r)))"

text \<open>
  Opening: the first library that loads is asked for the interface, which may lack the function or return null.
\<close>

type_synonym xen_library = "u32 \<Rightarrow> string + xenctrl option"

definition xenctrl_open :: "(string \<Rightarrow> xen_library option) \<Rightarrow> u32 \<Rightarrow> xenctrl result" where
  "xenctrl_open load domain_id =
     and_then (case filter (\<lambda>l. l \<noteq> None) (map load [''libxenctrl.so.4.19'', ''libxenctrl.so.4.18'', ''libxenctrl.so'']) of
         Some lib # _ \<Rightarrow> Inr lib
       | _ \<Rightarrow> Inl (Backend ''unable to load libxenctrl'')) (\<lambda>lib.
     and_then (map_err (\<lambda>e. Backend (''missing xc_interface_open: '' @ e)) (lib domain_id)) (\<lambda>interface.
       ok_or interface (Backend ''xc_interface_open failed'')))"

definition xenctrl_transport :: "xenctrl xen_memory_transport" where
  "xenctrl_transport = \<lparr>xm_read_into = xenctrl_read_into, xm_write = xenctrl_write\<rparr>"

definition xen_with_xenctrl ::
  "flag_ops \<Rightarrow> (string \<Rightarrow> xen_library option) \<Rightarrow> string \<Rightarrow> u32 \<Rightarrow> guest_architecture \<Rightarrow> xenctrl command_transport \<Rightarrow>
   disk \<Rightarrow> u64 \<Rightarrow> u64 \<Rightarrow> xenctrl xen_session result" where
  "xen_with_xenctrl fl load domain domain_id architecture transport d cores ranges =
     and_then (xenctrl_open load domain_id) (\<lambda>x.
       Inr (xen_with_memory_transport fl (xen_with_transport fl domain architecture transport x d cores ranges)
         xenctrl_transport))"

section \<open>Foreign pages as bytes\<close>

definition xen_byte :: "xenctrl \<Rightarrow> nat \<Rightarrow> u8 option" where
  "xen_byte x n =
     (if n < 2 ^ 64 then map_option (\<lambda>page. page ! (n mod 4096)) (xctl_pages x (of_nat (n div 4096))) else None)"

definition xen_ready :: "xenctrl \<Rightarrow> bool" where
  "xen_ready x \<longleftrightarrow> xctl_map_symbol x = None \<and> \<not> xctl_poisoned x \<and> (\<forall>f. \<not> xctl_unmap_fails x f) \<and>
     (\<forall>f page. xctl_pages x f = Some page \<longrightarrow> length page = 4096)"

text \<open>The bytes of one chunk lie in the page of its first address.\<close>

lemma chunk_frame:
  fixes c :: u64
  assumes "unat c mod 4096 + k < 4096"
  shows "(unat c + k) div 4096 = unat c div 4096" "(unat c + k) mod 4096 = unat c mod 4096 + k" "unat c + k < 2 ^ 64"
    "of_nat (unat c div 4096) = drop_bit 12 c"
proof -
  define q where "q = unat c div 4096"
  have c: "unat c = 4096 * q + unat c mod 4096" by (simp add: q_def)
  have "unat c < 2 ^ 64" using unsigned_less [of c] by simp
  then have q: "q < 2 ^ 52" by (simp add: q_def less_mult_imp_div_less)
  have sum: "unat c + k = 4096 * q + (unat c mod 4096 + k)" using c by linarith
  have "(4096 * q + m) div 4096 = q" "(4096 * q + m) mod 4096 = m" if "m < 4096" for m
    using that by simp_all
  from this [OF assms] show "(unat c + k) div 4096 = unat c div 4096" "(unat c + k) mod 4096 = unat c mod 4096 + k"
    by (simp_all only: sum [symmetric]) (simp add: q_def)
  have "4096 * q + 4096 \<le> 2 ^ 64" using q by simp
  then show "unat c + k < 2 ^ 64" using sum assms by linarith
  show "of_nat (unat c div 4096) = drop_bit 12 c"
  proof (rule iffD2 [OF word_unat_eq_iff])
    have "unat (drop_bit 12 c) = unat c div 4096"
      by (simp add: drop_bit_eq_div unat_div_distrib)
    then show "unat (of_nat (unat c div 4096) :: u64) = unat (drop_bit 12 c)"
      using q by (simp add: unat_of_nat q_def)
  qed
qed

lemma xen_byte_chunk:
  assumes "unat c mod 4096 + k < 4096"
  shows "xen_byte x (unat c + k) = map_option (\<lambda>page. page ! (unat c mod 4096 + k)) (xctl_pages x (drop_bit 12 c))"
  unfolding xen_byte_def by (simp only: chunk_frame [OF assms] if_True)

text \<open>One turn of the loop on a ready library: overflow, an absent page, or the chunk transferred.\<close>

lemma xen_access_turn:
  fixes a :: u64
  assumes "xen_ready x" "completed < length buffer" "length buffer < usize_bound" "unat a + completed < 2 ^ 64"
  defines "c \<equiv> a + of_nat completed"
  defines "len \<equiv> min (4096 - unat c mod 4096) (length buffer - completed)"
  shows "unat c = unat a + completed" "0 < len" "unat c mod 4096 + len \<le> 4096" "completed + len \<le> length buffer"
    "xen_access_loop is_write a x buffer completed =
      (case map_foreign_page x (xen_protection is_write) (drop_bit 12 c) of
         None \<Rightarrow> (x, buffer, Inl (Backend (''xc_map_foreign_pages failed for GFN '' @ hex0x (drop_bit 12 c))))
       | Some page \<Rightarrow>
           (case transfer_page is_write page (unat c mod 4096) buffer completed len of
              (page', buffer') \<Rightarrow>
                xen_access_loop is_write a (x\<lparr>xctl_pages := (xctl_pages x)(drop_bit 12 c \<mapsto> page')\<rparr>) buffer'
                  (completed + len)))"
proof -
  have comp: "unat (of_nat completed :: u64) = completed"
    using assms(2,3) by (simp add: unat_of_nat usize_bound_def)
  then have add: "checked_add a (of_nat completed) = Some c"
    using assms(4) by (simp add: checked_add_def c_def)
  then show "unat c = unat a + completed" by (metis comp unat_checked_add)
  have "unat c mod 4096 < 4096" by simp
  with assms(2) show "0 < len" "unat c mod 4096 + len \<le> 4096" "completed + len \<le> length buffer"
    by (auto simp: len_def)
  then have "usize_checked_add completed len = Some (completed + len)"
    using assms(3) by (simp add: usize_checked_add_def)
  then show "xen_access_loop is_write a x buffer completed =
      (case map_foreign_page x (xen_protection is_write) (drop_bit 12 c) of
         None \<Rightarrow> (x, buffer, Inl (Backend (''xc_map_foreign_pages failed for GFN '' @ hex0x (drop_bit 12 c))))
       | Some page \<Rightarrow>
           (case transfer_page is_write page (unat c mod 4096) buffer completed len of
              (page', buffer') \<Rightarrow>
                xen_access_loop is_write a (x\<lparr>xctl_pages := (xctl_pages x)(drop_bit 12 c \<mapsto> page')\<rparr>) buffer'
                  (completed + len)))"
    using assms(1,2)
    by (subst xen_access_loop.simps)
      (simp add: add page_offset_eq xen_ready_def len_def [symmetric] Let_def split: option.split prod.split)
qed

lemma xen_access_overflow:
  fixes a :: u64
  assumes "completed < length buffer" "length buffer < usize_bound" "\<not> unat a + completed < 2 ^ 64"
  shows "xen_access_loop is_write a x buffer completed = (x, buffer, Inl (Backend ''Xen physical address overflow''))"
proof -
  have "unat (of_nat completed :: u64) = completed"
    using assms(1,2) by (simp add: unat_of_nat usize_bound_def)
  then have "checked_add a (of_nat completed) = None" using assms(3) by (simp add: checked_add_def)
  then show ?thesis using assms(1) by (subst xen_access_loop.simps) simp
qed

text \<open>The chunk of the turn, byte by byte.\<close>

lemma xen_chunk_bytes:
  assumes "unat c = unat a + completed" "unat c mod 4096 + len \<le> 4096" "completed \<le> i" "i < completed + len"
  shows "xen_byte x (unat a + i) =
    map_option (\<lambda>page. page ! (unat c mod 4096 + (i - completed))) (xctl_pages x (drop_bit 12 c))"
proof -
  have "unat c mod 4096 + (i - completed) < 4096" "unat a + i = unat c + (i - completed)"
    using assms by linarith+
  then show ?thesis using xen_byte_chunk [of c "i - completed" x] by simp
qed

lemma all_range_split:
  "a + n \<le> m \<Longrightarrow> (\<forall>i. a \<le> i \<and> i < m \<longrightarrow> P i) \<longleftrightarrow>
     (\<forall>i. a \<le> i \<and> i < a + n \<longrightarrow> P i) \<and> (\<forall>i. a + n \<le> i \<and> i < m \<longrightarrow> P i)" for a n m :: nat
  by (metis add_leD1 leI less_le_trans le_trans)

lemma xen_read_loop:
  assumes "xen_ready x" "completed \<le> length buffer" "length buffer < usize_bound"
    "xen_access_loop False a x buffer completed = (x', buffer', r)"
  shows "x' = x \<and> length buffer' = length buffer \<and> take completed buffer' = take completed buffer \<and>
    (r = Inr () \<longleftrightarrow> (\<forall>i. completed \<le> i \<and> i < length buffer \<longrightarrow> xen_byte x (unat a + i) \<noteq> None)) \<and>
    (r = Inr () \<longrightarrow> (\<forall>i. completed \<le> i \<and> i < length buffer \<longrightarrow> xen_byte x (unat a + i) = Some (buffer' ! i)))"
  using assms
proof (induction "length buffer - completed" arbitrary: buffer completed rule: less_induct)
  case less
  show ?case
  proof (cases "completed < length buffer")
    case False
    then show ?thesis using less.prems by (auto simp: xen_access_loop.simps)
  next
    case True
    show ?thesis
    proof (cases "unat a + completed < 2 ^ 64")
      case False
      then have "xen_byte x (unat a + completed) = None" by (simp add: xen_byte_def)
      with xen_access_overflow [OF True less.prems(3) False, of False x] less.prems(4) True show ?thesis by auto
    next
      case small: True
      define c where "c = a + of_nat completed"
      define len where "len = min (4096 - unat c mod 4096) (length buffer - completed)"
      note turn = xen_access_turn [OF less.prems(1) True less.prems(3) small, folded c_def, folded len_def]
      note chunk = xen_chunk_bytes [OF turn(1,3)]
      show ?thesis
      proof (cases "xctl_pages x (drop_bit 12 c)")
        case None
        then have "xen_byte x (unat a + completed) = None" using chunk [of completed x] turn(2) by simp
        with None turn(5) [of False] less.prems(4) True show ?thesis by auto
      next
        case (Some page)
        then have page: "length page = 4096" using less.prems(1) by (simp add: xen_ready_def)
        define part where "part = take len (drop (unat c mod 4096) page)"
        define b1 where "b1 = splice buffer completed part"
        have part: "length part = len" using page turn(3) by (simp add: part_def)
        have b1: "length b1 = length buffer" "take completed b1 = take completed buffer"
          using turn(4) part by (simp_all add: b1_def splice_def)
        have "xen_access_loop False a x b1 (completed + len) = (x', buffer', r)"
          using turn(5) [of False] Some less.prems(4)
          by (simp add: transfer_page_def fun_upd_idem part_def b1_def)
        moreover have "length b1 - (completed + len) < length buffer - completed"
          using b1(1) turn(2,4) by simp
        ultimately have IH: "x' = x" "length buffer' = length b1" "take (completed + len) buffer' = take (completed + len) b1"
          "r = Inr () \<longleftrightarrow> (\<forall>i. completed + len \<le> i \<and> i < length b1 \<longrightarrow> xen_byte x (unat a + i) \<noteq> None)"
          "r = Inr () \<Longrightarrow> \<forall>i. completed + len \<le> i \<and> i < length b1 \<longrightarrow> xen_byte x (unat a + i) = Some (buffer' ! i)"
          using less.hyps [of b1 "completed + len"] less.prems(1,3) b1(1) turn(4) by simp_all
        have here: "xen_byte x (unat a + i) = Some (buffer' ! i)" if "completed \<le> i" "i < completed + len" for i
        proof -
          have "buffer' ! i = b1 ! i" using IH(3) that by (metis nth_take)
          also have "\<dots> = page ! (unat c mod 4096 + (i - completed))"
            using that turn(3,4) part page by (simp add: b1_def nth_splice) (simp add: part_def)
          finally show ?thesis using chunk [OF that] Some by simp
        qed
        have "take completed buffer' = take completed buffer"
          using IH(3) b1(2) by (metis take_take min.absorb1 le_add1)
        with IH b1(1) here show ?thesis
          using all_range_split [of "completed" "len" "length buffer"] turn(4) by auto
      qed
    qed
  qed
qed

lemma frame_inj:
  fixes c :: u64
  assumes "n < 2 ^ 64"
  shows "of_nat (n div 4096) = drop_bit 12 c \<longleftrightarrow> n div 4096 = unat c div 4096"
proof -
  have "n div 4096 < 2 ^ 64" using assms by (meson div_le_dividend le_less_trans)
  then have "unat (of_nat (n div 4096) :: u64) = n div 4096" by (simp add: unat_of_nat)
  moreover have "unat (drop_bit 12 c) = unat c div 4096" by (simp add: drop_bit_eq_div unat_div_distrib)
  ultimately show ?thesis by (simp add: word_unat_eq_iff)
qed

text \<open>A byte that is there and whose page can be mapped for writing.\<close>

definition xen_writable :: "xenctrl \<Rightarrow> nat \<Rightarrow> bool" where
  "xen_writable x n \<longleftrightarrow> xen_byte x n \<noteq> None \<and> \<not> xctl_read_only x (of_nat (n div 4096))"

lemma xen_writable_chunk:
  assumes "unat c = unat a + completed" "unat c mod 4096 + len \<le> 4096" "completed \<le> i" "i < completed + len"
  shows "xen_writable x (unat a + i) \<longleftrightarrow> xctl_pages x (drop_bit 12 c) \<noteq> None \<and> \<not> xctl_read_only x (drop_bit 12 c)"
proof -
  have k: "unat c mod 4096 + (i - completed) < 4096" and i: "unat a + i = unat c + (i - completed)"
    using assms by linarith+
  have "of_nat ((unat a + i) div 4096) = drop_bit 12 c" unfolding i chunk_frame(1) [OF k] by (rule chunk_frame(4) [OF k])
  then show ?thesis using xen_chunk_bytes [OF assms, of x] by (simp add: xen_writable_def)
qed

text \<open>Writing part of a page changes exactly the bytes of that part.\<close>

lemma xen_page_write:
  fixes c :: u64
  assumes "xctl_pages x (drop_bit 12 c) = Some page" "length page = 4096" "unat c mod 4096 + length part \<le> 4096"
  shows "xen_byte (x\<lparr>xctl_pages := (xctl_pages x)(drop_bit 12 c \<mapsto> splice page (unat c mod 4096) part)\<rparr>) n =
    (if unat c \<le> n \<and> n < unat c + length part then Some (part ! (n - unat c)) else xen_byte x n)"
proof (cases "n < 2 ^ 64 \<and> n div 4096 = unat c div 4096")
  case True
  define q where "q = unat c div 4096"
  have "n = 4096 * q + n mod 4096" "unat c = 4096 * q + unat c mod 4096"
    using True by (metis mult_div_mod_eq q_def)+
  then have iff: "unat c \<le> n \<and> n < unat c + length part \<longleftrightarrow>
      unat c mod 4096 \<le> n mod 4096 \<and> n mod 4096 < unat c mod 4096 + length part"
    and sub: "n - unat c = n mod 4096 - unat c mod 4096" by linarith+
  show ?thesis
    unfolding iff sub using True assms frame_inj [of n c] by (simp add: xen_byte_def nth_splice)
next
  case False
  have "\<not> (unat c \<le> n \<and> n < unat c + length part)"
  proof
    assume *: "unat c \<le> n \<and> n < unat c + length part"
    then have "unat c mod 4096 + (n - unat c) < 4096" using assms(3) by linarith
    from chunk_frame(1,3) [OF this] * False show False by simp
  qed
  moreover have "xen_byte (x\<lparr>xctl_pages := (xctl_pages x)(drop_bit 12 c \<mapsto> p)\<rparr>) n = xen_byte x n" for p
    using False frame_inj [of n c] by (auto simp: xen_byte_def)
  ultimately show ?thesis by auto
qed

lemma xen_write_loop:
  assumes "xen_ready x" "completed \<le> length buffer" "length buffer < usize_bound"
    "xen_access_loop True a x buffer completed = (x', buffer', r)"
  shows "xen_ready x' \<and> xctl_read_only x' = xctl_read_only x \<and>
    (\<forall>n. xen_byte x' n = None \<longleftrightarrow> xen_byte x n = None) \<and>
    (\<forall>n. n < unat a + completed \<or> unat a + length buffer \<le> n \<longrightarrow> xen_byte x' n = xen_byte x n) \<and>
    (r = Inr () \<longleftrightarrow> (\<forall>i. completed \<le> i \<and> i < length buffer \<longrightarrow> xen_writable x (unat a + i))) \<and>
    (r = Inr () \<longrightarrow> (\<forall>i. completed \<le> i \<and> i < length buffer \<longrightarrow> xen_byte x' (unat a + i) = Some (buffer ! i)))"
  using assms
proof (induction "length buffer - completed" arbitrary: x completed rule: less_induct)
  case less
  show ?case
  proof (cases "completed < length buffer \<and> unat a + completed < 2 ^ 64")
    case False
    show ?thesis
    proof (cases "completed < length buffer")
      case True
      with False have "\<not> xen_writable x (unat a + completed)" by (simp add: xen_writable_def xen_byte_def)
      with xen_access_overflow [OF True less.prems(3), of a True x] False True less.prems(1,4) show ?thesis by auto
    qed (use less.prems in \<open>auto simp: xen_access_loop.simps\<close>)
  next
    case True
    define c where "c = a + of_nat completed"
    define len where "len = min (4096 - unat c mod 4096) (length buffer - completed)"
    note turn = xen_access_turn [OF less.prems(1) conjunct1 [OF True] less.prems(3) conjunct2 [OF True],
        folded c_def, folded len_def]
    show ?thesis
    proof (cases "map_foreign_page x (xen_protection True) (drop_bit 12 c)")
      case None
      then have "\<not> xen_writable x (unat a + completed)"
        using xen_writable_chunk [OF turn(1,3), of completed x] turn(2) by (auto split: if_splits)
      with None turn(5) [of True] less.prems(1,4) True show ?thesis by auto
    next
      case mapped_page: (Some page)
      then have Some: "xctl_pages x (drop_bit 12 c) = Some page" "\<not> xctl_read_only x (drop_bit 12 c)" by (simp_all split: if_splits)
      then have page: "length page = 4096" using less.prems(1) by (simp add: xen_ready_def)
      define part where "part = take len (drop completed buffer)"
      define x1 where "x1 = x\<lparr>xctl_pages := (xctl_pages x)(drop_bit 12 c \<mapsto> splice page (unat c mod 4096) part)\<rparr>"
      have part: "length part = len" "\<And>k. k < len \<Longrightarrow> part ! k = buffer ! (completed + k)"
        using turn(4) by (simp_all add: part_def)
      have "xen_byte x1 n = (if unat c \<le> n \<and> n < unat c + len then Some (part ! (n - unat c)) else xen_byte x n)" for n
        using xen_page_write [OF Some(1) page, of part n] turn(3) part(1) by (simp add: x1_def)
      then have bytes: "xen_byte x1 n = (if unat a + completed \<le> n \<and> n < unat a + completed + len
          then Some (buffer ! (n - unat a)) else xen_byte x n)" for n
        using turn(1) part(2) [of "n - unat c"] by auto
      have mapped: "xen_writable x (unat a + i)" if "completed \<le> i" "i < completed + len" for i
        using xen_writable_chunk [OF turn(1,3) that, of x] Some by simp
      have ready: "xen_ready x1"
        using less.prems(1) page part(1) turn(3) by (auto simp: x1_def xen_ready_def)
      have "xen_access_loop True a x1 buffer (completed + len) = (x', buffer', r)"
        using turn(5) [of True] mapped_page less.prems(4) by (simp add: transfer_page_def part_def x1_def)
      moreover have "length buffer - (completed + len) < length buffer - completed" using turn(2,4) by simp
      ultimately have IH: "xen_ready x'" "xctl_read_only x' = xctl_read_only x1" "\<forall>n. xen_byte x' n = None \<longleftrightarrow> xen_byte x1 n = None"
        "\<forall>n. n < unat a + (completed + len) \<or> unat a + length buffer \<le> n \<longrightarrow> xen_byte x' n = xen_byte x1 n"
        "r = Inr () \<longleftrightarrow> (\<forall>i. completed + len \<le> i \<and> i < length buffer \<longrightarrow> xen_writable x1 (unat a + i))"
        "r = Inr () \<Longrightarrow> \<forall>i. completed + len \<le> i \<and> i < length buffer \<longrightarrow> xen_byte x' (unat a + i) = Some (buffer ! i)"
        using less.hyps [of "completed + len" x1] ready less.prems(3) turn(4) by simp_all
      note split = all_range_split [OF turn(4)]
      have "xen_byte x' (unat a + i) = Some (buffer ! i)" if "completed \<le> i" "i < completed + len" for i
        using IH(4) bytes [of "unat a + i"] that by simp
      moreover have none: "xen_byte x1 n = None \<longleftrightarrow> xen_byte x n = None" for n
        using bytes [of n] mapped [of "n - unat a"] by (auto simp: xen_writable_def split: if_splits)
      moreover have "xctl_read_only x1 = xctl_read_only x" by (simp add: x1_def)
      moreover from this none have "xen_writable x1 n = xen_writable x n" for n by (simp add: xen_writable_def)
      moreover have "xen_byte x' n = xen_byte x n" if "n < unat a + completed \<or> unat a + length buffer \<le> n" for n
        using IH(4) bytes [of n] that turn(4) by auto
      ultimately show ?thesis
        using IH mapped unfolding split by simp
    qed
  qed
qed

interpretation xenmem: byte_memory xenctrl_read_into xen_byte xen_ready
proof
  fix x a i and buf :: "u8 list"
  assume ok: "xen_ready x" and len: "length buf < usize_bound"
  obtain x' buf' r where run: "xen_access_loop False (gpa_raw a) x buf 0 = (x', buf', r)" by (metis prod_cases3)
  then have eq: "xenctrl_read_into x a buf = (buf', r)"
    using ok by (simp add: xenctrl_read_into_def xen_access_def xen_ready_def)
  note loop = xen_read_loop [OF ok le0 len run]
  show "length (fst (xenctrl_read_into x a buf)) = length buf" using loop eq by simp
  show "snd (xenctrl_read_into x a buf) = Inr () \<longleftrightarrow> (\<forall>i < length buf. xen_byte x (unat (gpa_raw a) + i) \<noteq> None)"
    using loop eq by simp
  assume "snd (xenctrl_read_into x a buf) = Inr ()" "i < length buf"
  then show "xen_byte x (unat (gpa_raw a) + i) = Some (fst (xenctrl_read_into x a buf) ! i)"
    using loop eq by simp
qed

text \<open>
  C32: Access to a domain's memory through foreign pages, over any number of pages and any alignment. A write succeeds
  exactly when every page that it touches can be mapped for writing; it then stores exactly its data and changes no other byte, and a
  read of the same range returns the data. A write that fails changes no byte outside its range.
\<close>

theorem xenctrl_write_exact:
  assumes "xen_ready x" "reservable (length data)" "xenctrl_write x (Gpa a) data = (x', r)"
  shows "(r = Inr () \<longleftrightarrow> (\<forall>i < length data. xen_byte x (unat a + i) \<noteq> None \<and>
        \<not> xctl_read_only x (of_nat ((unat a + i) div 4096)))) \<and>
    (\<forall>n. n < unat a \<or> unat a + length data \<le> n \<longrightarrow> xen_byte x' n = xen_byte x n) \<and>
    (r = Inr () \<longrightarrow> read_bytes (xenctrl_read_into x') (Gpa a) (length data) = Inr data)"
proof -
  obtain buf' where run: "xen_access_loop True a x data 0 = (x', buf', r)"
    using assms by (auto simp: xenctrl_write_def xen_access_def xen_ready_def split: prod.splits)
  note loop = xen_write_loop [OF assms(1) le0 reservable_usize [OF assms(2)] run]
  then have "r = Inr () \<Longrightarrow> read_bytes (xenctrl_read_into x') (Gpa a) (length data) = Inr data"
    using xenmem.read_bytes_Inr [OF _ assms(2), of x'] by simp
  with loop show ?thesis by (simp add: xen_writable_def)
qed

definition sample_xenctrl :: xenctrl where
  "sample_xenctrl = \<lparr>xctl_map_symbol = None, xctl_poisoned = False,
     xctl_pages = (\<lambda>f. if f < 2 then Some (replicate 4096 0) else None),
     xctl_read_only = (\<lambda>f. 2 \<le> f), xctl_unmap_fails = (\<lambda>_. False)\<rparr>"

theorem xenctrl_write_exact_witness:
  "\<exists>x'. xenctrl_write sample_xenctrl (Gpa 0xffe) [1, 2, 3, 4] = (x', Inr ()) \<and>
     read_bytes (xenctrl_read_into x') (Gpa 0xffe) 4 = Inr [1, 2, 3, 4]"
proof -
  have ready: "xen_ready sample_xenctrl"
    by (auto simp: xen_ready_def sample_xenctrl_def split: if_splits)
  obtain x' r where run: "xenctrl_write sample_xenctrl (Gpa 0xffe) [1, 2, 3, 4] = (x', r)" by fastforce
  have "xen_byte sample_xenctrl n \<noteq> None \<and> \<not> xctl_read_only sample_xenctrl (of_nat (n div 4096))" if "n < 8192" for n
  proof -
    have "n div 4096 < 2" using that by simp
    then have "(of_nat (n div 4096) :: u64) < 2" by (simp add: word_less_nat_alt unat_of_nat)
    then show ?thesis using that by (simp add: xen_byte_def sample_xenctrl_def not_le)
  qed
  moreover have len: "length [1, 2, 3, 4 :: u8] = 4" "reservable 4" by (simp_all add: reservable_def isize_max_def)
  note exact = xenctrl_write_exact [OF ready _ run, unfolded len(1), OF len(2)]
  ultimately have "r = Inr ()" by simp
  with exact run show ?thesis by simp
qed

section \<open>Acquisition and capabilities\<close>

lemma xen_range_exact:
  assumes "xen_save_physical_range env s path start len = (s', Inr ())"
  shows "\<exists>s1 temporary s2 b bytes. core_dump_path ''Xen'' env path s = (s1, Inr temporary) \<and>
    dump_core env s1 temporary = (s2, Inr ()) \<and>
    xen_core_file (disk_fs (cs_disk s2)) temporary = Inr b \<and> length bytes = unat len \<and>
    (\<forall>i < unat len. bundle_byte b (unat (gpa_raw start) + i) = Some (bytes ! i)) \<and>
    temporary \<noteq> path \<and> map_of (cs_disk s2) path = None \<and>
    map_of (cs_disk s') = (map_of (cs_disk s2))(path \<mapsto> bytes, temporary := None)"
  using assms unfolding xen_save_physical_range_def
  by (rule xen_core.save_range_through_Inr) blast

text \<open>The builder methods, and the connector that a sequence of their calls makes.\<close>

datatype 'v xen_builder = WithMemory "'v xen_memory_transport" | WithCpu "'v xen_cpu_transport" | WithXenctx u32
  | WithEvents "'v xen_event_transport"

type_synonym 'v xenctx_runner = "'v \<Rightarrow> process_transport \<Rightarrow> string list \<Rightarrow> (exit_status \<times> u8 list \<times> u8 list) result"

fun xen_apply :: "flag_ops \<Rightarrow> 'v xenctx_runner \<Rightarrow> 'v xen_session \<Rightarrow> 'v xen_builder \<Rightarrow> 'v xen_session" where
  "xen_apply fl commands c (WithMemory m) = xen_with_memory_transport fl c m"
| "xen_apply fl commands c (WithCpu p) = xen_with_cpu_transport fl c p"
| "xen_apply fl commands c (WithXenctx n) = xen_with_xenctx fl commands c n"
| "xen_apply fl commands c (WithEvents e) = xen_with_event_transport fl c e"

fun xen_build :: "flag_ops \<Rightarrow> 'v xenctx_runner \<Rightarrow> 'v xen_session \<Rightarrow> 'v xen_builder list \<Rightarrow> 'v xen_session" where
  "xen_build fl commands c [] = c"
| "xen_build fl commands c (b # bs) = xen_build fl commands (xen_apply fl commands c b) bs"

lemma xen_build_snoc [simp]: "xen_build fl commands c (bs @ [b]) = xen_apply fl commands (xen_build fl commands c bs) b"
  by (induction bs arbitrary: c) simp_all

text \<open>The transports that the calls leave: the last of each kind.\<close>

definition last_of :: "('b \<Rightarrow> 'a option) \<Rightarrow> 'b list \<Rightarrow> 'a option" where
  "last_of f bs = fold (\<lambda>b kept. case f b of Some t \<Rightarrow> Some t | None \<Rightarrow> kept) bs None"




definition writable_given :: "'v xen_builder list \<Rightarrow> bool" where
  "writable_given bs \<longleftrightarrow> (\<exists>p. WithCpu p \<in> set bs \<and> xc_supports_write p)"

definition xen_offers :: "flag_ops \<Rightarrow> 'v xen_session \<Rightarrow> capability \<Rightarrow> bool" where
  "xen_offers fl c = contains_capability fl (provider_capabilities (cs_descriptor c))"

lemma offers_add_capability:
  "flags_documented fl \<Longrightarrow> xen_offers fl (add_capability fl k c) d \<longleftrightarrow> xen_offers fl c d \<or> d = k"
  by (simp add: xen_offers_def add_capability_def contains_insert_capability)

lemma add_capability_fields [simp]:
  "xs_memory (add_capability fl k c) = xs_memory c" "xs_cpu (add_capability fl k c) = xs_cpu c"
  "xs_events (add_capability fl k c) = xs_events c"
  by (simp_all add: add_capability_def)

lemma offers_transport_update [simp]:
  "xen_offers fl (c\<lparr>xs_memory := m\<rparr>) = xen_offers fl c" "xen_offers fl (c\<lparr>xs_cpu := p\<rparr>) = xen_offers fl c"
  "xen_offers fl (c\<lparr>xs_events := e\<rparr>) = xen_offers fl c"
  by (simp_all add: xen_offers_def fun_eq_iff)


lemma isl_err_of [simp]: "isl (err_of r)"
  by (simp add: err_of_def split: sum.split)


lemma last_of_snoc [simp]:
  "last_of f [] = None" "last_of f (bs @ [b]) = (case f b of Some t \<Rightarrow> Some t | None \<Rightarrow> last_of f bs)"
  by (simp_all add: last_of_def split: option.split)

lemma writable_given_snoc [simp]:
  "\<not> writable_given []"
  "writable_given (bs @ [b]) \<longleftrightarrow> writable_given bs \<or> (\<exists>p. b = WithCpu p \<and> xc_supports_write p)"
  by (auto simp: writable_given_def)




text \<open>
  The converse for register writes fails: replacing a transport that writes by one that only reads leaves the
  capability advertised, and a write that the request was granted is refused.
\<close>

lemma xen_stale_register_write:
  fixes commands and n
  assumes "flags_documented fl" "xc_supports_write cpu" "valid_register wanted"
    "reservable (length (provider_id (cs_descriptor c)))"
  defines "stale \<equiv> xen_with_xenctx fl commands (xen_with_cpu_transport fl c cpu) n"
  shows "xen_offers fl stale RegisterWrite"
    "xen_write_register stale vcpu wanted v =
       (stale, Inl (CapabilityMissing (provider_id (cs_descriptor c)) RegisterWrite))"
proof -
  show "xen_offers fl stale RegisterWrite"
    using assms(2) by (simp add: stale_def xen_with_xenctx_def xen_with_cpu_transport_def offers_add_capability [OF assms(1)])
  have "xs_cpu stale = Some (read_only_cpu (\<lambda>w. xenctx_read_register (xenctx_new n) (commands w)))"
    "provider_id (cs_descriptor stale) = provider_id (cs_descriptor c)"
    by (simp_all add: stale_def xen_with_xenctx_def xen_with_cpu_transport_def add_capability_def Let_def)
  then show "xen_write_register stale vcpu wanted v =
       (stale, Inl (CapabilityMissing (provider_id (cs_descriptor c)) RegisterWrite))"
    using assms(3,4)
    by (simp add: xen_write_register_def validate_register_def require_transport_def read_only_cpu_def err_of_def
        xen_capability_missing_def try_owned_id_def)
qed

end
