(* ===== verification/Driver_Gdb.thy ===== *)
theory Driver_Gdb
  imports Driver_Core_Dump
begin

text \<open>
  The client of the GDB remote protocol in \<open>vmi-driver-qemu\<close>: framing with checksums and acknowledgements, and
  registers as little-endian hexadecimal text. The socket is a script of what its reads meet; what is sent is recorded.
\<close>

section \<open>The socket\<close>

text \<open>
  A byte that arrives, a clock that shows at the start of a read that the deadline is over, a read that times
  out, or one that fails. The end of the script is the end of the stream.
\<close>

datatype gdb_input = GotByte u8 | Late | Stalled | Failed string

record gdb_client =
  gdb_in :: "gdb_input list"
  gdb_out :: "u8 list"
  gdb_faults :: "string option list"
  gdb_timeout :: nat

definition GDB_PACKET_CAPACITY :: usize where
  "GDB_PACKET_CAPACITY = 1024 * 1024"

definition MAX_SOCKET_WAIT :: nat where
  "MAX_SOCKET_WAIT = 24 * 60 * 60 * 10 ^ 9"

definition bounded_socket_timeout :: "nat \<Rightarrow> nat" where
  "bounded_socket_timeout timeout = min timeout MAX_SOCKET_WAIT"

definition gdb_send :: "gdb_client \<Rightarrow> u8 list \<Rightarrow> gdb_client \<times> unit result" where
  "gdb_send c bytes =
     (case gdb_faults c of
        Some e # fs \<Rightarrow> (c\<lparr>gdb_faults := fs\<rparr>, Inl (Backend e))
      | fs \<Rightarrow> (c\<lparr>gdb_out := gdb_out c @ bytes, gdb_faults := drop 1 fs\<rparr>, Inr ()))"

fun read_exact_bytes :: "gdb_input list \<Rightarrow> nat \<Rightarrow> string \<Rightarrow> gdb_input list \<times> u8 list result" where
  "read_exact_bytes input 0 phase = (input, Inr [])"
| "read_exact_bytes [] (Suc n) phase = ([], Inl (Backend ''failed to fill whole buffer''))"
| "read_exact_bytes (GotByte b # input) (Suc n) phase =
     (case read_exact_bytes input n phase of (rest, r) \<Rightarrow> (rest, and_then r (\<lambda>bs. Inr (b # bs))))"
| "read_exact_bytes (Late # input) (Suc n) phase = read_exact_bytes input (Suc n) phase"
| "read_exact_bytes (Stalled # input) (Suc n) phase = (input, Inl (Timeout phase))"
| "read_exact_bytes (Failed e # input) (Suc n) phase = (input, Inl (Backend e))"

definition read_exact_before :: "gdb_input list \<Rightarrow> nat \<Rightarrow> string \<Rightarrow> gdb_input list \<times> u8 list result" where
  "read_exact_before input n phase =
     (case input of
        Late # rest \<Rightarrow> (rest, Inl (Timeout phase))
      | _ \<Rightarrow> read_exact_bytes input n phase)"

definition read_byte_before :: "gdb_input list \<Rightarrow> string \<Rightarrow> gdb_input list \<times> u8 result" where
  "read_byte_before input phase =
     (case read_exact_before input 1 phase of (rest, r) \<Rightarrow> (rest, and_then r (\<lambda>bs. Inr (hd bs))))"

lemma read_exact_bytes_shrinks: "length (fst (read_exact_bytes input n phase)) \<le> length input"
  by (induction input n phase rule: read_exact_bytes.induct) (auto split: prod.splits)

lemma read_byte_shrinks:
  "read_byte_before input phase = (rest, Inr b) \<Longrightarrow> length rest < length input"
  by (cases input; cases "hd input") (auto simp: read_byte_before_def read_exact_before_def One_nat_def split: prod.splits)

section \<open>Packets\<close>

definition wrapping_sum :: "u8 list \<Rightarrow> u8" where
  "wrapping_sum bs = fold (\<lambda>b acc. acc + b) bs 0"

definition ascii_bytes :: "string \<Rightarrow> u8 list" where
  "ascii_bytes s = map (\<lambda>c. of_nat (of_char c)) s"

text \<open>\<open>{:02x}\<close>\<close>

definition hex2 :: "u8 \<Rightarrow> string" where
  "hex2 b = (let h = fmt_radix 16 (unat b) in replicate (2 - length h) CHR ''0'' @ h)"

definition gdb_frame :: "u8 list \<Rightarrow> u8 list" where
  "gdb_frame payload = ascii_bytes ''$'' @ payload @ ascii_bytes (''#'' @ hex2 (wrapping_sum payload))"

text \<open>The loop that skips to the start of the response.\<close>

function response_start :: "gdb_input list \<Rightarrow> gdb_input list \<times> unit result" where
  "response_start input =
     (case read_byte_before input ''GDB response start'' of
        (rest, Inl e) \<Rightarrow> (rest, Inl e)
      | (rest, Inr b) \<Rightarrow> if b = 0x24 then (rest, Inr ()) else response_start rest)"
  by pat_completeness auto
termination by (relation "measure length") (auto dest: read_byte_shrinks [OF sym])

text \<open>The loop that collects the payload.\<close>

function response_payload :: "gdb_input list \<Rightarrow> u8 list \<Rightarrow> gdb_input list \<times> u8 list result" where
  "response_payload input response =
     (case read_byte_before input ''GDB response payload'' of
        (rest, Inl e) \<Rightarrow> (rest, Inl e)
      | (rest, Inr b) \<Rightarrow>
          if b = 0x23 then (rest, Inr response)
          else if length response = GDB_PACKET_CAPACITY then
            (rest, Inl (Backend (''GDB response exceeds '' @ dec GDB_PACKET_CAPACITY @ '' bytes'')))
          else if \<not> reservable (length response + 1) then
            (rest, Inl (Backend (''failed to grow GDB response buffer: '' @ capacity_overflow)))
          else response_payload rest (response @ [b]))"
  by pat_completeness auto
termination by (relation "measure (length \<circ> fst)") (auto dest: read_byte_shrinks [OF sym])

declare response_start.simps [simp del] response_payload.simps [simp del]

definition u8_from_str_radix :: "nat \<Rightarrow> string \<Rightarrow> string + u8" where
  "u8_from_str_radix radix s =
     and_then (from_str_radix radix s) (\<lambda>v.
       if v < 256 then Inr (ucast v) else Inl ''number too large to fit in target type'')"

definition check_response :: "u8 list \<Rightarrow> u8 list \<Rightarrow> unit result" where
  "check_response response checksum_bytes =
     and_then (map_err Backend (from_utf8 checksum_bytes)) (\<lambda>digits.
     and_then (map_err Backend (u8_from_str_radix 16 digits)) (\<lambda>expected.
     if expected \<noteq> wrapping_sum response then Inl (Backend ''GDB response checksum mismatch'') else Inr ()))"

definition decode_response :: "u8 list \<Rightarrow> string result" where
  "decode_response response =
     and_then (map_err Backend (from_utf8 response)) (\<lambda>txt.
     if starts_with txt ''E'' then Inl (Backend (''GDB command failed: '' @ txt)) else Inr txt)"

text \<open>Reading a whole response, up to its checksum.\<close>

definition read_response :: "gdb_input list \<Rightarrow> gdb_input list \<times> u8 list result" where
  "read_response input =
     (case read_byte_before input ''GDB acknowledgement'' of
        (i1, Inl e) \<Rightarrow> (i1, Inl e)
      | (i1, Inr b) \<Rightarrow>
          if b \<noteq> 0x2B then (i1, Inl (Backend ''GDB server rejected packet''))
          else
            (case response_start i1 of
               (i2, Inl e) \<Rightarrow> (i2, Inl e)
             | (i2, Inr _) \<Rightarrow>
                 (case response_payload i2 [] of
                    (i3, Inl e) \<Rightarrow> (i3, Inl e)
                  | (i3, Inr response) \<Rightarrow>
                      (case read_exact_before i3 2 ''GDB response checksum'' of
                         (i4, r) \<Rightarrow>
                           (i4, and_then r (\<lambda>cs. and_then (check_response response cs) (\<lambda>_. Inr response)))))))"

definition gdb_command :: "gdb_client \<Rightarrow> string \<Rightarrow> gdb_client \<times> string result" where
  "gdb_command c payload =
     (case gdb_send c (gdb_frame (ascii_bytes payload)) of
        (c1, Inl e) \<Rightarrow> (c1, Inl e)
      | (c1, Inr _) \<Rightarrow>
          (case gdb_send c1 [] of
             (c2, Inl e) \<Rightarrow> (c2, Inl e)
           | (c2, Inr _) \<Rightarrow>
               (case read_response (gdb_in c2) of
                  (rest, Inl e) \<Rightarrow> (c2\<lparr>gdb_in := rest\<rparr>, Inl e)
                | (rest, Inr response) \<Rightarrow>
                    (case gdb_send (c2\<lparr>gdb_in := rest\<rparr>) (ascii_bytes ''+'') of
                       (c3, Inl e) \<Rightarrow> (c3, Inl e)
                     | (c3, Inr _) \<Rightarrow> (c3, decode_response response)))))"

section \<open>Registers\<close>

definition try_format_command :: "usize \<Rightarrow> string \<Rightarrow> string \<Rightarrow> string result" where
  "try_format_command cap arguments description =
     (if \<not> reservable cap then
        Inl (Backend (''failed to allocate '' @ description @ '' command: '' @ capacity_overflow))
      else Inr arguments)"

definition gdb_hex_digit :: "u8 \<Rightarrow> char" where
  "gdb_hex_digit nibble = char_of (unat (if nibble < 10 then 48 + nibble else 97 + (nibble - 10)))"

definition encode_byte :: "u8 \<Rightarrow> string" where
  "encode_byte b = [gdb_hex_digit (drop_bit 4 b), gdb_hex_digit (b AND 0xf)]"

definition encode_little_hex :: "u64 \<Rightarrow> usize \<Rightarrow> string result" where
  "encode_little_hex v width =
     (if width > 8 then Inl (Backend (''invalid GDB register width: '' @ dec width @ '' bytes''))
      else if \<not> reservable (width * 2) then
        Inl (Backend (''failed to allocate GDB register encoding: '' @ capacity_overflow))
      else Inr (concat (map encode_byte (take width (to_le_bytes v)))))"

definition hex_nibble :: "u8 \<Rightarrow> u8 option" where
  "hex_nibble v =
     (if 48 \<le> v \<and> v \<le> 57 then Some (v - 48)
      else if 97 \<le> v \<and> v \<le> 102 then Some (v - 97 + 10)
      else if 65 \<le> v \<and> v \<le> 70 then Some (v - 65 + 10)
      else None)"

fun decode_pairs :: "nat \<Rightarrow> u8 list \<Rightarrow> u8 list result" where
  "decode_pairs index (high_byte # low_byte # rest) =
     (case (hex_nibble high_byte, hex_nibble low_byte) of
        (Some high, Some low) \<Rightarrow> and_then (decode_pairs (index + 1) rest) (\<lambda>bs. Inr ((push_bit 4 high OR low) # bs))
      | _ \<Rightarrow> Inl (Backend (''invalid GDB register hex at byte '' @ dec (index * 2))))"
| "decode_pairs index _ = Inr []"

definition decode_little_hex :: "string \<Rightarrow> usize \<Rightarrow> u64 result" where
  "decode_little_hex v width =
     (if width > 8 \<or> width * 2 \<noteq> length v then
        Inl (Backend (''invalid GDB register width: '' @ dec (length v) @ '' hex digits''))
      else and_then (decode_pairs 0 (ascii_bytes v)) (\<lambda>bs. Inr (from_le_bytes (bs @ replicate (8 - length bs) 0))))"

definition gdb_read_register :: "gdb_client \<Rightarrow> u32 \<Rightarrow> usize \<Rightarrow> gdb_client \<times> u64 result" where
  "gdb_read_register c number width =
     (case try_format_command 9 (''p'' @ fmt_radix 16 (unat number)) ''GDB register read'' of
        Inl e \<Rightarrow> (c, Inl e)
      | Inr command \<Rightarrow>
          (case gdb_command c command of (c1, r) \<Rightarrow> (c1, and_then r (\<lambda>txt. decode_little_hex txt width))))"

definition gdb_thread_id :: "u32 \<Rightarrow> string result" where
  "gdb_thread_id vcpu =
     and_then (ok_or (checked_add vcpu 1) (Backend ''vCPU index is too large'')) (\<lambda>thread.
       try_format_command 8 (fmt_radix 16 (unat thread)) ''GDB thread ID'')"

definition gdb_select_vcpu :: "gdb_client \<Rightarrow> u32 \<Rightarrow> gdb_client \<times> unit result" where
  "gdb_select_vcpu c vcpu =
     (case and_then (gdb_thread_id vcpu) (\<lambda>thread.
        try_format_command 10 (''Hg'' @ thread) ''GDB thread selection'') of
        Inl e \<Rightarrow> (c, Inl e)
      | Inr command \<Rightarrow>
          (case gdb_command c command of
             (c1, r) \<Rightarrow>
               (c1, and_then r (\<lambda>txt.
                  if txt \<noteq> ''OK'' then
                    Inl (Backend (''GDB failed to select vCPU '' @ dec (unat vcpu) @ '': '' @ txt))
                  else Inr ()))))"

definition gdb_write_register :: "gdb_client \<Rightarrow> u32 \<Rightarrow> usize \<Rightarrow> u64 \<Rightarrow> gdb_client \<times> unit result" where
  "gdb_write_register c number width v =
     (case and_then (ok_or (usize_checked_mul width 8) (Backend ''GDB register width overflow'')) (\<lambda>bits.
        if width < 8 \<and> \<not> (bits < 64 \<and> unat v < 2 ^ bits) then
          Inl (Backend (''register value '' @ hex0x v @ '' does not fit '' @ dec width @ '' bytes''))
        else
          and_then (encode_little_hex v width) (\<lambda>encoded.
          and_then (ok_or (usize_checked_add (length encoded) 10)
            (Backend ''GDB register write command length overflow'')) (\<lambda>cap.
            try_format_command cap (''P'' @ fmt_radix 16 (unat number) @ ''='' @ encoded) ''GDB register write''))) of
        Inl e \<Rightarrow> (c, Inl e)
      | Inr command \<Rightarrow>
          (case gdb_command c command of
             (c1, r) \<Rightarrow>
               (c1, and_then r (\<lambda>txt.
                  if txt \<noteq> ''OK'' then Inl (Backend (''unexpected GDB write response: '' @ txt)) else Inr ()))))"

text \<open>The numbers and widths of the registers in the protocol.\<close>

definition amd64_registers :: "(string \<times> u32 \<times> usize) list" where
  "amd64_registers =
     [(''rax'', 0, 8), (''eax'', 0, 8), (''rbx'', 1, 8), (''ebx'', 1, 8), (''rcx'', 2, 8), (''ecx'', 2, 8),
      (''rdx'', 3, 8), (''edx'', 3, 8), (''rsi'', 4, 8), (''esi'', 4, 8), (''rdi'', 5, 8), (''edi'', 5, 8),
      (''rbp'', 6, 8), (''ebp'', 6, 8), (''rsp'', 7, 8), (''esp'', 7, 8), (''r8'', 8, 8), (''r9'', 9, 8),
      (''r10'', 10, 8), (''r11'', 11, 8), (''r12'', 12, 8), (''r13'', 13, 8), (''r14'', 14, 8), (''r15'', 15, 8),
      (''rip'', 16, 8), (''eip'', 16, 8), (''rflags'', 17, 4), (''eflags'', 17, 4), (''efl'', 17, 4)]"

definition amd64_register :: "string \<Rightarrow> (u32 \<times> usize) option" where
  "amd64_register name = map_of amd64_registers (to_ascii_lowercase name)"

section \<open>What a command accepts\<close>

lemma read_byte_Inr: "read_byte_before input phase = (rest, Inr b) \<longleftrightarrow> input = GotByte b # rest"
  by (cases input; cases "hd input") (auto simp: read_byte_before_def read_exact_before_def One_nat_def split: prod.splits)

text \<open>Bytes up to the first delimiter.\<close>

definition reads_until :: "u8 \<Rightarrow> gdb_input list \<Rightarrow> u8 list \<Rightarrow> gdb_input list \<Rightarrow> bool" where
  "reads_until d input bs rest \<longleftrightarrow> input = map GotByte bs @ GotByte d # rest \<and> d \<notin> set bs"

lemma reads_until_Cons:
  "reads_until d (GotByte b # input) bs rest \<longleftrightarrow>
     (if b = d then bs = [] \<and> input = rest else \<exists>cs. bs = b # cs \<and> reads_until d input cs rest)"
  by (cases bs) (auto simp: reads_until_def)

lemma reads_until_other:
  "\<not> reads_until d [] bs rest" "\<not> reads_until d (Late # i) bs rest" "\<not> reads_until d (Stalled # i) bs rest"
  "\<not> reads_until d (Failed e # i) bs rest"
  by (cases bs; simp add: reads_until_def)+

lemma read_byte_simps [simp]:
  "read_byte_before (GotByte b # i) phase = (i, Inr b)" "read_byte_before (Late # i) phase = (i, Inl (Timeout phase))"
  "read_byte_before (Stalled # i) phase = (i, Inl (Timeout phase))"
  "read_byte_before (Failed e # i) phase = (i, Inl (Backend e))"
  "read_byte_before [] phase = ([], Inl (Backend ''failed to fill whole buffer''))"
  by (simp_all add: read_byte_before_def read_exact_before_def One_nat_def)

lemma response_start_Inr:
  "response_start input = (rest, Inr ()) \<longleftrightarrow> (\<exists>junk. reads_until 0x24 input junk rest)"
proof (induction input)
  case Nil
  show ?case by (subst response_start.simps) (simp add: reads_until_other)
next
  case (Cons x input)
  then show ?case
    by (subst response_start.simps) (cases x; auto simp: reads_until_Cons reads_until_other)
qed

lemma response_payload_Inr:
  "length acc \<le> GDB_PACKET_CAPACITY \<Longrightarrow>
   response_payload input acc = (rest, Inr response) \<longleftrightarrow>
   (\<exists>bs. reads_until 0x23 input bs rest \<and> response = acc @ bs \<and> length response \<le> GDB_PACKET_CAPACITY)"
proof (induction input arbitrary: acc)
  case Nil
  show ?case by (subst response_payload.simps) (simp add: reads_until_other)
next
  case (Cons x input)
  show ?case
  proof (cases x)
    case (GotByte b)
    have "reservable (length acc + 1)"
      using Cons.prems by (simp add: GDB_PACKET_CAPACITY_def reservable_def isize_max_def)
    then have "response_payload (x # input) acc =
        (if b = 0x23 then (input, Inr acc)
         else if length acc = GDB_PACKET_CAPACITY then
           (input, Inl (Backend (''GDB response exceeds '' @ dec GDB_PACKET_CAPACITY @ '' bytes'')))
         else response_payload input (acc @ [b]))"
      using GotByte by (subst response_payload.simps) simp
    with Cons.IH [of "acc @ [b]"] Cons.prems GotByte show ?thesis
      by (auto simp: reads_until_Cons)
  qed (subst response_payload.simps, simp add: reads_until_other)+
qed

lemma read_exact_all: "n \<le> length bs \<Longrightarrow> read_exact_bytes (map GotByte bs) n phase = (map GotByte (drop n bs), Inr (take n bs))"
  by (induction bs arbitrary: n; case_tac n) auto

lemma read_exact_short: "length bs < n \<Longrightarrow> \<exists>e. read_exact_bytes (map GotByte bs) n phase = ([], Inl e)"
proof (induction bs arbitrary: n)
  case Nil
  then show ?case by (cases n) auto
next
  case (Cons b bs)
  then obtain m where "n = Suc m" "length bs < m" by (cases n) auto
  with Cons.IH [of m] show ?case by auto
qed

text \<open>
  The protocol's checksum, apart from the code: two hexadecimal digits, in either case, of the sum of the payload's bytes
  modulo 256. The number parser of the standard library also takes a plus sign in place of a leading zero.
\<close>

definition hex_value :: "u8 \<Rightarrow> nat option" where
  "hex_value d =
     (let n = unat d in
      if n \<in> {48..57} then Some (n - 48) else if n \<in> {65..70} then Some (n - 55)
      else if n \<in> {97..102} then Some (n - 87) else None)"

definition checksum_pair :: "u8 \<Rightarrow> u8 \<Rightarrow> nat \<Rightarrow> bool" where
  "checksum_pair high low n \<longleftrightarrow>
     (case (hex_value high, hex_value low) of
        (Some h, Some l) \<Rightarrow> n = 16 * h + l
      | (None, Some l) \<Rightarrow> high = 0x2B \<and> n = l
      | _ \<Rightarrow> False)"

lemma wrapping_sum_nat: "unat (wrapping_sum bs) = sum_list (map unat bs) mod 256"
proof -
  have "fold (\<lambda>b acc. acc + b) bs a = a + of_nat (sum_list (map unat bs))" for a :: u8
    by (induction bs arbitrary: a) (simp_all add: add.assoc)
  then show ?thesis by (simp add: wrapping_sum_def unat_of_nat)
qed

lemma to_digit_hex: "to_digit 16 (char_of (unat d)) = hex_value d"
  using unsigned_less [of d, where 'a = nat] by (auto simp: to_digit_def hex_value_def Let_def)

lemma hex_value_less: "hex_value d = Some n \<Longrightarrow> n < 16"
  by (auto simp: hex_value_def Let_def split: if_splits)

lemma hex_value_ascii: "hex_value d = Some n \<Longrightarrow> d < 0x80"
  by (auto simp: hex_value_def Let_def word_less_nat_alt split: if_splits)

lemma radix_loop_hex:
  "radix_loop 16 0 [c] = Inr v \<longleftrightarrow> (\<exists>l. to_digit 16 c = Some l \<and> v = of_nat l)"
  "radix_loop 16 0 [c, d] = Inr v \<longleftrightarrow> (\<exists>h l. to_digit 16 c = Some h \<and> to_digit 16 d = Some l \<and> v = of_nat (16 * h + l))"
proof -
  have digit: "n < 16" if "to_digit 16 ch = Some n" for ch n
    using that by (auto simp: to_digit_def Let_def split: if_splits)
  have small: "unat (of_nat n :: u64) = n" if "n < 512" for n using that by (simp add: unat_of_nat)
  have step: "checked_mul (of_nat h :: u64) 16 = Some (16 * of_nat h)"
    "checked_add (16 * of_nat h) (of_nat l) = Some (16 * of_nat h + of_nat l :: u64)"
    "checked_mul 0 16 = Some (0 :: u64)" "checked_add 0 (of_nat l) = Some (of_nat l :: u64)"
    if "h < 16" "l < 16" for h l
    using that small [of h] small [of l] small [of "16 * h"] by (simp_all add: checked_mul_def checked_add_def mult.commute)
  show "radix_loop 16 0 [c] = Inr v \<longleftrightarrow> (\<exists>l. to_digit 16 c = Some l \<and> v = of_nat l)"
    by (cases "to_digit 16 c") (auto simp: step dest: digit)
  show "radix_loop 16 0 [c, d] = Inr v \<longleftrightarrow> (\<exists>h l. to_digit 16 c = Some h \<and> to_digit 16 d = Some l \<and> v = of_nat (16 * h + l))"
    by (cases "to_digit 16 c"; cases "to_digit 16 d") (auto simp: step dest!: digit)
qed

text \<open>The code's check is the protocol's.\<close>

lemma check_response_pair:
  "check_response response [high, low] = Inr () \<longleftrightarrow> checksum_pair high low (sum_list (map unat response) mod 256)"
proof -
  let ?text = "[char_of (unat high), char_of (unat low)]"
  let ?sum = "sum_list (map unat response) mod 256"
  have value_iff: "(\<exists>v. from_str_radix 16 ?text = Inr v \<and> v < 256 \<and> ucast v = wrapping_sum response) \<longleftrightarrow> checksum_pair high low ?sum"
  proof -
    have fits: "of_nat n < (256 :: u64) \<and> ucast (of_nat n :: u64) = wrapping_sum response \<longleftrightarrow> n = ?sum" if "n < 256" for n
      using that by (simp add: word_less_nat_alt unat_of_nat word_unat_eq_iff wrapping_sum_nat unsigned_ucast_eq take_bit_nat_eq_self)
    have plus: "char_of (unat high) = CHR ''+'' \<longleftrightarrow> high = 0x2B"
    proof -
      have "of_char (char_of (unat high) :: char) = unat high" using unsigned_less [of high, where 'a = nat] by simp
      moreover have "of_char (CHR ''+'') = (43 :: nat)" by simp
      ultimately have "char_of (unat high) = CHR ''+'' \<longleftrightarrow> unat high = 43" by (metis of_char_eq_iff)
      then show ?thesis by (simp add: word_unat_eq_iff)
    qed
    have hit: "(\<exists>v. v = of_nat n \<and> v < (256 :: u64) \<and> ucast v = wrapping_sum response) \<longleftrightarrow> ?sum = n" if "n < 256" for n
      using fits [OF that] by auto
    show ?thesis
    proof (cases "high = 0x2B")
      case True
      then have none: "hex_value high = None" by (simp add: hex_value_def)
      from True plus have "from_str_radix 16 ?text = radix_loop 16 0 [char_of (unat low)]"
        by (simp add: from_str_radix_def del: radix_loop.simps)
      then have parsed: "from_str_radix 16 ?text = Inr v \<longleftrightarrow> (\<exists>l. hex_value low = Some l \<and> v = of_nat l)" for v
        by (simp only: radix_loop_hex(1) to_digit_hex)
      show ?thesis
      proof (cases "hex_value low")
        case (Some l)
        then show ?thesis
          using hit [of l] hex_value_less [OF Some] True none unfolding parsed by (simp add: checksum_pair_def)
      qed (simp add: parsed checksum_pair_def none)
    next
      case False
      with plus have "from_str_radix 16 ?text = radix_loop 16 0 ?text" by (simp add: from_str_radix_def del: radix_loop.simps)
      then have parsed: "from_str_radix 16 ?text = Inr v \<longleftrightarrow>
          (\<exists>h l. hex_value high = Some h \<and> hex_value low = Some l \<and> v = of_nat (16 * h + l))" for v
        by (simp only: radix_loop_hex(2) to_digit_hex)
      show ?thesis
      proof (cases "hex_value high = None \<or> hex_value low = None")
        case True
        then have "\<not> checksum_pair high low ?sum" using False by (auto simp: checksum_pair_def split: option.splits)
        with True show ?thesis unfolding parsed by auto
      next
        case False
        then obtain h l where digits: "hex_value high = Some h" "hex_value low = Some l" by auto
        then have "16 * h + l < 256" using hex_value_less [OF digits(1)] hex_value_less [OF digits(2)] by simp
        from hit [OF this] digits show ?thesis unfolding parsed by (simp add: checksum_pair_def)
      qed
    qed
  qed
  have decoded: "from_utf8 [high, low] = Inr ?text" if "checksum_pair high low n" for n
  proof -
    have "high < 0x80" "low < 0x80"
      using that hex_value_ascii by (auto simp: checksum_pair_def split: option.splits)
    then have "utf8_check 0 [high, low] = None" by (intro utf8_check_ascii) auto
    then show ?thesis by (simp add: from_utf8_def string_of_def)
  qed
  have "check_response response [high, low] = Inr () \<longleftrightarrow>
      from_utf8 [high, low] = Inr ?text \<and>
      (\<exists>v. from_str_radix 16 ?text = Inr v \<and> v < 256 \<and> ucast v = wrapping_sum response)"
    by (auto simp: check_response_def from_utf8_def string_of_def u8_from_str_radix_def map_err_def
        split: option.splits sum.splits if_splits)
  then show ?thesis using value_iff decoded by blast
qed

text \<open>A response is accepted exactly when it is framed, with the protocol's checksum, after the acknowledgement.\<close>

definition gdb_answer :: "u8 list \<Rightarrow> u8 list \<Rightarrow> u8 list \<Rightarrow> bool" where
  "gdb_answer bs response rest \<longleftrightarrow> (\<exists>junk high low. bs = 0x2B # junk @ 0x24 # response @ 0x23 # [high, low] @ rest \<and>
     0x24 \<notin> set junk \<and> 0x23 \<notin> set response \<and> length response \<le> GDB_PACKET_CAPACITY \<and>
     checksum_pair high low (sum_list (map unat response) mod 256))"

lemma gdb_answer_check:
  "gdb_answer bs response rest \<longleftrightarrow> (\<exists>junk cs. bs = 0x2B # junk @ 0x24 # response @ 0x23 # cs @ rest \<and>
     0x24 \<notin> set junk \<and> 0x23 \<notin> set response \<and> length response \<le> GDB_PACKET_CAPACITY \<and> length cs = 2 \<and>
     check_response response cs = Inr ())"
proof
  assume "gdb_answer bs response rest"
  then obtain junk high low where "bs = 0x2B # junk @ 0x24 # response @ 0x23 # [high, low] @ rest" "0x24 \<notin> set junk"
      "0x23 \<notin> set response" "length response \<le> GDB_PACKET_CAPACITY" "check_response response [high, low] = Inr ()"
    unfolding gdb_answer_def check_response_pair by blast
  then show "\<exists>junk cs. bs = 0x2B # junk @ 0x24 # response @ 0x23 # cs @ rest \<and>
     0x24 \<notin> set junk \<and> 0x23 \<notin> set response \<and> length response \<le> GDB_PACKET_CAPACITY \<and> length cs = 2 \<and>
     check_response response cs = Inr ()"
    by (intro exI [of _ junk] exI [of _ "[high, low]"]) simp
next
  assume "\<exists>junk cs. bs = 0x2B # junk @ 0x24 # response @ 0x23 # cs @ rest \<and>
     0x24 \<notin> set junk \<and> 0x23 \<notin> set response \<and> length response \<le> GDB_PACKET_CAPACITY \<and> length cs = 2 \<and>
     check_response response cs = Inr ()"
  then obtain junk cs where framed: "bs = 0x2B # junk @ 0x24 # response @ 0x23 # cs @ rest" "0x24 \<notin> set junk"
      "0x23 \<notin> set response" "length response \<le> GDB_PACKET_CAPACITY" "length cs = 2" "check_response response cs = Inr ()"
    by blast
  obtain high low where "cs = [high, low]" using framed(5) by (cases cs; cases "tl cs") auto
  with framed show "gdb_answer bs response rest"
    unfolding gdb_answer_def check_response_pair [symmetric] by (intro exI [of _ junk] exI [of _ high] exI [of _ low]) simp
qed

lemma map_GotByte_until:
  "reads_until d (map GotByte bs) xs i \<longleftrightarrow> (\<exists>rest. i = map GotByte rest \<and> bs = xs @ d # rest \<and> d \<notin> set xs)"
proof (induction bs arbitrary: xs)
  case Nil
  then show ?case by (simp add: reads_until_other)
next
  case (Cons b bs)
  then show ?case by (cases xs) (auto simp: reads_until_Cons)
qed

lemma read_exact_before_bytes:
  "read_exact_before (map GotByte bs) 2 phase = (i, Inr cs) \<longleftrightarrow>
     (\<exists>rest. i = map GotByte rest \<and> bs = cs @ rest \<and> length cs = 2)"
proof -
  have *: "read_exact_before (map GotByte bs) 2 phase = read_exact_bytes (map GotByte bs) 2 phase"
    by (cases bs) (simp_all add: read_exact_before_def)
  show ?thesis
  proof (cases "2 \<le> length bs")
    case True
    then show ?thesis unfolding * by (auto simp: read_exact_all)
  next
    case False
    then show ?thesis unfolding * using read_exact_short [of bs 2 phase] by auto
  qed
qed

lemma read_response_exact:
  "read_response (map GotByte bs) = (i, Inr response) \<longleftrightarrow> (\<exists>rest. i = map GotByte rest \<and> gdb_answer bs response rest)"
  (is "?l \<longleftrightarrow> ?r")
proof
  assume ?l
  then obtain i1 i2 i3 cs where ack: "read_byte_before (map GotByte bs) ''GDB acknowledgement'' = (i1, Inr 0x2B)"
    and start: "response_start i1 = (i2, Inr ())" and payload: "response_payload i2 [] = (i3, Inr response)"
    and cs: "read_exact_before i3 2 ''GDB response checksum'' = (i, Inr cs)" "check_response response cs = Inr ()"
    unfolding read_response_def by (auto split: prod.splits sum.splits if_splits)
  obtain bs1 where bs1: "bs = 0x2B # bs1" "i1 = map GotByte bs1" using ack by (auto simp: read_byte_Inr map_eq_Cons_conv)
  obtain junk bs2 where bs2: "i2 = map GotByte bs2" "bs1 = junk @ 0x24 # bs2" "0x24 \<notin> set junk"
    using start by (auto simp: response_start_Inr bs1 map_GotByte_until)
  obtain bs3 where bs3: "i3 = map GotByte bs3" "bs2 = response @ 0x23 # bs3" "0x23 \<notin> set response"
      "length response \<le> GDB_PACKET_CAPACITY"
    using payload by (auto simp: response_payload_Inr bs2 map_GotByte_until)
  with cs bs1 bs2 show ?r
    unfolding gdb_answer_check by (auto simp: read_exact_before_bytes)
next
  assume ?r
  then obtain rest junk cs where "i = map GotByte rest"
    and bs: "bs = 0x2B # junk @ 0x24 # response @ 0x23 # cs @ rest" "0x24 \<notin> set junk" "0x23 \<notin> set response"
      "length response \<le> GDB_PACKET_CAPACITY" "length cs = 2" "check_response response cs = Inr ()"
    unfolding gdb_answer_check by blast
  moreover have "response_start (map GotByte (junk @ 0x24 # response @ 0x23 # cs @ rest)) =
      (map GotByte (response @ 0x23 # cs @ rest), Inr ())"
    unfolding response_start_Inr map_GotByte_until using bs(2) by blast
  moreover have "response_payload (map GotByte (response @ 0x23 # cs @ rest)) [] = (map GotByte (cs @ rest), Inr response)"
    using bs(3,4) by (subst response_payload_Inr) (auto simp: map_GotByte_until simp del: map_append)
  moreover have "read_exact_before (map GotByte (cs @ rest)) 2 ''GDB response checksum'' = (map GotByte rest, Inr cs)"
    unfolding read_exact_before_bytes using bs(5) by blast
  ultimately show ?l
    unfolding read_response_def by (simp del: map_append)
qed

lemma wrapping_hex2_digits:
  "length (hex2 b) = 2 \<and> ascii (hex2 b) \<and> CHR ''+'' \<notin> set (hex2 b) \<and> radix_loop 16 0 (hex2 b) = Inr (ucast b)"
proof -
  have b: "unat b < 256" using unsigned_less [of b] by simp
  then have "unat b div 16 < 16" by simp
  then have len: "length (fmt_radix 16 (unat b)) \<le> 2"
    by (subst fmt_radix.simps, subst fmt_radix.simps) simp
  have "CHR ''+'' \<notin> digit_char ` {..<16}" using digit_char_range [of "CHR ''+''"] by auto
  then have plus: "CHR ''+'' \<notin> set (hex2 b)" using fmt_radix_digits [of 16 "unat b"] by (auto simp: hex2_def Let_def)
  have "ascii (hex2 b)"
    using printing_ascii [OF fmt_radix_printing [of 16 "unat b"]] by (auto simp: hex2_def Let_def ascii_def)
  moreover have "radix_loop 16 0 (hex2 b) = Inr (ucast b)"
    using radix_loop_fmt [of 16 "unat b"] b by (simp add: hex2_def Let_def radix_loop_zeros)
  ultimately show ?thesis using len plus by (simp add: hex2_def Let_def)
qed

lemma of_char_less: "of_char c < (256 :: nat)"
  using of_char_mod_256 [of c] by (metis mod_less_divisor zero_less_numeral)

lemma string_of_ascii_bytes: "string_of (ascii_bytes s) = s"
  by (induction s) (simp_all add: string_of_def ascii_bytes_def unat_of_nat of_char_less)

lemma from_utf8_ascii: "ascii s \<Longrightarrow> from_utf8 (ascii_bytes s) = Inr s"
proof -
  assume "ascii s"
  then have "utf8_check 0 (ascii_bytes s) = None"
    by (intro utf8_check_ascii) (auto simp: ascii_bytes_def ascii_def word_less_nat_alt unat_of_nat)
  then show ?thesis by (simp add: from_utf8_def string_of_ascii_bytes)
qed

lemma ucast_u8_u64: "ucast b < (256 :: u64)" "ucast (ucast b :: u64) = b" for b :: u8
proof -
  have b: "unat b < 256" using unsigned_less [of b] by simp
  then have eq: "unat (ucast b :: u64) = unat b"
    by (simp add: unsigned_ucast_eq take_bit_nat_eq_self)
  with b show "ucast b < (256 :: u64)" by (simp add: word_less_nat_alt)
  show "ucast (ucast b :: u64) = b" by (rule bit_word_eqI) (simp add: bit_simps)
qed

lemma check_response_frame: "check_response response (ascii_bytes (hex2 (wrapping_sum response))) = Inr ()"
proof -
  let ?b = "wrapping_sum response"
  have "hex2 ?b \<noteq> []" using wrapping_hex2_digits [of ?b] by auto
  then have "from_str_radix 16 (hex2 ?b) = Inr (ucast ?b)"
    using wrapping_hex2_digits [of ?b] by (simp add: from_str_radix_plain)
  moreover have "ucast ?b < (256 :: u64)" "ucast (ucast ?b :: u64) = ?b" by (rule ucast_u8_u64)+
  ultimately show ?thesis
    using wrapping_hex2_digits [of ?b] by (simp add: check_response_def from_utf8_ascii u8_from_str_radix_def)
qed

lemma gdb_send_ok: "gdb_faults c = [] \<Longrightarrow> gdb_send c bs = (c\<lparr>gdb_out := gdb_out c @ bs\<rparr>, Inr ())"
  by (simp add: gdb_send_def)

text \<open>
  C36: The framing of the GDB client. On any stream of bytes a command succeeds exactly when the stream starts with an
  acknowledgement, then bytes that are no packet start, then a packet of at most the capacity, with the two hexadecimal digits of the sum of its bytes modulo 256; the
  response is the packet's payload as text, the rest of the stream is left, and exactly the framed command and an
  acknowledgement are sent. A packet that is framed as the client frames its own is accepted.
\<close>

theorem gdb_command_exact:
  assumes "gdb_in c = map GotByte bs" "gdb_faults c = []"
  shows "(gdb_command c payload = (c', Inr txt) \<longleftrightarrow>
      (\<exists>response rest. gdb_answer bs response rest \<and> from_utf8 response = Inr txt \<and> \<not> starts_with txt ''E'' \<and>
        c' = c\<lparr>gdb_in := map GotByte rest,
          gdb_out := gdb_out c @ gdb_frame (ascii_bytes payload) @ ascii_bytes ''+''\<rparr>)) \<and>
    (0x23 \<notin> set response \<and> length response \<le> GDB_PACKET_CAPACITY \<longrightarrow>
      gdb_answer (0x2B # gdb_frame response @ rest) response rest)"
proof
  define c2 where "c2 = c\<lparr>gdb_out := gdb_out c @ gdb_frame (ascii_bytes payload)\<rparr>"
  have sent: "gdb_command c payload =
      (case read_response (map GotByte bs) of
         (rest, Inl e) \<Rightarrow> (c2\<lparr>gdb_in := rest\<rparr>, Inl e)
       | (rest, Inr response) \<Rightarrow>
           (c2\<lparr>gdb_in := rest, gdb_out := gdb_out c2 @ ascii_bytes ''+''\<rparr>, decode_response response))"
    using assms by (simp add: gdb_command_def gdb_send_ok c2_def split: prod.split sum.split)
  have dec: "decode_response r = Inr txt \<longleftrightarrow> from_utf8 r = Inr txt \<and> \<not> starts_with txt ''E''" for r
    by (cases "from_utf8 r") (auto simp: decode_response_def map_err_def)
  show "gdb_command c payload = (c', Inr txt) \<longleftrightarrow>
      (\<exists>response rest. gdb_answer bs response rest \<and> from_utf8 response = Inr txt \<and> \<not> starts_with txt ''E'' \<and>
        c' = c\<lparr>gdb_in := map GotByte rest,
          gdb_out := gdb_out c @ gdb_frame (ascii_bytes payload) @ ascii_bytes ''+''\<rparr>)"
  proof (cases "\<exists>i response. read_response (map GotByte bs) = (i, Inr response)")
    case True
    then obtain i response where r: "read_response (map GotByte bs) = (i, Inr response)" by blast
    then obtain rest where rest: "i = map GotByte rest" "gdb_answer bs response rest"
      unfolding read_response_exact by blast
    have unique: "response' = response \<and> rest' = rest" if "gdb_answer bs response' rest'" for response' rest'
    proof -
      have "read_response (map GotByte bs) = (map GotByte rest', Inr response')"
        unfolding read_response_exact using that by blast
      then show ?thesis using r rest by (auto simp: inj_map_eq_map inj_def)
    qed
    from r have "gdb_command c payload = (c', Inr txt) \<longleftrightarrow>
        c' = c2\<lparr>gdb_in := i, gdb_out := gdb_out c2 @ ascii_bytes ''+''\<rparr> \<and> decode_response response = Inr txt"
      unfolding sent by auto
    moreover have "(\<exists>response rest. gdb_answer bs response rest \<and> P response rest) \<longleftrightarrow> P response rest" for P
      using rest(2) unique by blast
    ultimately show ?thesis using rest(1) by (simp add: dec c2_def) blast
  next
    case False
    then have "\<not> gdb_answer bs response rest" for response rest using read_response_exact by blast
    moreover have "gdb_command c payload \<noteq> (c', Inr txt)"
      unfolding sent using False by (auto split: prod.splits sum.splits)
    ultimately show ?thesis by blast
  qed
  have "0x2B # gdb_frame response @ rest =
      0x2B # [] @ 0x24 # response @ 0x23 # ascii_bytes (hex2 (wrapping_sum response)) @ rest"
    by (simp add: gdb_frame_def ascii_bytes_def)
  moreover have "length (ascii_bytes (hex2 (wrapping_sum response))) = 2"
    using wrapping_hex2_digits [of "wrapping_sum response"] by (simp add: ascii_bytes_def)
  ultimately show "0x23 \<notin> set response \<and> length response \<le> GDB_PACKET_CAPACITY \<longrightarrow>
      gdb_answer (0x2B # gdb_frame response @ rest) response rest"
    using check_response_frame [of response] unfolding gdb_answer_check by (metis empty_iff list.set(1))
qed

theorem gdb_command_exact_witness:
  "\<exists>c'. gdb_command \<lparr>gdb_in = map GotByte (0x2B # gdb_frame (ascii_bytes ''OK'')), gdb_out = [], gdb_faults = [],
      gdb_timeout = 1\<rparr> ''Hg1'' = (c', Inr ''OK'')"
proof -
  let ?bs = "0x2B # gdb_frame (ascii_bytes ''OK'') @ []"
  let ?c = "\<lparr>gdb_in = map GotByte (0x2B # gdb_frame (ascii_bytes ''OK'')), gdb_out = [], gdb_faults = [],
      gdb_timeout = 1\<rparr>"
  have c: "gdb_in ?c = map GotByte ?bs" "gdb_faults ?c = []" by simp_all
  have "gdb_answer ?bs (ascii_bytes ''OK'') []"
    using gdb_command_exact [OF c, of "[]" ?c "[]" "ascii_bytes ''OK''" "[]"]
    by (simp add: ascii_bytes_def GDB_PACKET_CAPACITY_def)
  moreover have "from_utf8 (ascii_bytes ''OK'') = Inr ''OK''" by (rule from_utf8_ascii) (simp add: ascii_def)
  ultimately show ?thesis
    using gdb_command_exact [OF c, of "''Hg1''" _ "''OK''"] by (auto simp: starts_with_def)
qed

section \<open>Register values\<close>

lemma hex_nibble_digit:
  assumes "n < 16"
  shows "hex_nibble (of_nat (of_char (gdb_hex_digit n))) = Some n"
proof -
  have eq: "of_nat (of_char (char_of (unat w))) = w" for w :: u8
    using unsigned_less [of w, where 'a = nat] by simp
  show ?thesis
  proof (cases "n < 10")
    case True
    then have "unat (48 + n) = 48 + unat n" "unat n < 10" by (simp_all add: unat_word_ariths word_less_nat_alt)
    then have "48 \<le> 48 + n" "48 + n \<le> 57" by (simp_all add: word_le_nat_alt)
    moreover have d: "of_nat (of_char (gdb_hex_digit n)) = 48 + n"
      using True by (simp only: gdb_hex_digit_def if_True eq)
    ultimately show ?thesis unfolding d hex_nibble_def by simp
  next
    case False
    then have n: "10 \<le> unat n" "unat n < 16" using assms by (simp_all add: word_less_nat_alt)
    then have "unat (n - 10) = unat n - 10" by (simp add: unat_sub word_le_nat_alt)
    with n have "unat (97 + (n - 10)) = 87 + unat n" by (simp add: unat_word_ariths)
    with n have "97 \<le> 97 + (n - 10)" "97 + (n - 10) \<le> 102" "\<not> 97 + (n - 10) \<le> 57"
      by (simp_all add: word_le_nat_alt)
    moreover have d: "of_nat (of_char (gdb_hex_digit n)) = 97 + (n - 10)"
      using False by (simp only: gdb_hex_digit_def if_False eq)
    ultimately show ?thesis unfolding d hex_nibble_def by (simp del: add_diff_eq)
  qed
qed

lemma decode_pairs_encode:
  "decode_pairs index (ascii_bytes (concat (map encode_byte bs))) = Inr bs"
proof (induction bs arbitrary: index)
  case (Cons b bs)
  have "unat b < 256" using unsigned_less [of b] by simp
  then have "unat (drop_bit 4 b) < 16" by (simp add: drop_bit_eq_div unat_div_distrib less_mult_imp_div_less)
  then have high: "drop_bit 4 b < 16" by (simp add: word_less_nat_alt)
  have "b AND 0xf = take_bit 4 b" by (simp add: take_bit_eq_mask mask_eq_exp_minus_1)
  moreover have "take_bit 4 b < 16" by (simp add: word_less_nat_alt take_bit_eq_mod unat_mod_distrib)
  moreover have "push_bit 4 (drop_bit 4 b) OR take_bit 4 b = b"
    by (rule bit_word_eqI) (auto simp: bit_simps)
  ultimately show ?case
    using Cons high by (simp add: encode_byte_def ascii_bytes_def hex_nibble_digit)
qed (simp add: ascii_bytes_def)

lemma take_le_bytes: "n \<le> m \<Longrightarrow> take n (le_bytes m v) = le_bytes n v"
proof (induction n arbitrary: m v)
  case (Suc n)
  then obtain k where "m = Suc k" "n \<le> k" by (cases m) auto
  with Suc.IH [of k] show ?case by simp
qed simp

lemma le_nat_padded: "le_nat (bs @ replicate k 0) = le_nat bs"
proof -
  have "le_nat (replicate k 0) = 0" by (induction k) simp_all
  then show ?thesis by (induction bs) simp_all
qed

text \<open>
  C37: Register values in the GDB protocol. For every width up to eight bytes the little-endian hexadecimal text of a
  value has two digits for each byte and decodes to the value modulo the width; so exactly the values that pass the
  fit test of a register write are read back unchanged. Widths above eight bytes are refused.
\<close>

theorem gdb_register_round_trip:
  "(\<exists>hexed. encode_little_hex v width = Inr hexed \<and> length hexed = 2 * width \<and>
     decode_little_hex hexed width = Inr (of_nat (unat v mod 256 ^ width)) \<and>
     (decode_little_hex hexed width = Inr v \<longleftrightarrow> unat v < 256 ^ width)) \<longleftrightarrow> width \<le> 8"
proof (cases "width \<le> 8")
  case True
  define bs where "bs = take width (to_le_bytes v)"
  have bs: "length bs = width" "bs = le_bytes width (unat v)"
    using True by (simp_all add: bs_def to_le_bytes_def take_le_bytes)
  define hexed where "hexed = concat (map encode_byte bs)"
  have len: "length hexed = 2 * width"
    unfolding hexed_def bs(1) [symmetric] by (induction bs) (simp_all add: encode_byte_def)
  have "encode_little_hex v width = Inr hexed"
    using True by (simp add: encode_little_hex_def reservable_def isize_max_def hexed_def bs_def)
  moreover have dec: "decode_little_hex hexed width = Inr (of_nat (unat v mod 256 ^ width))"
    using True len decode_pairs_encode [of 0 bs, folded hexed_def]
    by (simp add: decode_little_hex_def from_le_bytes_def le_nat_padded bs(2) le_nat_le_bytes)
  moreover have "(of_nat (unat v mod 256 ^ width) :: u64) = v \<longleftrightarrow> unat v < 256 ^ width"
  proof -
    have "unat v mod 256 ^ width < 2 ^ 64"
      using unsigned_less [of v] by (simp add: order.strict_trans1 [OF mod_less_eq_dividend])
    then have "unat (of_nat (unat v mod 256 ^ width) :: u64) = unat v mod 256 ^ width" by (simp add: unat_of_nat)
    then show ?thesis by (metis mod_less mod_less_divisor word_unat_eq_iff zero_less_numeral zero_less_power)
  qed
  ultimately show ?thesis using True len by auto
next
  case False
  then show ?thesis by (simp add: encode_little_hex_def)
qed

end
