(* ===== verification/Driver_Qemu.thy ===== *)
theory Driver_Qemu
  imports Driver_Gdb
begin

text \<open>
  The crate \<open>vmi-driver-qemu\<close>: the QMP client (messages of one line each, requests with identifiers, a bounded
  queue for the events that arrive in between), the parsers of monitor output, and the session that uses the QMP client
  and, where there is one, the GDB client. The JSON library is a parameter: a parser from bytes to values and a printer.
\<close>

section \<open>JSON values\<close>

text \<open>What the driver asks of \<open>serde_json::Value\<close>.\<close>

datatype json_value = VNull | VBool bool | VUnsigned u64 | VNumber string | VString string | VArray "json_value list"
  | VObject "(string \<times> json_value) list"

record json_library =
  json_parse :: "u8 list \<Rightarrow> string + json_value"
  json_print :: "json_value \<Rightarrow> string"

fun json_get :: "json_value \<Rightarrow> string \<Rightarrow> json_value option" where
  "json_get (VObject fs) key = map_of fs key"
| "json_get _ key = None"

fun json_as_str :: "json_value \<Rightarrow> string option" where
  "json_as_str (VString s) = Some s"
| "json_as_str _ = None"

fun json_as_u64 :: "json_value \<Rightarrow> u64 option" where
  "json_as_u64 (VUnsigned n) = Some n"
| "json_as_u64 _ = None"

section \<open>The QMP stream\<close>

definition EVENT_QUEUE_CAPACITY :: usize where
  "EVENT_QUEUE_CAPACITY = 1024"

definition QMP_MESSAGE_CAPACITY :: u64 where
  "QMP_MESSAGE_CAPACITY = 16 * 1024 * 1024"

text \<open>What filling the buffer meets; an empty fill and the end of the script are the end of the stream.\<close>

datatype qmp_fill = Fill "u8 list" | FillTimeout | FillError string

text \<open>
  The client. \<open>qmp_clock\<close> tells for each look at the clock whether the deadline is over, and \<open>qmp_faults\<close> which
  writes fail. A failure to set the socket's timeout is a read that fails.
\<close>

record qmp_client =
  qmp_stream :: "qmp_fill list"
  qmp_next_id :: "u64 option"
  qmp_events :: "vmi_event list"
  qmp_sent :: "string list"
  qmp_faults :: "string option list"
  qmp_clock :: "bool list"

definition message_exceeds :: "u64 \<Rightarrow> vmi_error" where
  "message_exceeds cap = Backend (''QMP message exceeds '' @ dec (unat cap) @ '' bytes'')"

text \<open>The bytes to take from the buffer: up to and with the first line feed.\<close>

definition line_part :: "u8 list \<Rightarrow> u8 list" where
  "line_part available = takeWhile (\<lambda>b. b \<noteq> 10) available @ take 1 (dropWhile (\<lambda>b. b \<noteq> 10) available)"

fun read_line_loop :: "u64 \<Rightarrow> u8 list \<Rightarrow> qmp_fill list \<Rightarrow> qmp_fill list \<times> u8 list result" where
  "read_line_loop cap line [] =
     ([], Inl (if line = [] then Backend ''QMP connection closed'' else message_exceeds cap))"
| "read_line_loop cap line (FillTimeout # rest) = (rest, Inl (Timeout ''QMP read''))"
| "read_line_loop cap line (FillError e # rest) = (rest, Inl (Backend e))"
| "read_line_loop cap line (Fill available # rest) =
     (if available = [] then
        (Fill available # rest, Inl (if line = [] then Backend ''QMP connection closed'' else message_exceeds cap))
      else
        (let chunk = line_part available;
             remaining = drop (length chunk) available;
             stream = (if remaining = [] then rest else Fill remaining # rest) in
         (case usize_checked_add (length line) (length chunk) of
            None \<Rightarrow> (Fill available # rest, Inl (Backend ''QMP message length overflow''))
          | Some n \<Rightarrow>
              if n > unat cap then (Fill available # rest, Inl (message_exceeds cap))
              else if \<not> reservable n then
                (Fill available # rest, Inl (Backend (''failed to grow QMP message buffer: '' @ capacity_overflow)))
              else if last chunk = 10 then (stream, Inr (line @ chunk))
              else read_line_loop cap (line @ chunk) rest)))"

definition read_json_with_capacity ::
  "json_library \<Rightarrow> u64 \<Rightarrow> qmp_fill list \<Rightarrow> qmp_fill list \<times> json_value result" where
  "read_json_with_capacity lib cap stream =
     (case read_line_loop cap [] stream of
        (rest, r) \<Rightarrow>
          (rest, and_then r (\<lambda>line. map_err (\<lambda>e. Backend (''invalid QMP JSON: '' @ e)) (json_parse lib line))))"

definition read_json :: "json_library \<Rightarrow> qmp_fill list \<Rightarrow> qmp_fill list \<times> json_value result" where
  "read_json lib stream = read_json_with_capacity lib QMP_MESSAGE_CAPACITY stream"

section \<open>Events and requests\<close>

definition take_request_id :: "u64 option \<Rightarrow> u64 option \<times> u64 result" where
  "take_request_id next_id =
     (case next_id of
        None \<Rightarrow> (None, Inl (Backend ''QMP request ID space exhausted''))
      | Some i \<Rightarrow> (checked_add i 1, Inr i))"

definition take_qmp_return :: "json_value \<Rightarrow> json_value" where
  "take_qmp_return response = (case json_get response ''return'' of Some v \<Rightarrow> v | None \<Rightarrow> VNull)"

definition json_either :: "json_value option \<Rightarrow> string \<Rightarrow> string \<Rightarrow> json_value option" where
  "json_either data first_key second_key =
     Option.bind data (\<lambda>d. case json_get d first_key of Some v \<Rightarrow> Some v | None \<Rightarrow> json_get d second_key)"

definition qmp_event :: "json_value \<Rightarrow> vmi_event option result" where
  "qmp_event v =
     (case Option.bind (json_get v ''event'') json_as_str of
        None \<Rightarrow> Inr None
      | Some kind \<Rightarrow>
          if \<not> reservable (length kind) then
            Inl (Backend (''failed to allocate QMP event kind: '' @ capacity_overflow))
          else
            (let data = json_get v ''data'' in
             Inr (Some \<lparr>event_kind = kind,
               event_vcpu = Option.bind (Option.bind (json_either data ''cpu-index'' ''vcpu'') json_as_u64)
                 (\<lambda>n. if n < 2 ^ 32 then Some (ucast n) else None),
               event_address = map_option Gpa (Option.bind (json_either data ''address'' ''addr'') json_as_u64)\<rparr>)))"

definition enqueue_event :: "vmi_event list \<Rightarrow> vmi_event \<Rightarrow> vmi_event list result" where
  "enqueue_event events event =
     (if length events = EVENT_QUEUE_CAPACITY then
        Inl (Backend (''QMP event queue capacity '' @ dec EVENT_QUEUE_CAPACITY @ '' exceeded''))
      else if \<not> reservable (length events + 1) then
        Inl (Backend (''failed to grow QMP event queue: '' @ capacity_overflow))
      else Inr (events @ [event]))"

definition qmp_send :: "qmp_client \<Rightarrow> string \<Rightarrow> qmp_client \<times> unit result" where
  "qmp_send c message =
     (case qmp_faults c of
        Some e # fs \<Rightarrow> (c\<lparr>qmp_faults := fs\<rparr>, Inl (Backend e))
      | fs \<Rightarrow> (c\<lparr>qmp_sent := qmp_sent c @ [message], qmp_faults := drop 1 fs\<rparr>, Inr ()))"

definition qmp_flush :: "qmp_client \<Rightarrow> qmp_client \<times> unit result" where
  "qmp_flush c =
     (case qmp_faults c of
        Some e # fs \<Rightarrow> (c\<lparr>qmp_faults := fs\<rparr>, Inl (Backend e))
      | fs \<Rightarrow> (c\<lparr>qmp_faults := drop 1 fs\<rparr>, Inr ()))"

definition deadline_over :: "qmp_client \<Rightarrow> bool" where
  "deadline_over c \<longleftrightarrow> qmp_clock c \<noteq> [] \<and> hd (qmp_clock c)"

definition next_clock :: "qmp_client \<Rightarrow> qmp_client" where
  "next_clock c = c\<lparr>qmp_clock := tl (qmp_clock c)\<rparr>"

definition stream_weight :: "qmp_fill list \<Rightarrow> nat" where
  "stream_weight fs = sum_list (map (\<lambda>f. case f of Fill bs \<Rightarrow> Suc (length bs) | _ \<Rightarrow> 1) fs)"

lemma stream_weight_simps [simp]:
  "stream_weight [] = 0" "stream_weight (Fill bs # fs) = Suc (length bs) + stream_weight fs"
  "stream_weight (FillTimeout # fs) = Suc (stream_weight fs)" "stream_weight (FillError e # fs) = Suc (stream_weight fs)"
  by (simp_all add: stream_weight_def)

lemma line_part_nonempty: "available \<noteq> [] \<Longrightarrow> line_part available \<noteq> []"
  by (cases available) (auto simp: line_part_def)

lemma read_line_consumes:
  assumes "read_line_loop cap line stream = (rest, r)" "\<forall>e. r \<noteq> Inl (Backend e)"
  shows "stream_weight rest < stream_weight stream"
  using assms
proof (induction stream arbitrary: line)
  case (Cons f fs)
  show ?case
  proof (cases f)
    case (Fill available)
    have "0 < length (line_part available)" if "available \<noteq> []" using that line_part_nonempty by simp
    with Cons.prems Cons.IH [of "line @ line_part available"] Fill show ?thesis
      by (fastforce simp: Let_def message_exceeds_def split: if_splits option.splits)
  qed (use Cons.prems in auto)
qed (auto simp: message_exceeds_def split: if_splits)

lemma read_json_consumes:
  assumes "read_json lib stream = (rest, r)" "\<forall>e. r \<noteq> Inl (Backend e)"
  shows "stream_weight rest < stream_weight stream"
  using assms read_line_consumes
  by (fastforce simp: read_json_def read_json_with_capacity_def split: prod.splits sum.splits)

function qmp_loop :: "json_library \<Rightarrow> u64 \<Rightarrow> string \<Rightarrow> qmp_client \<Rightarrow> qmp_client \<times> json_value result" where
  "qmp_loop lib request_id command c =
     (if deadline_over c then (next_clock c, Inl (Timeout ''QMP command''))
      else
        (case read_json lib (qmp_stream c) of
           (stream, Inl e) \<Rightarrow>
             (next_clock c\<lparr>qmp_stream := stream\<rparr>, Inl (if e = Timeout ''QMP read'' then Timeout ''QMP command'' else e))
         | (stream, Inr response) \<Rightarrow>
             (let c1 = next_clock c\<lparr>qmp_stream := stream\<rparr> in
              (case qmp_event response of
                 Inl e \<Rightarrow> (c1, Inl e)
               | Inr (Some event) \<Rightarrow>
                   (case enqueue_event (qmp_events c1) event of
                      Inl e \<Rightarrow> (c1, Inl e)
                    | Inr events \<Rightarrow> qmp_loop lib request_id command (c1\<lparr>qmp_events := events\<rparr>))
               | Inr None \<Rightarrow>
                   if Option.bind (json_get response ''id'') json_as_u64 \<noteq> Some request_id then
                     qmp_loop lib request_id command c1
                   else
                     (c1, (case json_get response ''error'' of
                        Some error \<Rightarrow> Inl (Backend (''QMP '' @ command @ '' failed: '' @ json_print lib error))
                      | None \<Rightarrow> Inr (take_qmp_return response)))))))"
  by pat_completeness auto
termination
  by (relation "measure (\<lambda>(_, _, _, c). stream_weight (qmp_stream c))")
    (auto dest!: read_json_consumes [OF sym])

declare qmp_loop.simps [simp del]

definition qmp_execute ::
  "json_library \<Rightarrow> qmp_client \<Rightarrow> string \<Rightarrow> json_value option \<Rightarrow> qmp_client \<times> json_value result" where
  "qmp_execute lib c command arguments =
     (case take_request_id (qmp_next_id c) of
        (next_id, Inl e) \<Rightarrow> (c\<lparr>qmp_next_id := next_id\<rparr>, Inl e)
      | (next_id, Inr request_id) \<Rightarrow>
          (let request = VObject ([(''execute'', VString command), (''id'', VUnsigned request_id)] @
                 (case arguments of Some a \<Rightarrow> [(''arguments'', a)] | None \<Rightarrow> [])) in
           (case qmp_send (c\<lparr>qmp_next_id := next_id\<rparr>) (json_print lib request @ [CHR 0x0A]) of
              (c1, Inl e) \<Rightarrow> (c1, Inl e)
            | (c1, Inr _) \<Rightarrow>
                (case qmp_flush c1 of
                   (c2, Inl e) \<Rightarrow> (c2, Inl e)
                 | (c2, Inr _) \<Rightarrow> qmp_loop lib request_id command c2))))"

text \<open>
  Waiting for an event. \<open>limited\<close> says that the deadline is representable; without one, timeouts of the socket are
  retried.
\<close>

function next_event_loop :: "json_library \<Rightarrow> bool \<Rightarrow> qmp_client \<Rightarrow> qmp_client \<times> vmi_event option result" where
  "next_event_loop lib limited c =
     (if limited \<and> deadline_over c then (next_clock c, Inr None)
      else
        (case read_json lib (qmp_stream c) of
           (stream, Inr v) \<Rightarrow>
             (let c1 = next_clock c\<lparr>qmp_stream := stream\<rparr> in
              (case qmp_event v of
                 Inl e \<Rightarrow> (c1, Inl e)
               | Inr (Some event) \<Rightarrow> (c1, Inr (Some event))
               | Inr None \<Rightarrow> next_event_loop lib limited c1))
         | (stream, Inl e) \<Rightarrow>
             (let c1 = next_clock c\<lparr>qmp_stream := stream\<rparr> in
              if e = Timeout ''QMP read'' then
                (if limited then (c1, Inr None) else next_event_loop lib limited c1)
              else (c1, Inl e))))"
  by pat_completeness auto
termination
  by (relation "measure (\<lambda>(_, _, c). stream_weight (qmp_stream c))")
    (auto dest!: read_json_consumes [OF sym])

declare next_event_loop.simps [simp del]

definition qmp_next_event :: "json_library \<Rightarrow> nat \<Rightarrow> bool \<Rightarrow> qmp_client \<Rightarrow> qmp_client \<times> vmi_event option result" where
  "qmp_next_event lib timeout limited c =
     (case qmp_events c of
        event # events \<Rightarrow> (c\<lparr>qmp_events := events\<rparr>, Inr (Some event))
      | [] \<Rightarrow> if timeout = 0 then (c, Inr None) else next_event_loop lib limited c)"

definition qmp_hmp :: "json_library \<Rightarrow> qmp_client \<Rightarrow> string \<Rightarrow> qmp_client \<times> json_value result" where
  "qmp_hmp lib c command =
     qmp_execute lib c ''human-monitor-command'' (Some (VObject [(''command-line'', VString command)]))"

text \<open>A new client over a connected socket, of which only the stream and the outcomes of its calls matter.\<close>

definition qmp_initialize :: "json_library \<Rightarrow> qmp_client \<Rightarrow> qmp_client result" where
  "qmp_initialize lib socket =
     (if \<not> reservable EVENT_QUEUE_CAPACITY then
        Inl (Backend (''failed to allocate QMP event queue: '' @ capacity_overflow))
      else
        (let c = socket\<lparr>qmp_next_id := Some 1, qmp_events := []\<rparr> in
         (case read_json lib (qmp_stream c) of
            (stream, r) \<Rightarrow>
              and_then r (\<lambda>greeting.
              if json_get greeting ''QMP'' = None then Inl (Backend ''QMP greeting was not received'')
              else
                (case qmp_execute lib (c\<lparr>qmp_stream := stream\<rparr>) ''qmp_capabilities'' None of
                   (c1, r1) \<Rightarrow> and_then r1 (\<lambda>_. Inr c1))))))"

section \<open>Monitor output\<close>

definition to_ascii_uppercase :: "string \<Rightarrow> string" where
  "to_ascii_uppercase s =
     map (\<lambda>c. let n = of_char c :: nat in if 97 \<le> n \<and> n \<le> 122 then char_of (n - 32) else c) s"

text \<open>The error shows the name as \<open>Debug\<close> does, of which the quotes are modelled and the escapes are not.\<close>

definition register_name :: "string \<Rightarrow> string result" where
  "register_name name =
     (if \<not> valid_register name then Inl (Backend (''invalid register name '' @ [CHR 0x22] @ name @ [CHR 0x22]))
      else if \<not> reservable (length name) then
        Inl (Backend (''failed to allocate normalized register name: '' @ capacity_overflow))
      else Inr (to_ascii_uppercase name))"

definition register_aliases :: "string \<Rightarrow> string list" where
  "register_aliases name =
     (if name = ''RIP'' then [''RIP'', ''EIP'']
      else if name = ''RFLAGS'' then [''RFLAGS'', ''EFLAGS'', ''EFL'']
      else [name])"

text \<open>\<open>str::split_once\<close> at a character.\<close>

definition split_once :: "char \<Rightarrow> string \<Rightarrow> (string \<times> string) option" where
  "split_once d s =
     (if d \<notin> set s then None else Some (takeWhile (\<lambda>c. c \<noteq> d) s, tl (dropWhile (\<lambda>c. c \<noteq> d) s)))"

definition hmp_token_value :: "string \<Rightarrow> string \<Rightarrow> u64 option" where
  "hmp_token_value name token =
     Option.bind (split_once CHR ''='' token) (\<lambda>(n, v).
       if \<exists>candidate \<in> set (register_aliases name). to_ascii_lowercase n = to_ascii_lowercase candidate then
         (case from_str_radix 16 (strip_hex_prefix v) of Inr x \<Rightarrow> Some x | Inl _ \<Rightarrow> None)
       else None)"

definition parse_hmp_register :: "string \<Rightarrow> string \<Rightarrow> u64 option" where
  "parse_hmp_register output_text name =
     (case List.map_filter (hmp_token_value name) (split_whitespace output_text) of [] \<Rightarrow> None | v # _ \<Rightarrow> Some v)"

definition trim_end_commas :: "string \<Rightarrow> string" where
  "trim_end_commas s = rev (dropWhile (\<lambda>c. c = CHR '','') (rev s))"

fun hmp_tokens :: "vmi_error \<Rightarrow> usize \<Rightarrow> u8 list \<Rightarrow> string list \<Rightarrow> u8 list result" where
  "hmp_tokens failed expected bytes [] = Inr bytes"
| "hmp_tokens failed expected bytes (token # rest) =
     (let t = trim_end_commas token in
      if \<not> (starts_with t ''0x'' \<or> starts_with t ''0X'') then Inl failed
      else
        (let digits = drop 2 t in
         if length digits \<noteq> 2 \<or> length bytes = expected then Inl failed
         else
           (case u8_from_str_radix 16 digits of
              Inl _ \<Rightarrow> Inl failed
            | Inr b \<Rightarrow> hmp_tokens failed expected (bytes @ [b]) rest)))"

fun hmp_lines :: "vmi_error \<Rightarrow> usize \<Rightarrow> u8 list \<Rightarrow> string list \<Rightarrow> u8 list result" where
  "hmp_lines failed expected bytes [] = Inr bytes"
| "hmp_lines failed expected bytes (line # rest) =
     (case split_once CHR '':'' line of
        None \<Rightarrow> Inl failed
      | Some (_, vs) \<Rightarrow>
          and_then (hmp_tokens failed expected bytes (split_whitespace vs)) (\<lambda>bs. hmp_lines failed expected bs rest))"

definition parse_hmp_memory :: "string \<Rightarrow> u64 \<Rightarrow> usize \<Rightarrow> u8 list result" where
  "parse_hmp_memory output_text address expected =
     (if \<not> reservable expected then
        Inl (Backend (''failed to allocate QEMU memory response: '' @ capacity_overflow))
      else
        and_then (hmp_lines (ReadFailed address expected) expected []
            (filter (\<lambda>line. trim line \<noteq> []) (str_lines output_text))) (\<lambda>bytes.
        if length bytes \<noteq> expected then Inl (ReadFailed address expected) else Inr bytes))"

section \<open>Paths for the monitor\<close>

definition try_escape_monitor_path :: "string \<Rightarrow> string result" where
  "try_escape_monitor_path path =
     (let special = (\<lambda>c. c = CHR 0x5C \<or> c = CHR 0x22) in
      and_then (ok_or (usize_checked_add (length path) (length (filter special path)))
        (Backend ''QEMU monitor path length overflow'')) (\<lambda>cap.
      if \<not> reservable cap then
        Inl (Backend (''failed to allocate escaped QEMU monitor path: '' @ capacity_overflow))
      else Inr (concat (map (\<lambda>c. if special c then [CHR 0x5C, c] else [c]) path))))"

definition try_owned_path :: "string \<Rightarrow> string \<Rightarrow> string result" where
  "try_owned_path path description =
     (if \<not> reservable (length path) then
        Inl (Backend (''failed to allocate '' @ description @ '' path: '' @ capacity_overflow))
      else Inr path)"

definition qemu_join_path :: "string \<Rightarrow> string \<Rightarrow> string \<Rightarrow> string result" where
  "qemu_join_path parent child description = try_child_path parent child description"

text \<open>\<open>current\<close> is what \<open>current_dir\<close> returns.\<close>

definition monitor_path :: "string + string \<Rightarrow> string \<Rightarrow> string result" where
  "monitor_path current path =
     and_then
       (if is_absolute path then try_owned_path path ''QEMU acquisition''
        else
          and_then (map_err (\<lambda>e. Backend (''failed to resolve QEMU acquisition path: '' @ e)) current) (\<lambda>dir.
            qemu_join_path dir path ''QEMU acquisition'')) (\<lambda>resolved.
     and_then (ok_or (path_to_str resolved) (Backend ''QEMU acquisition path is not UTF-8'')) (\<lambda>rendered.
     if \<not> reservable (length rendered) then
       Inl (Backend (''failed to allocate QEMU acquisition path: '' @ capacity_overflow))
     else
       (let normalized = map (\<lambda>c. if c = CHR 0x5C then CHR ''/'' else c) rendered in
        if \<exists>ch \<in> set (utf8_chars normalized). is_control ch then
          Inl (Backend ''QEMU acquisition path contains control characters'')
        else Inr normalized)))"

definition monitor_destination :: "host_env \<Rightarrow> disk \<Rightarrow> string + string \<Rightarrow> string \<Rightarrow> string result" where
  "monitor_destination env d current path =
     and_then (ensure_output_absent env d path ''QEMU acquisition'') (\<lambda>_. monitor_path current path)"

section \<open>The session\<close>

record qemu_session =
  qs_descriptor :: provider_descriptor
  qs_target :: target_descriptor
  qs_client :: qmp_client
  qs_client_poisoned :: bool
  qs_gdb :: "gdb_client option"
  qs_gdb_poisoned :: bool

definition poisoned :: vmi_error where
  "poisoned = Backend ''poisoned lock: another task failed inside''"

text \<open>An operation on the locked QMP client.\<close>

definition with_client ::
  "qemu_session \<Rightarrow> (qmp_client \<Rightarrow> qmp_client \<times> 'a result) \<Rightarrow> qemu_session \<times> 'a result" where
  "with_client s f =
     (if qs_client_poisoned s then (s, Inl poisoned)
      else (case f (qs_client s) of (c, r) \<Rightarrow> (s\<lparr>qs_client := c\<rparr>, r)))"

definition hmp_registers :: "json_library \<Rightarrow> u32 \<Rightarrow> string \<Rightarrow> qmp_client \<Rightarrow> qmp_client \<times> u64 result" where
  "hmp_registers lib vcpu name c =
     (case try_format_command 14 (''cpu '' @ dec (unat vcpu)) ''QEMU CPU selection'' of
        Inl e \<Rightarrow> (c, Inl e)
      | Inr selection \<Rightarrow>
          (case qmp_hmp lib c selection of
             (c1, Inl e) \<Rightarrow> (c1, Inl e)
           | (c1, Inr _) \<Rightarrow>
               (case try_owned_id ''info registers'' ''QEMU HMP command'' of
                  Inl e \<Rightarrow> (c1, Inl e)
                | Inr info \<Rightarrow>
                    (case qmp_hmp lib c1 info of
                       (c2, Inl e) \<Rightarrow> (c2, Inl e)
                     | (c2, Inr response) \<Rightarrow>
                         (c2, (case json_as_str response of
                            None \<Rightarrow> Inl (Backend ''QEMU register response was not text'')
                          | Some txt \<Rightarrow>
                              ok_or (parse_hmp_register txt name)
                                (Backend (''register '' @ name @ '' was not reported for vCPU '' @ dec (unat vcpu)))))))))"

definition gdb_registers :: "u32 \<Rightarrow> u32 \<Rightarrow> usize \<Rightarrow> gdb_client \<Rightarrow> gdb_client \<times> u64 result" where
  "gdb_registers vcpu number width g =
     (case gdb_select_vcpu g vcpu of
        (g1, Inl e) \<Rightarrow> (g1, Inl e)
      | (g1, Inr _) \<Rightarrow> gdb_read_register g1 number width)"

definition qemu_read_register :: "json_library \<Rightarrow> qemu_session \<Rightarrow> u32 \<Rightarrow> string \<Rightarrow> qemu_session \<times> u64 result" where
  "qemu_read_register lib s vcpu name =
     (case register_name name of
        Inl e \<Rightarrow> (s, Inl e)
      | Inr normalized \<Rightarrow>
          (case (qs_gdb s, amd64_register normalized) of
             (Some g, Some (number, width)) \<Rightarrow>
               if qs_gdb_poisoned s then (s, Inl poisoned)
               else (case gdb_registers vcpu number width g of (g1, r) \<Rightarrow> (s\<lparr>qs_gdb := Some g1\<rparr>, r))
           | _ \<Rightarrow> with_client s (hmp_registers lib vcpu normalized)))"

definition gdb_write_verified :: "u32 \<Rightarrow> u32 \<Rightarrow> usize \<Rightarrow> u64 \<Rightarrow> gdb_client \<Rightarrow> gdb_client \<times> unit result" where
  "gdb_write_verified vcpu number width v g =
     (case gdb_select_vcpu g vcpu of
        (g1, Inl e) \<Rightarrow> (g1, Inl e)
      | (g1, Inr _) \<Rightarrow>
          (case gdb_write_register g1 number width v of
             (g2, Inl e) \<Rightarrow> (g2, Inl e)
           | (g2, Inr _) \<Rightarrow>
               (case gdb_read_register g2 number width of
                  (g3, Inl e) \<Rightarrow> (g3, Inl e)
                | (g3, Inr actual) \<Rightarrow>
                    (g3, if actual \<noteq> v then
                       Inl (Backend (''GDB register write verification failed: expected '' @ hex0x v @ '', got '' @ hex0x actual))
                     else Inr ()))))"

definition qemu_write_register :: "qemu_session \<Rightarrow> u32 \<Rightarrow> string \<Rightarrow> u64 \<Rightarrow> qemu_session \<times> unit result" where
  "qemu_write_register s vcpu name v =
     (case amd64_register name of
        None \<Rightarrow>
          (s, and_then (try_owned_id (provider_id (qs_descriptor s)) ''QEMU provider ID'')
            (\<lambda>owned. Inl (UnsupportedOperation owned ''GDB register mapping'')))
      | Some (number, width) \<Rightarrow>
          (case qs_gdb s of
             None \<Rightarrow>
               (s, and_then (try_owned_id (provider_id (qs_descriptor s)) ''QEMU provider ID'')
                 (\<lambda>owned. Inl (CapabilityMissing owned RegisterWrite)))
           | Some g \<Rightarrow>
               if qs_gdb_poisoned s then (s, Inl poisoned)
               else (case gdb_write_verified vcpu number width v g of (g1, r) \<Rightarrow> (s\<lparr>qs_gdb := Some g1\<rparr>, r))))"

definition chunk_address :: "u64 \<Rightarrow> usize \<Rightarrow> nat \<Rightarrow> u64 result" where
  "chunk_address address len index =
     and_then (ok_or (map_option of_nat (usize_checked_mul index 256)) (ReadFailed address len)) (\<lambda>offset.
       ok_or (checked_add address offset) (ReadFailed address len))"

definition read_chunk :: "json_library \<Rightarrow> u64 \<Rightarrow> usize \<Rightarrow> qemu_session \<Rightarrow> qemu_session \<times> u8 list result" where
  "read_chunk lib address len s =
     (case try_format_command 45 (''xp /'' @ dec len @ ''bx '' @ hex0x address) ''QEMU physical-memory read'' of
        Inl e \<Rightarrow> (s, Inl e)
      | Inr command \<Rightarrow>
          (case with_client s (\<lambda>c. qmp_hmp lib c command) of
             (s1, r) \<Rightarrow>
               (s1, and_then r (\<lambda>response.
                  and_then (ok_or (json_as_str response)
                    (Backend ''QEMU physical-memory response was not text'')) (\<lambda>txt.
                    parse_hmp_memory txt address len)))))"

text \<open>The loop over the chunks: what is left of the buffer, and the buffer after the call.\<close>

function qemu_read_loop ::
  "json_library \<Rightarrow> u64 \<Rightarrow> usize \<Rightarrow> nat \<Rightarrow> u8 list \<Rightarrow> qemu_session \<Rightarrow> qemu_session \<times> u8 list \<times> unit result" where
  "qemu_read_loop lib address total_length index rest s =
     (if rest = [] then (s, [], Inr ())
      else
        (case chunk_address address total_length index of
           Inl e \<Rightarrow> (s, rest, Inl e)
         | Inr current \<Rightarrow>
             (case read_chunk lib current (length (take 256 rest)) s of
                (s1, Inl e) \<Rightarrow> (s1, rest, Inl e)
              | (s1, Inr bytes) \<Rightarrow>
                  (case qemu_read_loop lib address total_length (index + 1) (drop 256 rest) s1 of
                     (s2, tail, r) \<Rightarrow> (s2, bytes @ tail, r)))))"
  by pat_completeness auto
termination by (relation "measure (\<lambda>(_, _, _, _, rest, _). length rest)") auto

declare qemu_read_loop.simps [simp del]

definition qemu_read_into :: "json_library \<Rightarrow> qemu_session \<Rightarrow> gpa \<Rightarrow> u8 list \<Rightarrow> qemu_session \<times> u8 list \<times> unit result" where
  "qemu_read_into lib s address buffer = qemu_read_loop lib (gpa_raw address) (length buffer) 0 buffer s"

definition qemu_state_of :: "json_value \<Rightarrow> execution_state" where
  "qemu_state_of v =
     (case Option.bind (json_get v ''status'') json_as_str of
        Some st \<Rightarrow>
          if st = ''running'' then Running
          else if st \<in> {''paused'', ''prelaunch'', ''suspended''} then Paused
          else if st = ''shutdown'' then Shutdown
          else UnknownState
      | None \<Rightarrow> UnknownState)"

definition qemu_execution_state :: "json_library \<Rightarrow> qemu_session \<Rightarrow> qemu_session \<times> execution_state result" where
  "qemu_execution_state lib s =
     (case with_client s (\<lambda>c. qmp_execute lib c ''query-status'' None) of
        (s1, r) \<Rightarrow> (s1, and_then r (\<lambda>v. Inr (qemu_state_of v))))"

definition qemu_pause :: "json_library \<Rightarrow> qemu_session \<Rightarrow> qemu_session \<times> unit result" where
  "qemu_pause lib s =
     (case with_client s (\<lambda>c. qmp_execute lib c ''stop'' None) of (s1, r) \<Rightarrow> (s1, and_then r (\<lambda>_. Inr ())))"

definition qemu_resume :: "json_library \<Rightarrow> qemu_session \<Rightarrow> qemu_session \<times> unit result" where
  "qemu_resume lib s =
     (case with_client s (\<lambda>c. qmp_execute lib c ''cont'' None) of (s1, r) \<Rightarrow> (s1, and_then r (\<lambda>_. Inr ())))"

definition qemu_next_event ::
  "json_library \<Rightarrow> nat \<Rightarrow> bool \<Rightarrow> qemu_session \<Rightarrow> qemu_session \<times> vmi_event option result" where
  "qemu_next_event lib timeout limited s = with_client s (qmp_next_event lib timeout limited)"

text \<open>Acquisition: QEMU writes the file; the disk is only inspected.\<close>

definition qemu_save_physical_range ::
  "json_library \<Rightarrow> host_env \<Rightarrow> disk \<Rightarrow> string + string \<Rightarrow> qemu_session \<Rightarrow> string \<Rightarrow> gpa \<Rightarrow> u64 \<Rightarrow>
   qemu_session \<times> unit result" where
  "qemu_save_physical_range lib env d current s path start len =
     (case and_then (if len = 0 then Inl (Backend ''acquisition length must be non-zero'') else Inr ()) (\<lambda>_.
        and_then (ok_or (checked_add (gpa_raw start) len)
          (Backend ''QEMU acquisition physical range overflows'')) (\<lambda>_.
        and_then (monitor_destination env d current path) (\<lambda>destination.
        and_then (try_escape_monitor_path destination) (\<lambda>escaped_path.
        and_then (ok_or (usize_checked_add (length escaped_path) 53)
          (Backend ''QEMU acquisition command length overflow'')) (\<lambda>cap.
          try_format_command cap
            (''pmemsave '' @ dec (unat (gpa_raw start)) @ '' '' @ dec (unat len) @ '' '' @ [CHR 0x22] @ escaped_path @
              [CHR 0x22]) ''QEMU acquisition''))))) of
        Inl e \<Rightarrow> (s, Inl e)
      | Inr command \<Rightarrow>
          (case with_client s (\<lambda>c. qmp_hmp lib c command) of (s1, r) \<Rightarrow> (s1, and_then r (\<lambda>_. Inr ()))))"

definition qemu_save_snapshot ::
  "json_library \<Rightarrow> host_env \<Rightarrow> disk \<Rightarrow> string + string \<Rightarrow> qemu_session \<Rightarrow> string \<Rightarrow> qemu_session \<times> unit result" where
  "qemu_save_snapshot lib env d current s path =
     (case and_then (monitor_destination env d current path) (\<lambda>destination.
        and_then (ok_or (usize_checked_add (length destination) 5)
          (Backend ''QEMU dump protocol length overflow'')) (\<lambda>cap.
          try_format_command cap (''file:'' @ destination) ''QEMU dump protocol'')) of
        Inl e \<Rightarrow> (s, Inl e)
      | Inr protocol \<Rightarrow>
          (case with_client s (\<lambda>c. qmp_execute lib c ''dump-guest-memory''
              (Some (VObject [(''paging'', VBool False), (''protocol'', VString protocol)]))) of
             (s1, r) \<Rightarrow> (s1, and_then r (\<lambda>_. Inr ()))))"

text \<open>
  The facets of the session. The interfaces for reading memory, registers and the state do not return a session, so that
  the facets show the results of these operations; the operations above have the client after the call as well.
\<close>

definition qemu_session_ops ::
  "json_library \<Rightarrow> host_env \<Rightarrow> disk \<Rightarrow> string + string \<Rightarrow> nat \<Rightarrow> bool \<Rightarrow> qemu_session session" where
  "qemu_session_ops lib env d current timeout limited =
     \<lparr>provider = qs_descriptor, target = qs_target, capabilities = (\<lambda>s. provider_capabilities (qs_descriptor s)),
      memory_impl = Some (\<lambda>_. Inr (\<lambda>s address buffer. snd (qemu_read_into lib s address buffer))),
      memory_write_impl = None,
      cpu_impl = Some (\<lambda>_. Inr \<lparr>read_register = (\<lambda>s vcpu r. snd (qemu_read_register lib s vcpu r)),
        write_register = qemu_write_register\<rparr>),
      control_impl = Some (\<lambda>_. Inr \<lparr>execution_state_of = (\<lambda>s. snd (qemu_execution_state lib s)),
        pause = qemu_pause lib, resume = qemu_resume lib\<rparr>),
      events_impl = Some (\<lambda>_. Inr (qemu_next_event lib timeout limited)), views_impl = None,
      acquisition_impl = Some (\<lambda>_. Inr \<lparr>save_physical_range = qemu_save_physical_range lib env d current,
        save_snapshot = qemu_save_snapshot lib env d current\<rparr>),
      lifecycle_impl = None\<rparr>"

section \<open>The connector\<close>

datatype qmp_endpoint = TcpEndpoint string | UnixEndpoint string

record qemu_connector =
  qc_endpoint :: qmp_endpoint
  qc_gdb_address :: "string option"
  qc_descriptor :: provider_descriptor
  qc_timeout :: nat

definition validate_endpoint_text :: "string \<Rightarrow> string \<Rightarrow> unit result" where
  "validate_endpoint_text v description =
     (if v = [] \<or> (\<exists>ch \<in> set (utf8_chars v). is_control ch) then Inl (Backend (''invalid '' @ description)) else Inr ())"

definition try_endpoint_text :: "string \<Rightarrow> string \<Rightarrow> string result" where
  "try_endpoint_text v description = and_then (validate_endpoint_text v description) (\<lambda>_. try_owned_id v description)"

fun endpoint_name :: "qmp_endpoint \<Rightarrow> string result" where
  "endpoint_name (TcpEndpoint address) = try_endpoint_text address ''QMP TCP target''"
| "endpoint_name (UnixEndpoint path) =
     and_then (ok_or (path_to_str path) (Backend ''QMP Unix target is not UTF-8''))
       (\<lambda>rendered. try_endpoint_text rendered ''QMP Unix target'')"

definition qemu_tcp :: "flag_ops \<Rightarrow> string \<Rightarrow> qemu_connector" where
  "qemu_tcp fl address =
     \<lparr>qc_endpoint = TcpEndpoint address, qc_gdb_address = None,
      qc_descriptor = provider_descriptor_new ''qemu-qmp'' ''QEMU QMP'' Preview
        (from_caps fl [MemoryRead, RegisterRead, Control, Acquisition, Events]),
      qc_timeout = 10 * 10 ^ 9\<rparr>"

definition qemu_unix :: "flag_ops \<Rightarrow> string \<Rightarrow> qemu_connector" where
  "qemu_unix fl path = (qemu_tcp fl [])\<lparr>qc_endpoint := UnixEndpoint path\<rparr>"

definition qemu_with_timeout :: "qemu_connector \<Rightarrow> nat \<Rightarrow> qemu_connector result" where
  "qemu_with_timeout c timeout =
     (if timeout = 0 then Inl (Backend ''QMP timeout must be non-zero'')
      else Inr (c\<lparr>qc_timeout := bounded_socket_timeout timeout\<rparr>))"

definition qemu_with_gdb :: "flag_ops \<Rightarrow> qemu_connector \<Rightarrow> string \<Rightarrow> qemu_connector" where
  "qemu_with_gdb fl c address =
     c\<lparr>qc_gdb_address := Some address, qc_descriptor := (qc_descriptor c)\<lparr>provider_capabilities :=
        insert_capability fl (provider_capabilities (qc_descriptor c)) RegisterWrite\<rparr>\<rparr>"

text \<open>Opening the sockets: what connecting to the endpoints returns.\<close>

record sockets =
  connect_qmp :: "qmp_endpoint \<Rightarrow> string + qmp_client"
  connect_gdb :: "string \<Rightarrow> string + gdb_client"

definition gdb_connect :: "sockets \<Rightarrow> string \<Rightarrow> nat \<Rightarrow> gdb_client result" where
  "gdb_connect net address timeout =
     and_then (map_err Backend (connect_gdb net address)) (\<lambda>g. Inr (g\<lparr>gdb_timeout := bounded_socket_timeout timeout\<rparr>))"

definition qmp_connect :: "json_library \<Rightarrow> sockets \<Rightarrow> qmp_endpoint \<Rightarrow> qmp_client result" where
  "qmp_connect lib net endpoint =
     and_then (map_err Backend (connect_qmp net endpoint)) (qmp_initialize lib)"

definition qemu_connect ::
  "json_library \<Rightarrow> flag_ops \<Rightarrow> sockets \<Rightarrow> qemu_connector \<Rightarrow> attach_request \<Rightarrow> qemu_session result" where
  "qemu_connect lib fl net c request =
     (let missing = difference_of fl (required_capabilities request) (provider_capabilities (qc_descriptor c)) in
      if \<not> fl_is_empty fl (cap_bits missing) then
        and_then (try_owned_id (provider_id (qc_descriptor c)) ''QEMU provider ID'')
          (\<lambda>owned. Inl (AttachRejected owned missing))
      else
        and_then (endpoint_name (qc_endpoint c)) (\<lambda>name.
        and_then
          (case request_selector request of
             NamedTarget expected \<Rightarrow>
               if expected \<noteq> name then Inl (Backend (''QMP target '' @ expected @ '' not found'')) else Inr ()
           | AnyTarget \<Rightarrow> Inr ()) (\<lambda>_.
        and_then (try_owned_id name ''QMP target display name'') (\<lambda>display_name.
        and_then (case qc_gdb_address c of
            Some address \<Rightarrow> validate_endpoint_text address ''QEMU GDB target'' | None \<Rightarrow> Inr ()) (\<lambda>_.
        and_then (qmp_connect lib net (qc_endpoint c)) (\<lambda>client.
        and_then (case qc_gdb_address c of
            Some address \<Rightarrow> and_then (gdb_connect net address (qc_timeout c)) (\<lambda>g. Inr (Some g)) | None \<Rightarrow> Inr None) (\<lambda>gdb.
          Inr \<lparr>qs_descriptor = qc_descriptor c,
            qs_target = target_descriptor_new name (Some display_name) Amd64 LiveBestEffort,
            qs_client = client, qs_client_poisoned = False, qs_gdb = gdb, qs_gdb_poisoned = False\<rparr>)))))))"

section \<open>Messages are lines\<close>

definition is_line :: "u8 list \<Rightarrow> bool" where
  "is_line line \<longleftrightarrow> line \<noteq> [] \<and> last line = 10 \<and> 10 \<notin> set (butlast line)"

definition fills :: "u8 list list \<Rightarrow> qmp_fill list" where
  "fills chunks = map Fill chunks"

text \<open>A chunk ends the line when it has a line feed, and is taken whole otherwise.\<close>

lemma line_part_cases:
  obtains (open_end) "10 \<notin> set bs" "line_part bs = bs"
    | (closed) part rest where "bs = part @ 10 # rest" "10 \<notin> set part" "line_part bs = part @ [10]"
proof (cases "10 \<in> set bs")
  case True
  then obtain part rest where bs: "bs = part @ 10 # rest" "10 \<notin> set part" by (meson split_list_first)
  then have "line_part bs = part @ [10]" by (simp add: line_part_def takeWhile_append dropWhile_append)
  with bs show ?thesis by (rule closed)
next
  case False
  then have "\<forall>b \<in> set bs. b \<noteq> 10" by auto
  then have "takeWhile (\<lambda>b. b \<noteq> 10) bs = bs" "dropWhile (\<lambda>b. b \<noteq> 10) bs = []"
    by (simp_all only: takeWhile_eq_all_conv dropWhile_eq_Nil_conv)
  then have "line_part bs = bs" by (simp only: line_part_def take_Nil append_Nil2)
  with False show ?thesis by (rule open_end)
qed

lemma first_split_unique:
  "p @ x # r = q @ x # s \<Longrightarrow> x \<notin> set p \<Longrightarrow> x \<notin> set q \<Longrightarrow> p = q \<and> r = s"
proof (induction p arbitrary: q)
  case Nil
  then show ?case by (cases q) auto
next
  case (Cons a p)
  then show ?case by (cases q) auto
qed

lemma read_line_open:
  "10 \<notin> set (concat chunks) \<Longrightarrow> \<exists>s e. read_line_loop cap acc (fills chunks) = (s, Inl e)"
proof (induction chunks arbitrary: acc)
  case (Cons bs chunks)
  then have bs: "10 \<notin> set bs" by simp
  then have "line_part bs = bs" by (cases bs rule: line_part_cases) auto
  moreover have "last bs \<noteq> 10" if "bs \<noteq> []" using bs that by (metis last_in_set)
  moreover have "\<exists>s e. read_line_loop cap (acc @ bs) (fills chunks) = (s, Inl e)" using Cons by simp
  ultimately show ?case by (cases "bs = []") (auto simp: fills_def Let_def split: option.split)
qed (simp add: fills_def)

lemma read_line_closed:
  assumes "concat chunks = part @ 10 # rest" "10 \<notin> set part" "\<forall>bs \<in> set chunks. bs \<noteq> []" "reservable (unat cap)"
  shows "if length acc + length part < unat cap
     then \<exists>rc. read_line_loop cap acc (fills chunks) = (fills rc, Inr (acc @ part @ [10])) \<and> concat rc = rest \<and>
       (\<forall>bs \<in> set rc. bs \<noteq> [])
     else \<exists>s e. read_line_loop cap acc (fills chunks) = (s, Inl e)"
  using assms
proof (induction chunks arbitrary: acc part)
  case (Cons bs chunks)
  have bounded: "reservable n" "n < usize_bound" if "n \<le> unat cap" for n
    using that Cons.prems(4) by (simp_all add: reservable_def isize_max_def usize_bound_def)
  have "bs \<noteq> []" using Cons.prems(3) by simp
  show ?case
  proof (cases bs rule: line_part_cases)
    case open_end
    then have "last bs \<noteq> 10" using \<open>bs \<noteq> []\<close> by (metis last_in_set)
    obtain part' where part': "part = bs @ part'" "concat chunks = part' @ 10 # rest"
      using Cons.prems(1) open_end(1) by (auto simp: append_eq_append_conv2 append_eq_Cons_conv Cons_eq_append_conv)
    show ?thesis
    proof (cases "length acc + length bs \<le> unat cap")
      case True
      then have "read_line_loop cap acc (fills (bs # chunks)) = read_line_loop cap (acc @ bs) (fills chunks)"
        using open_end(2) \<open>bs \<noteq> []\<close> \<open>last bs \<noteq> 10\<close> bounded [OF True] by (simp add: fills_def usize_checked_add_def)
      moreover have "length (acc @ bs) + length part' < unat cap \<longleftrightarrow> length acc + length part < unat cap"
        using part'(1) by (simp add: add.assoc)
      ultimately show ?thesis
        using Cons.IH [OF part'(2), of "acc @ bs"] Cons.prems(2-4) part'(1) by (simp only: append_assoc) simp
    next
      case False
      then show ?thesis
        using open_end(2) \<open>bs \<noteq> []\<close> part'(1) by (simp add: fills_def Let_def split: option.split) (auto simp: usize_checked_add_def)
    qed
  next
    case (closed p r)
    then have "p @ 10 # (r @ concat chunks) = part @ 10 # rest" using Cons.prems(1) by simp
    then have eq: "p = part" "r @ concat chunks = rest"
      using first_split_unique [of p 10 "r @ concat chunks" part rest] closed(2) Cons.prems(2) by simp_all
    show ?thesis
    proof (cases "length acc + length part < unat cap")
      case True
      then have "read_line_loop cap acc (fills (bs # chunks)) =
          (fills (if r = [] then chunks else r # chunks), Inr (acc @ part @ [10]))"
        using closed eq(1) bounded [of "Suc (length acc + length part)"] by (simp add: fills_def usize_checked_add_def)
      moreover have "concat (if r = [] then chunks else r # chunks) = rest" using eq(2) by auto
      moreover have "\<forall>b \<in> set (if r = [] then chunks else r # chunks). b \<noteq> []" using Cons.prems(3) by auto
      ultimately show ?thesis using True by (simp only: if_True) blast
    next
      case False
      then show ?thesis
        using closed eq(1) by (simp add: fills_def Let_def split: option.split) (auto simp: usize_checked_add_def)
    qed
  qed
qed simp

text \<open>
  C35: The framing of QMP messages. However the socket cuts the stream into pieces, reading a message returns
  exactly the bytes up to and with the first line feed, if these are at most the capacity, and leaves exactly the bytes
  after it for the next message; without a line feed, or above the capacity, it is an error.
\<close>

theorem qmp_line_exact:
  assumes "\<forall>bs \<in> set chunks. bs \<noteq> []" "reservable (unat cap)"
  shows "(\<exists>rc. read_line_loop cap [] (fills chunks) = (fills rc, Inr line) \<and> concat rc = rest \<and> (\<forall>bs \<in> set rc. bs \<noteq> [])) \<longleftrightarrow>
    concat chunks = line @ rest \<and> is_line line \<and> length line \<le> unat cap"
proof (cases "10 \<in> set (concat chunks)")
  case True
  then obtain part after where content: "concat chunks = part @ 10 # after" "10 \<notin> set part"
    by (meson split_list_first)
  have line: "concat chunks = line @ rest \<and> is_line line \<longleftrightarrow> line = part @ [10] \<and> rest = after"
  proof
    assume l: "concat chunks = line @ rest \<and> is_line line"
    then obtain l' where "line = l' @ [10]" "10 \<notin> set l'" by (metis append_butlast_last_id is_line_def)
    with l content first_split_unique [of l' 10 rest part after] show "line = part @ [10] \<and> rest = after" by simp
  qed (use content in \<open>simp add: is_line_def\<close>)
  show ?thesis
  proof (cases "length part < unat cap")
    case True
    with read_line_closed [OF content assms, of "[]"] obtain rc where
      "read_line_loop cap [] (fills chunks) = (fills rc, Inr (part @ [10]))" "concat rc = after" "\<forall>bs \<in> set rc. bs \<noteq> []"
      by auto
    with line True show ?thesis by (auto simp: fills_def inj_map_eq_map inj_def)
  next
    case False
    with read_line_closed [OF content assms, of "[]"] obtain s e where
      "read_line_loop cap [] (fills chunks) = (s, Inl e)" by auto
    with line False show ?thesis by auto
  qed
next
  case False
  have "\<not> (concat chunks = line @ rest \<and> is_line line)"
    using False by (metis Un_iff is_line_def last_in_set set_append)
  with read_line_open [OF False, of cap "[]"] show ?thesis by auto
qed

theorem qmp_line_exact_witness:
  "\<exists>rc. read_line_loop 16 [] (fills [[1, 2], [3, 10, 4]]) = (fills rc, Inr [1, 2, 3, 10]) \<and> concat rc = [4]"
proof -
  have "reservable (unat (16 :: u64))" by (simp add: reservable_def isize_max_def)
  moreover have "is_line [1, 2, 3, 10]" by (simp add: is_line_def)
  ultimately show ?thesis
    using qmp_line_exact [of "[[1, 2], [3, 10, 4]]" 16 "[1, 2, 3, 10]" "[4]"] by auto
qed


section \<open>Replies are matched to requests\<close>

lemma read_json_line:
  assumes "concat chunks = line @ rest" "is_line line" "length line \<le> unat QMP_MESSAGE_CAPACITY"
    "\<forall>bs \<in> set chunks. bs \<noteq> []" "json_parse lib line = Inr v"
  obtains rc where "read_json lib (fills chunks) = (fills rc, Inr v)" "concat rc = rest" "\<forall>bs \<in> set rc. bs \<noteq> []"
proof -
  obtain part where part: "line = part @ [10]" "10 \<notin> set part"
    using assms(2) by (metis append_butlast_last_id is_line_def)
  have content: "concat chunks = part @ 10 # rest" using assms(1) part(1) by simp
  have cap: "reservable (unat QMP_MESSAGE_CAPACITY)"
    by (simp add: QMP_MESSAGE_CAPACITY_def reservable_def isize_max_def)
  have "length ([] :: u8 list) + length part < unat QMP_MESSAGE_CAPACITY" using assms(3) part(1) by simp
  with read_line_closed [OF content part(2) assms(4) cap, of "[]"] obtain rc where
    "read_line_loop QMP_MESSAGE_CAPACITY [] (fills chunks) = (fills rc, Inr line)" "concat rc = rest"
    "\<forall>bs \<in> set rc. bs \<noteq> []"
    using part(1) by auto
  then show ?thesis using assms(5) by (intro that) (simp_all add: read_json_def read_json_with_capacity_def)
qed

text \<open>What a line is to a client that waits for the reply to \<open>request_id\<close>.\<close>

definition reply_id :: "json_value \<Rightarrow> u64 option" where
  "reply_id v = Option.bind (json_get v ''id'') json_as_u64"

definition line_event :: "json_library \<Rightarrow> u8 list \<Rightarrow> vmi_event option" where
  "line_event lib line =
     (case json_parse lib line of Inl _ \<Rightarrow> None
      | Inr v \<Rightarrow> (case qmp_event v of Inl _ \<Rightarrow> None | Inr e \<Rightarrow> e))"

definition unrelated :: "json_library \<Rightarrow> u64 \<Rightarrow> u8 list \<Rightarrow> bool" where
  "unrelated lib request_id line \<longleftrightarrow> is_line line \<and> length line \<le> unat QMP_MESSAGE_CAPACITY \<and>
     (case json_parse lib line of Inl _ \<Rightarrow> False
      | Inr v \<Rightarrow> (case qmp_event v of Inl _ \<Rightarrow> False
         | Inr (Some e) \<Rightarrow> True
         | Inr None \<Rightarrow> reply_id v \<noteq> Some request_id))"

definition reply_value :: "json_library \<Rightarrow> string \<Rightarrow> json_value \<Rightarrow> json_value result" where
  "reply_value lib command v =
     (case json_get v ''error'' of
        Some error \<Rightarrow> Inl (Backend (''QMP '' @ command @ '' failed: '' @ json_print lib error))
      | None \<Rightarrow> Inr (take_qmp_return v))"

definition request_line :: "json_library \<Rightarrow> u64 \<Rightarrow> string \<Rightarrow> json_value option \<Rightarrow> string" where
  "request_line lib request_id command arguments =
     json_print lib (VObject ([(''execute'', VString command), (''id'', VUnsigned request_id)] @
       (case arguments of Some a \<Rightarrow> [(''arguments'', a)] | None \<Rightarrow> []))) @ [CHR 0x0A]"

lemma enqueue_event_below:
  "length events < EVENT_QUEUE_CAPACITY \<Longrightarrow> enqueue_event events event = Inr (events @ [event])"
  by (simp add: enqueue_event_def EVENT_QUEUE_CAPACITY_def reservable_def isize_max_def)

lemma qmp_loop_event:
  assumes "\<not> deadline_over c" "read_json lib (qmp_stream c) = (s, Inr v)" "qmp_event v = Inr (Some e)"
    "length (qmp_events c) < EVENT_QUEUE_CAPACITY"
  shows "qmp_loop lib i command c =
    qmp_loop lib i command (next_clock c\<lparr>qmp_stream := s, qmp_events := qmp_events c @ [e]\<rparr>)"
  using assms by (subst qmp_loop.simps) (simp add: enqueue_event_below next_clock_def)

lemma qmp_loop_foreign:
  assumes "\<not> deadline_over c" "read_json lib (qmp_stream c) = (s, Inr v)" "qmp_event v = Inr None" "reply_id v \<noteq> Some i"
  shows "qmp_loop lib i command c = qmp_loop lib i command (next_clock c\<lparr>qmp_stream := s\<rparr>)"
  using assms by (subst qmp_loop.simps) (simp add: reply_id_def)

lemma qmp_loop_reply:
  assumes "\<not> deadline_over c" "read_json lib (qmp_stream c) = (s, Inr v)" "qmp_event v = Inr None" "reply_id v = Some i"
  shows "qmp_loop lib i command c = (next_clock c\<lparr>qmp_stream := s\<rparr>, reply_value lib command v)"
  using assms by (subst qmp_loop.simps) (simp add: reply_id_def reply_value_def)

lemma in_time: "True \<notin> set (qmp_clock c) \<Longrightarrow> \<not> deadline_over c \<and> True \<notin> set (qmp_clock (next_clock c))"
  by (cases "qmp_clock c") (auto simp: deadline_over_def next_clock_def)

lemma qmp_loop_matched:
  assumes "\<forall>line \<in> set earlier. unrelated lib i line" "is_line line" "length line \<le> unat QMP_MESSAGE_CAPACITY"
    "json_parse lib line = Inr v" "qmp_event v = Inr None" "reply_id v = Some i"
    "qmp_stream c = fills chunks" "\<forall>bs \<in> set chunks. bs \<noteq> []" "concat chunks = concat earlier @ line @ rest"
    "True \<notin> set (qmp_clock c)" "length (qmp_events c) + length (List.map_filter (line_event lib) earlier) \<le> EVENT_QUEUE_CAPACITY"
  shows "\<exists>c' rc. qmp_loop lib i command c = (c', reply_value lib command v) \<and>
    qmp_events c' = qmp_events c @ List.map_filter (line_event lib) earlier \<and>
    qmp_stream c' = fills rc \<and> concat rc = rest \<and> qmp_sent c' = qmp_sent c \<and> qmp_next_id c' = qmp_next_id c"
  using assms
proof (induction earlier arbitrary: c chunks)
  case Nil
  obtain rc where rc: "read_json lib (fills chunks) = (fills rc, Inr v)" "concat rc = rest"
    by (rule read_json_line [of chunks line rest lib v]) (use Nil.prems in simp_all)
  with Nil.prems qmp_loop_reply [of c lib "fills rc" v i command] in_time [of c] show ?case
    by (auto simp: next_clock_def)
next
  case (Cons l earlier)
  then have l: "is_line l" "length l \<le> unat QMP_MESSAGE_CAPACITY" by (simp_all add: unrelated_def)
  obtain w where w: "json_parse lib l = Inr w" using Cons.prems(1) by (auto simp: unrelated_def split: sum.splits)
  obtain rc where rc: "read_json lib (fills chunks) = (fills rc, Inr w)" "concat rc = concat earlier @ line @ rest"
      "\<forall>bs \<in> set rc. bs \<noteq> []"
    by (rule read_json_line [of chunks l "concat earlier @ line @ rest" lib w]) (use Cons.prems l w in simp_all)
  note IH = Cons.IH [OF _ Cons.prems(2-6) _ rc(3,2)]
  show ?case
  proof (cases "line_event lib l")
    case None
    then have "qmp_event w = Inr None" "reply_id w \<noteq> Some i"
      using Cons.prems(1) w by (auto simp: unrelated_def line_event_def split: sum.splits option.splits)
    then have "qmp_loop lib i command c = qmp_loop lib i command (next_clock c\<lparr>qmp_stream := fills rc\<rparr>)"
      using qmp_loop_foreign in_time rc(1) Cons.prems(7,10) by simp
    with IH [of "next_clock c\<lparr>qmp_stream := fills rc\<rparr>"] Cons.prems(1,10,11) None in_time [of c] show ?thesis
      by (simp add: map_filter_simps next_clock_def)
  next
    case (Some e)
    then have e: "qmp_event w = Inr (Some e)" using w by (auto simp: line_event_def split: sum.splits)
    have room: "length (qmp_events c) < EVENT_QUEUE_CAPACITY" using Cons.prems(11) Some by (simp add: map_filter_simps)
    let ?c = "next_clock c\<lparr>qmp_stream := fills rc, qmp_events := qmp_events c @ [e]\<rparr>"
    have "qmp_loop lib i command c = qmp_loop lib i command ?c"
      using qmp_loop_event [OF _ _ e room] in_time rc(1) Cons.prems(7,10) by simp
    with IH [of ?c] Cons.prems(1,10,11) Some in_time [of c] show ?thesis
      by (simp add: map_filter_simps next_clock_def)
  qed
qed

text \<open>
  C34: A request gets its own reply. Whatever lines come before it (events, and replies to other requests) and however
  the socket cuts the stream into pieces, executing a command sends one line with a fresh identifier, returns the value
  or the error of the reply with that identifier, queues the events that came before it in their order, drops the other
  replies, and leaves exactly the bytes after the reply.
\<close>

theorem qmp_execute_matched:
  assumes "qmp_next_id c = Some i" "qmp_faults c = []" "True \<notin> set (qmp_clock c)"
    "\<forall>line \<in> set earlier. unrelated lib i line" "is_line line" "length line \<le> unat QMP_MESSAGE_CAPACITY"
    "json_parse lib line = Inr v" "qmp_event v = Inr None" "reply_id v = Some i"
    "qmp_stream c = fills chunks" "\<forall>bs \<in> set chunks. bs \<noteq> []" "concat chunks = concat earlier @ line @ rest"
    "length (qmp_events c) + length (List.map_filter (line_event lib) earlier) \<le> EVENT_QUEUE_CAPACITY"
  shows "\<exists>c' rc. qmp_execute lib c command arguments = (c', reply_value lib command v) \<and>
    qmp_events c' = qmp_events c @ List.map_filter (line_event lib) earlier \<and>
    qmp_stream c' = fills rc \<and> concat rc = rest \<and>
    qmp_sent c' = qmp_sent c @ [request_line lib i command arguments] \<and> qmp_next_id c' = checked_add i 1"
proof -
  define c1 where "c1 = c\<lparr>qmp_next_id := checked_add i 1,
    qmp_sent := qmp_sent c @ [request_line lib i command arguments], qmp_faults := []\<rparr>"
  have "qmp_execute lib c command arguments = qmp_loop lib i command c1"
    using assms(1,2) by (simp add: qmp_execute_def take_request_id_def qmp_send_def qmp_flush_def c1_def request_line_def)
  moreover have "qmp_events c1 = qmp_events c" "qmp_stream c1 = qmp_stream c" "qmp_clock c1 = qmp_clock c"
      "qmp_sent c1 = qmp_sent c @ [request_line lib i command arguments]" "qmp_next_id c1 = checked_add i 1"
    by (simp_all add: c1_def)
  ultimately show ?thesis
    using qmp_loop_matched [of earlier lib i line v c1 chunks rest command] assms by simp
qed


definition sample_library :: json_library where
  "sample_library = \<lparr>json_parse = (\<lambda>bs.
       if bs = [1, 10] then Inr (VObject [(''event'', VString ''STOP'')])
       else if bs = [2, 10] then Inr (VObject [(''id'', VUnsigned 7), (''return'', VBool True)])
       else if bs = [3, 10] then Inr (VObject [(''id'', VUnsigned 6), (''return'', VBool False)])
       else Inl ''expected value''),
     json_print = (\<lambda>v. ''{}'')\<rparr>"

definition sample_client :: qmp_client where
  "sample_client = \<lparr>qmp_stream = fills [[3], [10, 1, 10, 2], [10, 1]], qmp_next_id = Some 7, qmp_events = [],
     qmp_sent = [], qmp_faults = [], qmp_clock = [False]\<rparr>"

theorem qmp_execute_matched_witness:
  "\<exists>c' rc. qmp_execute sample_library sample_client ''stop'' None = (c', Inr (VBool True)) \<and>
    map event_kind (qmp_events c') = [''STOP''] \<and> qmp_stream c' = fills rc \<and> concat rc = [1] \<and>
    qmp_next_id c' = Some 8"
proof -
  note defs = sample_library_def sample_client_def is_line_def unrelated_def line_event_def reply_id_def qmp_event_def
    QMP_MESSAGE_CAPACITY_def EVENT_QUEUE_CAPACITY_def reservable_def isize_max_def map_filter_simps
  have "\<forall>line \<in> set [[3, 10], [1, 10]]. unrelated sample_library 7 line" by (simp add: defs)
  moreover have "qmp_event (VObject [(''id'', VUnsigned 7), (''return'', VBool True)]) = Inr None" by (simp add: defs)
  moreover have "length (qmp_events sample_client) +
      length (List.map_filter (line_event sample_library) [[3, 10], [1, 10]]) \<le> EVENT_QUEUE_CAPACITY"
    by (simp add: defs)
  moreover have "map event_kind (List.map_filter (line_event sample_library) [[3, 10], [1, 10]]) = [''STOP'']"
    by (simp add: defs)
  moreover have "checked_add (7 :: u64) 1 = Some 8" by (simp add: checked_add_def)
  ultimately show ?thesis
    using qmp_execute_matched [of sample_client 7 "[[3, 10], [1, 10]]" sample_library "[2, 10]"
        "VObject [(''id'', VUnsigned 7), (''return'', VBool True)]" "[[3], [10, 1, 10, 2], [10, 1]]" "[1]" "''stop''" None]
    by (auto simp: sample_client_def sample_library_def is_line_def reply_id_def reply_value_def take_qmp_return_def
        QMP_MESSAGE_CAPACITY_def)
qed


section \<open>Defects\<close>

text \<open>
  A read that times out in the middle of a message drops what it had of it: the next read starts inside the message, so
  that the client loses the framing of the stream.
\<close>

lemma timeout_drops_partial_message:
  assumes "bs \<noteq> []" "10 \<notin> set bs" "length bs \<le> unat cap" "reservable (unat cap)"
  shows "read_line_loop cap [] (Fill bs # FillTimeout # stream) = (stream, Inl (Timeout ''QMP read''))"
proof -
  have "line_part bs = bs" using assms(2) by (cases bs rule: line_part_cases) auto
  moreover have "last bs \<noteq> 10" using assms(1,2) by (metis last_in_set)
  ultimately show ?thesis
    using assms by (simp add: usize_checked_add_def usize_bound_def reservable_def isize_max_def)
qed

text \<open>A connection that is closed in the middle of a message is reported as a message that is too long.\<close>

lemma closed_connection_reported_as_too_long:
  assumes "bs \<noteq> []" "10 \<notin> set bs" "length bs \<le> unat cap" "reservable (unat cap)"
  shows "read_line_loop cap [] [Fill bs] = ([], Inl (message_exceeds cap))"
proof -
  have "line_part bs = bs" using assms(2) by (cases bs rule: line_part_cases) auto
  moreover have "last bs \<noteq> 10" using assms(1,2) by (metis last_in_set)
  ultimately show ?thesis
    using assms by (simp add: usize_checked_add_def usize_bound_def reservable_def isize_max_def)
qed

text \<open>
  The refusal to replace a file looks at the path of the caller, and the command names the path with its backslashes
  turned to slashes: on a host where a backslash is a character of a name, the file of that other path is replaced.
\<close>

lemma monitor_destination_existing:
  assumes "d = [(''/t/a'', content)]"
  shows "monitor_destination sample_env d (Inr ''/'') (''/t'' @ [CHR 0x5C] @ ''a'') = Inr ''/t/a'' \<and> map_of d ''/t/a'' = Some content"
proof -
  have "path_to_str (''/t'' @ [CHR 0x5C] @ ''a'') = Some (''/t'' @ [CHR 0x5C] @ ''a'')" by (rule path_to_str_ascii) simp
  then show ?thesis
    using assms by (simp add: monitor_destination_def ensure_output_absent_def sample_env_def monitor_path_def is_absolute_def
        starts_with_def try_owned_path_def reservable_def isize_max_def utf8_width_def is_control_def)
qed

end
