(* ===== verification/Ffi.thy ===== *)
theory Ffi
  imports Driver_Snapshot
begin

text \<open>
  The crate \<open>vmi-ffi\<close>: the C interface. The memory of the C caller is a byte store indexed by 64-bit addresses, so
  that pointers may be null, alias and overlap. A handle is a token of the registry of live snapshots and is never
  dereferenced. A read keeps its own reference to an immutable bundle from the look-up on, so each call is one step; the
  registry's counter and the thread-local error texts are part of the state.
\<close>

section \<open>The texts of errors (vmi-types/src/error.rs)\<close>

fun vmi_error_text :: "flag_ops \<Rightarrow> vmi_error \<Rightarrow> string" where
  "vmi_error_text fl (AttachRejected p missing) =
     ''provider '' @ p @ '' rejected attach because required capabilities are missing: '' @ fmt_capability_set fl missing"
| "vmi_error_text fl (CapabilityMissing p c) = ''provider '' @ p @ '' does not expose capability '' @ as_str c"
| "vmi_error_text fl (UnsupportedOperation p op) =
     ''operation '' @ op @ '' is not supported by provider '' @ p"
| "vmi_error_text fl (ReadFailed a n) = ''read failed at '' @ dec (unat a) @ '' for '' @ dec n @ '' bytes''"
| "vmi_error_text fl (NonCanonicalAddress a bits) =
     ''virtual address '' @ hex0x a @ '' is not canonical for '' @ dec (unat bits) @ ''-bit addressing''"
| "vmi_error_text fl (PageNotPresent a level) =
     ''page-table entry is not present at level '' @ dec (unat level) @ '' for virtual address '' @ hex0x a"
| "vmi_error_text fl (InvalidPageTableEntry entry level) =
     ''invalid page-table entry '' @ hex0x entry @ '' at level '' @ dec (unat level)"
| "vmi_error_text fl (ScalarDecode (WrongWidth expected actual)) =
     ''scalar decode failed: expected '' @ dec expected @ '' bytes, got '' @ dec actual"
| "vmi_error_text fl (Timeout op) = ''operation '' @ op @ '' timed out''"
| "vmi_error_text fl (Cancelled op) = ''operation '' @ op @ '' was cancelled''"
| "vmi_error_text fl (Backend e) = ''backend error: '' @ e"

section \<open>The memory of the caller\<close>

type_synonym c_memory = "u64 \<Rightarrow> u8"

definition covers :: "u64 \<Rightarrow> nat \<Rightarrow> u64 \<Rightarrow> bool" where
  "covers a n x \<longleftrightarrow> unat (x - a) < n"

definition c_read :: "c_memory \<Rightarrow> u64 \<Rightarrow> nat \<Rightarrow> u8 list" where
  "c_read m a n = map (\<lambda>i. m (a + of_nat i)) [0..<n]"

definition c_write :: "c_memory \<Rightarrow> u64 \<Rightarrow> u8 list \<Rightarrow> c_memory" where
  "c_write m a bs = (\<lambda>x. if covers a (length bs) x then bs ! unat (x - a) else m x)"

definition write_u64 :: "c_memory \<Rightarrow> u64 \<Rightarrow> u64 \<Rightarrow> c_memory" where
  "write_u64 m a v = c_write m a (to_le_bytes v)"

definition read_u64 :: "c_memory \<Rightarrow> u64 \<Rightarrow> u64" where
  "read_u64 m a = from_le_bytes (c_read m a 8)"

text \<open>\<open>CStr::from_ptr\<close>: the bytes before the first NUL; without one the call is outside its contract.\<close>

partial_function (option) c_string :: "c_memory \<Rightarrow> u64 \<Rightarrow> u8 list option" where
  "c_string m p = (if m p = 0 then Some [] else Option.bind (c_string m (p + 1)) (\<lambda>bs. Some (m p # bs)))"

section \<open>State and status\<close>

definition ABI_VERSION :: u32 where
  "ABI_VERSION = 1"

definition MAX_PATH_BYTES :: usize where
  "MAX_PATH_BYTES = 32 * 1024"

datatype vmi_status = StatusOk | InvalidArgument | ArtifactError | ReadError | BufferTooSmall | StatusPanic

record ffi_state =
  live_snapshots :: "(usize \<times> snapshot_bundle) list"
  registry_poisoned :: bool
  next_snapshot :: usize
  last_error :: "nat \<Rightarrow> string"
  c_mem :: c_memory

text \<open>What a call meets outside: the libraries, the file system, and how often the exchange of the counter fails.\<close>

record 'v ffi_env =
  fe_flags :: flag_ops
  fe_json :: "'v json_ops"
  fe_decoders :: decoders
  fe_files :: file_system
  fe_spurious :: nat

text \<open>The process before the first call.\<close>

definition ffi_initial :: "(nat \<Rightarrow> string) \<Rightarrow> c_memory \<Rightarrow> ffi_state" where
  "ffi_initial errors m =
     \<lparr>live_snapshots = [], registry_poisoned = False, next_snapshot = 1, last_error = errors, c_mem = m\<rparr>"

definition set_error :: "nat \<Rightarrow> string \<Rightarrow> ffi_state \<Rightarrow> ffi_state" where
  "set_error t message s = s\<lparr>last_error := (last_error s)(t := message)\<rparr>"

definition registry_failed :: "nat \<Rightarrow> ffi_state \<Rightarrow> ffi_state" where
  "registry_failed t s = set_error t (''snapshot handle registry failed: '' @ poisoned_lock) s"

text \<open>
  The counter: each failed exchange gives the value it observed, and the next attempt starts from there. The result is the
  token and the new value of the counter.
\<close>

fun token_loop :: "usize list \<Rightarrow> usize \<Rightarrow> (usize \<times> usize) option" where
  "token_loop [] current = map_option (\<lambda>n. (current, n)) (usize_checked_add current 1)"
| "token_loop (observed # failures) current =
     (case usize_checked_add current 1 of None \<Rightarrow> None | Some _ \<Rightarrow> token_loop failures observed)"

text \<open>The registry's lock is held, so that a failed exchange observes the same value.\<close>

definition next_snapshot_token :: "nat \<Rightarrow> usize \<Rightarrow> (usize \<times> usize) option" where
  "next_snapshot_token failures counter = token_loop (replicate failures counter) counter"

definition validate_snapshot :: "nat \<Rightarrow> u64 \<Rightarrow> ffi_state \<Rightarrow> ffi_state \<times> (vmi_status + snapshot_bundle)" where
  "validate_snapshot t snapshot s =
     (if snapshot = 0 then (set_error t ''snapshot must not be null'' s, Inl InvalidArgument)
      else if registry_poisoned s then (registry_failed t s, Inl StatusPanic)
      else (case map_of (live_snapshots s) (unat snapshot) of
          None \<Rightarrow> (set_error t ''snapshot handle is not live'' s, Inl InvalidArgument)
        | Some b \<Rightarrow> (s, Inr b)))"

definition clear_snapshot_output :: "u64 \<Rightarrow> ffi_state \<Rightarrow> ffi_state" where
  "clear_snapshot_output out s = s\<lparr>c_mem := write_u64 (c_mem s) out 0\<rparr>"

text \<open>A body that panics gives no status.\<close>

definition guarded :: "nat \<Rightarrow> ffi_state \<times> vmi_status option \<Rightarrow> ffi_state \<times> vmi_status" where
  "guarded t r =
     (case r of
        (s, Some status) \<Rightarrow> (s, status)
      | (s, None) \<Rightarrow> (set_error t ''panic crossed the C ABI boundary'' s, StatusPanic))"

definition returns :: "ffi_state \<Rightarrow> vmi_status \<Rightarrow> ffi_state \<times> vmi_status option" where
  "returns s status = (s, Some status)"

section \<open>The calls\<close>

definition vmi_abi_version :: u32 where
  "vmi_abi_version = ABI_VERSION"

definition open_artifact :: "'v ffi_env \<Rightarrow> u32 \<Rightarrow> string \<Rightarrow> u64 \<Rightarrow> snapshot_bundle result option" where
  "open_artifact env format path raw_base =
     (if format = 0 then Some (raw_file (fe_files env) path (Gpa raw_base))
      else if format = 1 then Some (elf_vmcore_file (fe_files env) path)
      else if format = 2 then Some (lime_file (fe_files env) path)
      else if format = 3 then Some (manifest_file (fe_json env) (fe_files env) path)
      else if format = 4 then Some (xen_core_file (fe_files env) path)
      else if format = 5 then Some (kdmp_file (fe_decoders env) (fe_files env) path)
      else None)"

definition register_snapshot ::
  "nat \<Rightarrow> nat \<Rightarrow> u64 \<Rightarrow> snapshot_bundle \<Rightarrow> ffi_state \<Rightarrow> ffi_state \<times> vmi_status option" where
  "register_snapshot failures t out b s =
     (if registry_poisoned s then returns (registry_failed t s) StatusPanic
      else if \<not> reservable (16 * (length (live_snapshots s) + 1)) then
        returns (set_error t (''failed to grow snapshot handle registry: '' @ capacity_overflow) s) StatusPanic
      else
        (case next_snapshot_token failures (next_snapshot s) of
           None \<Rightarrow> returns (set_error t ''snapshot handle space exhausted'' s) StatusPanic
         | Some (token, counter) \<Rightarrow>
             returns (set_error t [] (s\<lparr>live_snapshots := AList.update token b (live_snapshots s), next_snapshot := counter,
               c_mem := write_u64 (c_mem s) out (of_nat token)\<rparr>)) StatusOk))"

definition open_path ::
  "'v ffi_env \<Rightarrow> nat \<Rightarrow> u8 list \<Rightarrow> u32 \<Rightarrow> u64 \<Rightarrow> u64 \<Rightarrow> ffi_state \<Rightarrow> ffi_state \<times> vmi_status option" where
  "open_path env t bytes format raw_base out s =
     (let cleared = clear_snapshot_output out s in
      (case from_utf8 bytes of
         Inl e \<Rightarrow> returns (set_error t (''path is not valid UTF-8: '' @ e) cleared) InvalidArgument
       | Inr path \<Rightarrow>
           if path = [] then returns (set_error t ''path must not be empty'' cleared) InvalidArgument
           else if length path > MAX_PATH_BYTES then
             returns (set_error t (''path exceeds '' @ dec MAX_PATH_BYTES @ '' bytes'') cleared) InvalidArgument
           else if \<not> reservable (length path) then
             returns (set_error t (''failed to allocate artifact path: '' @ capacity_overflow) cleared) StatusPanic
           else
             (case open_artifact env format path raw_base of
                None \<Rightarrow> returns (set_error t (''unknown artifact format '' @ dec (unat format)) cleared) InvalidArgument
              | Some (Inl e) \<Rightarrow> returns (set_error t (vmi_error_text (fe_flags env) e) cleared) ArtifactError
              | Some (Inr b) \<Rightarrow> register_snapshot (fe_spurious env) t out b cleared)))"

definition vmi_snapshot_open ::
  "'v ffi_env \<Rightarrow> nat \<Rightarrow> u64 \<Rightarrow> u32 \<Rightarrow> u64 \<Rightarrow> u64 \<Rightarrow> ffi_state \<Rightarrow> (ffi_state \<times> vmi_status) option" where
  "vmi_snapshot_open env t path format raw_base out s =
     (if path = 0 \<or> out = 0 then
        Some (guarded t (returns (set_error t ''path and out_snapshot must not be null'' s) InvalidArgument))
      else map_option (\<lambda>bytes. guarded t (open_path env t bytes format raw_base out s)) (c_string (c_mem s) path))"

definition vmi_snapshot_read ::
  "'v ffi_env \<Rightarrow> nat \<Rightarrow> u64 \<Rightarrow> u64 \<Rightarrow> u64 \<Rightarrow> usize \<Rightarrow> ffi_state \<Rightarrow> ffi_state \<times> vmi_status" where
  "vmi_snapshot_read env t snapshot address out len s = guarded t
     (if out = 0 \<and> len \<noteq> 0 then
        returns (set_error t ''snapshot and non-empty output must not be null'' s) InvalidArgument
      else if len > isize_max then
        returns (set_error t ''snapshot output length exceeds Rust slice limits'' s) InvalidArgument
      else
        (case validate_snapshot t snapshot s of
           (s1, Inl status) \<Rightarrow> returns s1 status
         | (s1, Inr b) \<Rightarrow>
             (case bundle_read_into b (Gpa address) (c_read (c_mem s1) out len) of
                (buffer, r) \<Rightarrow>
                  (let s2 = s1\<lparr>c_mem := c_write (c_mem s1) out buffer\<rparr> in
                   case r of
                     Inr _ \<Rightarrow> returns (set_error t [] s2) StatusOk
                   | Inl e \<Rightarrow> returns (set_error t (vmi_error_text (fe_flags env) e) s2) ReadError))))"

definition vmi_snapshot_segment_count :: "nat \<Rightarrow> u64 \<Rightarrow> u64 \<Rightarrow> ffi_state \<Rightarrow> ffi_state \<times> vmi_status" where
  "vmi_snapshot_segment_count t snapshot out s = guarded t
     (if out = 0 then returns (set_error t ''snapshot and out_count must not be null'' s) InvalidArgument
      else
        (case validate_snapshot t snapshot (s\<lparr>c_mem := write_u64 (c_mem s) out 0\<rparr>) of
           (s1, Inl status) \<Rightarrow> returns s1 status
         | (s1, Inr b) \<Rightarrow>
             returns (set_error t [] (s1\<lparr>c_mem := write_u64 (c_mem s1) out (of_nat (length (segments b)))\<rparr>)) StatusOk))"

definition vmi_snapshot_segment ::
  "nat \<Rightarrow> u64 \<Rightarrow> usize \<Rightarrow> u64 \<Rightarrow> u64 \<Rightarrow> ffi_state \<Rightarrow> ffi_state \<times> vmi_status" where
  "vmi_snapshot_segment t snapshot index out_start out_length s = guarded t
     (if out_start = 0 \<or> out_length = 0 then
        returns (set_error t ''snapshot and segment outputs must not be null'' s) InvalidArgument
      else if out_start = out_length then
        returns (set_error t ''segment start and length outputs must not alias''
          (s\<lparr>c_mem := write_u64 (c_mem s) out_start 0\<rparr>)) InvalidArgument
      else
        (case validate_snapshot t snapshot
            (s\<lparr>c_mem := write_u64 (write_u64 (c_mem s) out_start 0) out_length 0\<rparr>) of
           (s1, Inl status) \<Rightarrow> returns s1 status
         | (s1, Inr b) \<Rightarrow>
             (case get_at (segments b) index of
                None \<Rightarrow>
                  returns (set_error t (''segment index '' @ dec index @ '' is out of range'') s1) InvalidArgument
              | Some seg \<Rightarrow>
                  returns (set_error t [] (s1\<lparr>c_mem :=
                    write_u64 (write_u64 (c_mem s1) out_start (gpa_raw (range_start (seg_range seg)))) out_length
                      (range_length (seg_range seg))\<rparr>)) StatusOk)))"

text \<open>Closing gives no status; a panic inside sets an error of its own, and there is none.\<close>

definition vmi_snapshot_close :: "nat \<Rightarrow> u64 \<Rightarrow> ffi_state \<Rightarrow> ffi_state" where
  "vmi_snapshot_close t snapshot s =
     (if snapshot = 0 then set_error t [] s
      else if registry_poisoned s then registry_failed t s
      else if map_of (live_snapshots s) (unat snapshot) = None then set_error t ''snapshot handle is not live'' s
      else set_error t [] (s\<lparr>live_snapshots := AList.delete (unat snapshot) (live_snapshots s)\<rparr>))"

definition vmi_last_error :: "nat \<Rightarrow> u64 \<Rightarrow> usize \<Rightarrow> ffi_state \<Rightarrow> ffi_state \<times> usize" where
  "vmi_last_error t out len s =
     (let message = bytes_of (last_error s t);
          required = min (length message + 1) (usize_bound - 1) in
      (if out \<noteq> 0 \<and> required \<le> len then s\<lparr>c_mem := c_write (c_mem s) out (message @ [0])\<rparr> else s, required))"


section \<open>Programs over the interface\<close>

datatype ffi_call = SnapshotOpen u64 u32 u64 u64 | SnapshotRead u64 u64 u64 usize | SegmentCount u64 u64
  | Segment u64 usize u64 u64 | SnapshotClose u64 | LastError u64 usize

text \<open>A call of a thread; \<open>None\<close> only where a path has no end.\<close>

fun ffi_do :: "'v ffi_env \<Rightarrow> nat \<Rightarrow> ffi_call \<Rightarrow> ffi_state \<Rightarrow> (ffi_state \<times> vmi_status option) option" where
  "ffi_do env t (SnapshotOpen path format base out) s =
     map_option (map_prod id Some) (vmi_snapshot_open env t path format base out s)"
| "ffi_do env t (SnapshotRead h address out len) s = Some (map_prod id Some (vmi_snapshot_read env t h address out len s))"
| "ffi_do env t (SegmentCount h out) s = Some (map_prod id Some (vmi_snapshot_segment_count t h out s))"
| "ffi_do env t (Segment h index a b) s = Some (map_prod id Some (vmi_snapshot_segment t h index a b s))"
| "ffi_do env t (SnapshotClose h) s = Some (vmi_snapshot_close t h s, None)"
| "ffi_do env t (LastError out len) s = Some (map_prod id (\<lambda>_. None) (vmi_last_error t out len s))"

text \<open>Calls of any threads in any order; between them the caller writes its memory and the files change.\<close>

inductive ffi_run :: "'v ffi_env \<Rightarrow> ffi_state \<Rightarrow> ffi_call list \<Rightarrow> ffi_state \<Rightarrow> bool" for env where
  start: "ffi_run env s [] s"
| writes: "ffi_run env s cs s1 \<Longrightarrow> ffi_run env s cs (s1\<lparr>c_mem := m\<rparr>)"
| calls: "ffi_run env s cs s1 \<Longrightarrow> ffi_do (env\<lparr>fe_files := fs, fe_spurious := n\<rparr>) t c s1 = Some (s2, r) \<Longrightarrow>
    ffi_run env s (cs @ [c]) s2"

section \<open>The byte store\<close>

lemma c_write_outside: "\<not> covers a (length bs) x \<Longrightarrow> c_write m a bs x = m x"
  by (simp add: c_write_def)

lemma write_u64_outside: "\<not> covers a 8 x \<Longrightarrow> write_u64 m a v x = m x"
  by (simp add: write_u64_def c_write_outside)

lemma length_c_read [simp]: "length (c_read m a n) = n"
  by (simp add: c_read_def)

lemma c_read_Suc: "c_read m a (Suc n) = m a # c_read m (a + 1) n"
  by (rule nth_equalityI) (auto simp: c_read_def nth_Cons' add.assoc simp flip: of_nat_Suc simp del: upt_Suc)

lemma c_read_write: "length bs \<le> 2 ^ 64 \<Longrightarrow> c_read (c_write m a bs) a (length bs) = bs"
  by (rule nth_equalityI) (auto simp: c_read_def c_write_def covers_def unat_of_nat)

lemma read_write_u64 [simp]: "read_u64 (write_u64 m a v) a = v"
  using c_read_write [of "to_le_bytes v" m a] by (simp add: read_u64_def write_u64_def from_to_le_bytes_u64)

lemma c_string_bytes:
  "c_read m p (length bs) = bs \<Longrightarrow> 0 \<notin> set bs \<Longrightarrow> m (p + of_nat (length bs)) = 0 \<Longrightarrow> c_string m p = Some bs"
proof (induction bs arbitrary: p)
  case Nil
  then show ?case by (subst c_string.simps) simp
next
  case (Cons b bs)
  then have "m p = b" "c_string m (p + 1) = Some bs" by (simp_all add: c_read_Suc add.assoc)
  with Cons.prems(2) show ?case by (subst c_string.simps) simp
qed


section \<open>What a call changes\<close>

lemmas ffi_simps = guarded_def returns_def set_error_def registry_failed_def validate_snapshot_def clear_snapshot_output_def

lemma next_snapshot_token_value:
  "next_snapshot_token failures counter = map_option (\<lambda>n. (counter, n)) (usize_checked_add counter 1)"
  unfolding next_snapshot_token_def by (induction failures) (auto split: option.split)

text \<open>Opening either registers the bundle under the counter's value, or leaves the registry as it is.\<close>

lemma register_snapshot_cases:
  "register_snapshot failures t out b s =
     (s\<lparr>live_snapshots := AList.update (next_snapshot s) b (live_snapshots s), next_snapshot := next_snapshot s + 1,
       c_mem := write_u64 (c_mem s) out (of_nat (next_snapshot s)), last_error := (last_error s)(t := [])\<rparr>, Some StatusOk) \<and>
     next_snapshot s + 1 < usize_bound \<and> \<not> registry_poisoned s \<or>
   (\<exists>e. e \<noteq> [] \<and> register_snapshot failures t out b s = (s\<lparr>last_error := (last_error s)(t := e)\<rparr>, Some StatusPanic))"
  by (auto simp: register_snapshot_def next_snapshot_token_value usize_checked_add_def returns_def set_error_def
      registry_failed_def split: option.splits)

lemma vmi_error_text_nonempty [simp]: "vmi_error_text fl e \<noteq> []"
  by (cases "(fl, e)" rule: vmi_error_text.cases) simp_all

lemma open_path_cases:
  assumes "open_path env t bytes format raw_base out s = (s', r)"
  shows "(\<exists>path b. from_utf8 bytes = Inr path \<and> open_artifact env format path raw_base = Some (Inr b) \<and> r = Some StatusOk \<and>
      next_snapshot s + 1 < usize_bound \<and> \<not> registry_poisoned s \<and>
      s' = s\<lparr>live_snapshots := AList.update (next_snapshot s) b (live_snapshots s), next_snapshot := next_snapshot s + 1,
        c_mem := write_u64 (write_u64 (c_mem s) out 0) out (of_nat (next_snapshot s)), last_error := (last_error s)(t := [])\<rparr>) \<or>
    (\<exists>e status. e \<noteq> [] \<and> status \<noteq> StatusOk \<and> r = Some status \<and>
      s' = s\<lparr>c_mem := write_u64 (c_mem s) out 0, last_error := (last_error s)(t := e)\<rparr>)"
proof -
  define cleared where "cleared = clear_snapshot_output out s"
  have failed: ?thesis if "e \<noteq> []" "status \<noteq> StatusOk" "(s', r) = returns (set_error t e cleared) status" for e status
    using that by (auto simp: returns_def set_error_def cleared_def clear_snapshot_output_def)
  show ?thesis
  proof (cases "from_utf8 bytes")
    case (Inl e)
    then show ?thesis using assms
      by (intro failed [of "''path is not valid UTF-8: '' @ e" InvalidArgument]) (simp_all add: open_path_def cleared_def Let_def)
  next
    case path: (Inr path)
    show ?thesis
    proof (cases "path = [] \<or> length path > MAX_PATH_BYTES \<or> \<not> reservable (length path)")
      case True
      then obtain e status where "e \<noteq> []" "status \<noteq> StatusOk"
          "open_path env t bytes format raw_base out s = returns (set_error t e cleared) status"
        by (cases "path = []"; cases "length path > MAX_PATH_BYTES") (auto simp: open_path_def path Let_def cleared_def)
      with failed assms show ?thesis by simp
    next
      case False
      show ?thesis
      proof (cases "open_artifact env format path raw_base")
        case None
        then show ?thesis using assms path False
          by (intro failed [of "''unknown artifact format '' @ dec (unat format)" InvalidArgument]) (simp_all add: open_path_def Let_def cleared_def)
      next
        case (Some res)
        show ?thesis
        proof (cases res)
          case (Inl e)
          then show ?thesis using assms path False Some
            by (intro failed [of "vmi_error_text (fe_flags env) e" ArtifactError]) (simp_all add: open_path_def Let_def cleared_def)
        next
          case (Inr b)
          then have "register_snapshot (fe_spurious env) t out b cleared = (s', r)"
            using assms path False Some by (simp add: open_path_def Let_def cleared_def)
          with register_snapshot_cases [of "fe_spurious env" t out b cleared] path Some Inr show ?thesis
            by (auto simp: cleared_def clear_snapshot_output_def)
        qed
      qed
    qed
  qed
qed


text \<open>The places that a call may write: its outputs, unless they are null.\<close>

fun call_outputs :: "ffi_call \<Rightarrow> (u64 \<times> nat) list" where
  "call_outputs (SnapshotOpen path format base out) = [(out, 8)]"
| "call_outputs (SnapshotRead h address out len) = [(out, len)]"
| "call_outputs (SegmentCount h out) = [(out, 8)]"
| "call_outputs (Segment h index a b) = [(a, 8), (b, 8)]"
| "call_outputs (SnapshotClose h) = []"
| "call_outputs (LastError out len) = [(out, len)]"

definition confined :: "(u64 \<times> nat) list \<Rightarrow> c_memory \<Rightarrow> c_memory \<Rightarrow> bool" where
  "confined outs m m' \<longleftrightarrow> (\<forall>x. (\<forall>(a, n) \<in> set outs. a = 0 \<or> \<not> covers a n x) \<longrightarrow> m' x = m x)"

lemma confined_refl [simp]: "confined outs m m"
  by (simp add: confined_def)

lemma confined_trans: "confined outs m m1 \<Longrightarrow> confined outs m1 m2 \<Longrightarrow> confined outs m m2"
  by (simp add: confined_def)

lemma confined_write: "(a, n) \<in> set outs \<Longrightarrow> a \<noteq> 0 \<or> bs = [] \<Longrightarrow> length bs \<le> n \<Longrightarrow> confined outs m (c_write m a bs)"
  by (force simp: confined_def c_write_def covers_def)

lemma confined_write_u64 [simp]:
  "(a, 8) \<in> set outs \<Longrightarrow> a \<noteq> 0 \<Longrightarrow> confined outs m m1 \<Longrightarrow> confined outs m (write_u64 m1 a v)"
  by (rule confined_trans) (auto simp: write_u64_def intro: confined_write)

lemma validate_snapshot_cases:
  "(\<exists>b. validate_snapshot t h s = (s, Inr b)) \<or>
   (\<exists>e status. e \<noteq> [] \<and> status \<noteq> StatusOk \<and>
      validate_snapshot t h s = (s\<lparr>last_error := (last_error s)(t := e)\<rparr>, Inl status))"
  by (auto simp: validate_snapshot_def set_error_def registry_failed_def split: option.splits)

text \<open>A call that is neither an opening nor a closing changes the caller's memory and the thread's error only.\<close>

definition query_effect :: "nat \<Rightarrow> ffi_call \<Rightarrow> ffi_state \<Rightarrow> ffi_state \<times> vmi_status \<Rightarrow> bool" where
  "query_effect t c s r \<longleftrightarrow> (\<exists>m e. fst r = s\<lparr>c_mem := m, last_error := (last_error s)(t := e)\<rparr> \<and>
     confined (call_outputs c) (c_mem s) m \<and> (snd r = StatusOk \<longleftrightarrow> e = []))"

lemma query_effectI:
  "fst r = s\<lparr>c_mem := m, last_error := (last_error s)(t := e)\<rparr> \<Longrightarrow> confined (call_outputs c) (c_mem s) m \<Longrightarrow>
   (snd r = StatusOk \<longleftrightarrow> e = []) \<Longrightarrow> query_effect t c s r"
  unfolding query_effect_def by blast

lemma query_effect_error:
  "e \<noteq> [] \<Longrightarrow> status \<noteq> StatusOk \<Longrightarrow> confined (call_outputs c) (c_mem s) m \<Longrightarrow>
   query_effect t c s (s\<lparr>c_mem := m, last_error := (last_error s)(t := e)\<rparr>, status)"
  by (rule query_effectI) auto

lemma segment_count_effect: "query_effect t (SegmentCount h out) s (vmi_snapshot_segment_count t h out s)"
proof (cases "out = 0")
  case True
  then show ?thesis
    by (intro query_effectI [where m = "c_mem s" and e = "''snapshot and out_count must not be null''"])
      (simp_all add: vmi_snapshot_segment_count_def guarded_def returns_def set_error_def)
next
  case False
  let ?s = "s\<lparr>c_mem := write_u64 (c_mem s) out 0\<rparr>"
  from validate_snapshot_cases [of t h ?s] show ?thesis
  proof (elim disjE exE conjE)
    fix b
    assume "validate_snapshot t h ?s = (?s, Inr b)"
    with False show ?thesis
      by (intro query_effectI [where m = "write_u64 (write_u64 (c_mem s) out 0) out (of_nat (length (segments b)))" and e = "[]"])
        (simp_all add: vmi_snapshot_segment_count_def guarded_def returns_def set_error_def)
  next
    fix e status
    assume "e \<noteq> []" "status \<noteq> StatusOk"
      "validate_snapshot t h ?s = (?s\<lparr>last_error := (last_error ?s)(t := e)\<rparr>, Inl status)"
    with False show ?thesis
      by (intro query_effectI [where m = "write_u64 (c_mem s) out 0" and e = e])
        (simp_all add: vmi_snapshot_segment_count_def guarded_def returns_def)
  qed
qed

lemma segment_effect: "query_effect t (Segment h index a b) s (vmi_snapshot_segment t h index a b s)"
proof (cases "a = 0 \<or> b = 0 \<or> a = b")
  case True
  then obtain e m where "e \<noteq> []" "confined (call_outputs (Segment h index a b)) (c_mem s) m"
      "vmi_snapshot_segment t h index a b s = (s\<lparr>c_mem := m, last_error := (last_error s)(t := e)\<rparr>, InvalidArgument)"
    by (cases "a = 0 \<or> b = 0")
      (auto simp: vmi_snapshot_segment_def guarded_def returns_def set_error_def intro: that [where m = "c_mem s"] that [where m = "write_u64 (c_mem s) b 0"])
  then show ?thesis by (simp add: query_effect_error)
next
  case False
  let ?m = "write_u64 (write_u64 (c_mem s) a 0) b 0"
  let ?s = "s\<lparr>c_mem := ?m\<rparr>"
  from validate_snapshot_cases [of t h ?s] show ?thesis
  proof (elim disjE exE conjE)
    fix snap
    assume valid: "validate_snapshot t h ?s = (?s, Inr snap)"
    show ?thesis
    proof (cases "get_at (segments snap) index")
      case None
      with valid False show ?thesis
        by (intro query_effectI [where m = ?m and e = "''segment index '' @ dec index @ '' is out of range''"])
          (simp_all add: vmi_snapshot_segment_def guarded_def returns_def set_error_def)
    next
      case (Some seg)
      with valid False show ?thesis
        by (intro query_effectI [where e = "[]" and
              m = "write_u64 (write_u64 ?m a (gpa_raw (range_start (seg_range seg)))) b (range_length (seg_range seg))"])
          (simp_all add: vmi_snapshot_segment_def guarded_def returns_def set_error_def)
    qed
  next
    fix e status
    assume "e \<noteq> []" "status \<noteq> StatusOk"
      "validate_snapshot t h ?s = (?s\<lparr>last_error := (last_error ?s)(t := e)\<rparr>, Inl status)"
    with False show ?thesis
      by (intro query_effectI [where m = ?m and e = e]) (simp_all add: vmi_snapshot_segment_def guarded_def returns_def)
  qed
qed

text \<open>A read keeps the length of its buffer, whatever the bundle.\<close>

lemma splice_window_length:
  "usize_checked_add completed n = Some last_index \<Longrightarrow> usize_checked_add x n = Some y \<Longrightarrow> last_index \<le> length buf \<Longrightarrow>
   length (splice buf completed (take (y - x) rest)) = length buf"
  by (rule length_splice) (auto simp: usize_checked_add_def split: if_splits)

lemma copy_from_segment_length:
  "copy_from_segment failed seg buf completed current = Inr (buf', completed', current') \<Longrightarrow> length buf' = length buf"
  unfolding copy_from_segment_def get_range_def Let_def
  by (clarsimp split: if_split_asm) (simp_all add: splice_window_length)

lemma copy_loop_length: "copy_loop failed segs buf completed current = (buf', r) \<Longrightarrow> length buf' = length buf"
  by (induction failed segs buf completed current rule: copy_loop.induct)
    (auto dest: copy_from_segment_length split: if_splits sum.splits)

lemma bundle_read_length: "length (fst (bundle_read_into b a buf)) = length buf"
  by (auto simp: bundle_read_into_def Let_def dest: copy_loop_length split: prod.split sum.split)


lemma read_effect: "query_effect t (SnapshotRead h a out len) s (vmi_snapshot_read env t h a out len s)"
proof (cases "out = 0 \<and> len \<noteq> 0 \<or> len > isize_max")
  case True
  then obtain e where "e \<noteq> []"
      "vmi_snapshot_read env t h a out len s = (s\<lparr>last_error := (last_error s)(t := e)\<rparr>, InvalidArgument)"
    by (cases "out = 0 \<and> len \<noteq> 0")
      (auto simp: vmi_snapshot_read_def guarded_def returns_def set_error_def
        intro: that [of "''snapshot output length exceeds Rust slice limits''"]
          that [of "''snapshot and non-empty output must not be null''"])
  then show ?thesis by (intro query_effectI [where m = "c_mem s" and e = e]) simp_all
next
  case False
  then have inside: "out \<noteq> 0 \<or> len = 0" "\<not> len > isize_max" by auto
  from validate_snapshot_cases [of t h s] show ?thesis
  proof (elim disjE exE conjE)
    fix b
    assume valid: "validate_snapshot t h s = (s, Inr b)"
    obtain buffer r where read: "bundle_read_into b (Gpa a) (c_read (c_mem s) out len) = (buffer, r)"
      by (cases "bundle_read_into b (Gpa a) (c_read (c_mem s) out len)")
    have "length buffer = len" using bundle_read_length [of b "Gpa a" "c_read (c_mem s) out len"] read by simp
    then have "confined (call_outputs (SnapshotRead h a out len)) (c_mem s) (c_write (c_mem s) out buffer)"
      using inside(1) by (auto intro!: confined_write)
    with False valid read show ?thesis
      by (intro query_effectI [where m = "c_write (c_mem s) out buffer" and
            e = "case r of Inr _ \<Rightarrow> [] | Inl e \<Rightarrow> vmi_error_text (fe_flags env) e"])
        (auto simp: vmi_snapshot_read_def guarded_def returns_def set_error_def split: sum.splits)
  next
    fix e status
    assume "e \<noteq> []" "status \<noteq> StatusOk" "validate_snapshot t h s = (s\<lparr>last_error := (last_error s)(t := e)\<rparr>, Inl status)"
    with False show ?thesis
      by (intro query_effectI [where m = "c_mem s" and e = e]) (auto simp: vmi_snapshot_read_def guarded_def returns_def)
  qed
qed

text \<open>An opening, with the effect of its failure.\<close>

lemma open_cases:
  assumes "vmi_snapshot_open env t path format base out s = Some (s', status)"
  obtains (opened) bytes name b where "c_string (c_mem s) path = Some bytes" "from_utf8 bytes = Inr name"
      "open_artifact env format name base = Some (Inr b)" "status = StatusOk" "path \<noteq> 0" "out \<noteq> 0"
      "next_snapshot s + 1 < usize_bound" "\<not> registry_poisoned s"
      "s' = s\<lparr>live_snapshots := AList.update (next_snapshot s) b (live_snapshots s), next_snapshot := next_snapshot s + 1,
        c_mem := write_u64 (write_u64 (c_mem s) out 0) out (of_nat (next_snapshot s)), last_error := (last_error s)(t := [])\<rparr>"
    | (failed) m e where "e \<noteq> []" "status \<noteq> StatusOk" "confined [(out, 8)] (c_mem s) m"
      "s' = s\<lparr>c_mem := m, last_error := (last_error s)(t := e)\<rparr>"
proof (cases "path = 0 \<or> out = 0")
  case True
  with assms show ?thesis
    by (intro failed [of "''path and out_snapshot must not be null''" "c_mem s"])
      (auto simp: vmi_snapshot_open_def guarded_def returns_def set_error_def)
next
  case False
  with assms obtain bytes where bytes: "c_string (c_mem s) path = Some bytes"
      "guarded t (open_path env t bytes format base out s) = (s', status)"
    by (auto simp: vmi_snapshot_open_def)
  obtain s1 r where run: "open_path env t bytes format base out s = (s1, r)" by (cases "open_path env t bytes format base out s")
  from open_path_cases [OF run] show ?thesis
  proof (elim disjE exE conjE)
    fix name b
    assume "from_utf8 bytes = Inr name" "open_artifact env format name base = Some (Inr b)" "r = Some StatusOk"
      "next_snapshot s + 1 < usize_bound" "\<not> registry_poisoned s"
      "s1 = s\<lparr>live_snapshots := AList.update (next_snapshot s) b (live_snapshots s), next_snapshot := next_snapshot s + 1,
        c_mem := write_u64 (write_u64 (c_mem s) out 0) out (of_nat (next_snapshot s)), last_error := (last_error s)(t := [])\<rparr>"
    with False bytes run show ?thesis by (intro opened [of bytes name b]) (simp_all add: guarded_def)
  next
    fix e st
    assume "e \<noteq> []" "st \<noteq> StatusOk" "r = Some st" "s1 = s\<lparr>c_mem := write_u64 (c_mem s) out 0, last_error := (last_error s)(t := e)\<rparr>"
    with False bytes run show ?thesis by (intro failed [of e "write_u64 (c_mem s) out 0"]) (simp_all add: guarded_def)
  qed
qed

text \<open>Error texts are strings of the implementation, of at most \<open>isize::MAX\<close> bytes.\<close>

definition texts_fit :: "ffi_state \<Rightarrow> bool" where
  "texts_fit s \<longleftrightarrow> (\<forall>t. length (last_error s t) \<le> isize_max)"

lemma vmi_last_error_fit:
  assumes "texts_fit s"
  shows "vmi_last_error t out len s =
    (if out \<noteq> 0 \<and> length (last_error s t) < len then s\<lparr>c_mem := c_write (c_mem s) out (bytes_of (last_error s t) @ [0])\<rparr>
     else s, length (last_error s t) + 1)"
proof -
  have "length (last_error s t) \<le> isize_max" using assms by (simp add: texts_fit_def)
  then have "min (length (last_error s t) + 1) (usize_bound - 1) = length (last_error s t) + 1"
    by (simp add: isize_max_def usize_bound_def)
  then show ?thesis by (simp add: vmi_last_error_def bytes_of_def Suc_le_eq)
qed

lemma last_error_confined:
  "texts_fit s \<Longrightarrow> confined (call_outputs (LastError out len)) (c_mem s) (c_mem (fst (vmi_last_error t out len s)))"
  by (auto simp: vmi_last_error_fit bytes_of_def intro!: confined_write)


section \<open>Calls stay within their outputs\<close>

text \<open>
  C39: The effect of a call on its caller. A call writes only inside the outputs it was given, and nothing through a null
  pointer, also where outputs overlap each other or the path; it sets the error of its own thread only; and a call with
  a status succeeds exactly when it leaves the thread's error empty.
\<close>

theorem ffi_call_effects:
  assumes "ffi_do env t c s = Some (s', r)" "texts_fit s"
  shows "confined (call_outputs c) (c_mem s) (c_mem s') \<and> (\<forall>t'. t' \<noteq> t \<longrightarrow> last_error s' t' = last_error s t') \<and>
    (\<forall>status. r = Some status \<longrightarrow> (status = StatusOk \<longleftrightarrow> last_error s' t = []))"
proof -
  have query: ?thesis if "query_effect t c s q" "s' = fst q" "r = Some (snd q)" for q
    using that by (auto simp: query_effect_def)
  show ?thesis
  proof (cases c)
    case (SnapshotOpen path format base out)
    with assms(1) obtain status where run: "vmi_snapshot_open env t path format base out s = Some (s', status)" "r = Some status"
      by auto
    from run(1) show ?thesis
    proof (cases rule: open_cases)
      case opened
      then show ?thesis using SnapshotOpen run(2) by simp
    next
      case failed
      then show ?thesis using SnapshotOpen run(2) by simp
    qed
  next
    case (SnapshotRead h a out len)
    then show ?thesis using assms(1)
      by (intro query [of "vmi_snapshot_read env t h a out len s"]) (auto simp: read_effect map_prod_def split: prod.splits)
  next
    case (SegmentCount h out)
    then show ?thesis using assms(1)
      by (intro query [of "vmi_snapshot_segment_count t h out s"]) (auto simp: segment_count_effect map_prod_def split: prod.splits)
  next
    case (Segment h index a b)
    then show ?thesis using assms(1)
      by (intro query [of "vmi_snapshot_segment t h index a b s"]) (auto simp: segment_effect map_prod_def split: prod.splits)
  next
    case (SnapshotClose h)
    then show ?thesis using assms(1) by (auto simp: vmi_snapshot_close_def set_error_def registry_failed_def)
  next
    case (LastError out len)
    then have "s' = fst (vmi_last_error t out len s)" "r = None" using assms(1) by (auto simp: map_prod_def split: prod.splits)
    moreover have "last_error (fst (vmi_last_error t out len s)) = last_error s" by (simp add: vmi_last_error_def Let_def)
    ultimately show ?thesis using LastError last_error_confined [OF assms(2)] by simp
  qed
qed

definition plain_env :: "unit ffi_env" where
  "plain_env = \<lparr>fe_flags = plain_flags, fe_json = \<lparr>json_from_str = (\<lambda>_. Inl []), as_object = (\<lambda>_. None),
       object_entries = (\<lambda>_. None), as_array = (\<lambda>_. None), as_u64 = (\<lambda>_. None), as_str_value = (\<lambda>_. None)\<rparr>,
     fe_decoders = toy_decoders,
     fe_files = script_fs [(''m'', script_file 4 [Chunk [1, 2, 3, 4]])], fe_spurious = 1\<rparr>"

theorem ffi_call_effects_witness:
  "\<exists>s' r. ffi_do plain_env 0 (SegmentCount 0 8) (ffi_initial (\<lambda>_. []) (\<lambda>_. 7)) = Some (s', r) \<and>
     c_mem s' 16 = 7 \<and> last_error s' 1 = []"
proof -
  let ?s = "ffi_initial (\<lambda>_. []) (\<lambda>_. 7)"
  obtain s' r where run: "ffi_do plain_env 0 (SegmentCount 0 8) ?s = Some (s', r)" 
    by (metis ffi_do.simps(3) surj_pair)
  have "texts_fit ?s" by (simp add: texts_fit_def ffi_initial_def)
  from ffi_call_effects [OF run this] have "last_error s' 1 = last_error ?s 1" "c_mem s' 16 = c_mem ?s 16"
    by (simp_all add: confined_def covers_def)
  then show ?thesis using run by (auto simp: ffi_initial_def)
qed

section \<open>The error of a thread\<close>

text \<open>
  C40: Reporting an error. The required size is that of the text and a NUL. A buffer of at least this size receives the
  text of the calling thread as a C string, and every other buffer is left as it is; the text itself is kept.
\<close>

theorem vmi_last_error_exact:
  assumes "texts_fit s" "0 \<notin> set (bytes_of (last_error s t))" "vmi_last_error t out len s = (s', required)"
  shows "required = length (last_error s t) + 1 \<and> last_error s' = last_error s \<and>
    (if out \<noteq> 0 \<and> required \<le> len then c_string (c_mem s') out = Some (bytes_of (last_error s t)) else s' = s)"
proof (cases "out \<noteq> 0 \<and> length (last_error s t) < len")
  case True
  let ?text = "bytes_of (last_error s t)"
  have len: "length ?text = length (last_error s t)" by (simp add: bytes_of_def)
  then have "length ?text < 2 ^ 64" using assms(1) by (auto simp: texts_fit_def isize_max_def intro: le_less_trans)
  then have "c_read (c_write (c_mem s) out (?text @ [0])) out (length ?text) = ?text"
      "c_write (c_mem s) out (?text @ [0]) (out + of_nat (length ?text)) = 0"
    by (auto simp: c_read_def c_write_def covers_def unat_of_nat nth_append intro!: nth_equalityI)
  then have "c_string (c_write (c_mem s) out (?text @ [0])) out = Some ?text" using assms(2) by (intro c_string_bytes)
  with True assms show ?thesis by (auto simp: vmi_last_error_fit)
next
  case False
  with assms show ?thesis by (auto simp: vmi_last_error_fit)
qed

theorem vmi_last_error_exact_witness:
  "c_string (c_mem (fst (vmi_last_error 0 64 3 (ffi_initial (\<lambda>_. ''no'') (\<lambda>_. 7))))) 64 = Some (bytes_of ''no'')"
proof -
  let ?s = "ffi_initial (\<lambda>_. ''no'') (\<lambda>_. 7)"
  obtain s' n where run: "vmi_last_error 0 64 3 ?s = (s', n)" by (cases "vmi_last_error 0 64 3 ?s")
  have "texts_fit ?s" "0 \<notin> set (bytes_of (last_error ?s 0))"
    by (simp_all add: texts_fit_def ffi_initial_def isize_max_def bytes_of_def)
  from vmi_last_error_exact [OF this run] show ?thesis using run by (simp add: ffi_initial_def)
qed


section \<open>Handles\<close>

lemma open_artifact_ok: "open_artifact env format path base = Some (Inr b) \<Longrightarrow> bundle_ok b"
proof -
  have "lime_file fs p = Inr b \<Longrightarrow> bundle_ok b" for fs p
    by (auto simp: lime_file_def lime_file_with_limit_def dest: from_lime_well_formed)
  then show "open_artifact env format path base = Some (Inr b) \<Longrightarrow> bundle_ok b"
    using artifact_files_ok by (auto simp: open_artifact_def split: if_splits)
qed

text \<open>The registry: tokens are positive and below the counter, and the bundles are well-formed.\<close>

definition ffi_ok :: "ffi_state \<Rightarrow> bool" where
  "ffi_ok s \<longleftrightarrow> \<not> registry_poisoned s \<and> 1 \<le> next_snapshot s \<and> next_snapshot s < usize_bound \<and>
     (\<forall>k b. map_of (live_snapshots s) k = Some b \<longrightarrow> 1 \<le> k \<and> k < next_snapshot s \<and> bundle_ok b)"

lemma ffi_ok_initial: "ffi_ok (ffi_initial errors m)"
  by (simp add: ffi_ok_def ffi_initial_def usize_bound_def)

text \<open>A call keeps the invariant, and changes a handle that was given out before only by closing it.\<close>

definition registry_step :: "ffi_call \<Rightarrow> ffi_state \<Rightarrow> ffi_state \<Rightarrow> bool" where
  "registry_step c s s' \<longleftrightarrow> ffi_ok s' \<and> next_snapshot s \<le> next_snapshot s' \<and>
     (\<forall>k. k < next_snapshot s \<longrightarrow> k \<noteq> 0 \<longrightarrow> map_of (live_snapshots s') k =
        (if \<exists>h. c = SnapshotClose h \<and> unat h = k then None else map_of (live_snapshots s) k))"

lemma registry_step_same:
  "ffi_ok s \<Longrightarrow> live_snapshots s' = live_snapshots s \<Longrightarrow> next_snapshot s' = next_snapshot s \<Longrightarrow>
   registry_poisoned s' = registry_poisoned s \<Longrightarrow> \<forall>h. c \<noteq> SnapshotClose h \<Longrightarrow> registry_step c s s'"
  by (simp add: registry_step_def ffi_ok_def)

lemma query_registry:
  "ffi_ok s \<Longrightarrow> query_effect t c s q \<Longrightarrow> \<forall>h. c \<noteq> SnapshotClose h \<Longrightarrow> registry_step c s (fst q)"
  by (auto simp: query_effect_def intro: registry_step_same)

lemma open_registry:
  assumes "ffi_ok s" "vmi_snapshot_open env t path format base out s = Some (s', status)"
  shows "registry_step (SnapshotOpen path format base out) s s'"
  using assms(2)
proof (cases rule: open_cases)
  case (opened bytes name b)
  with open_artifact_ok [OF opened(3)] assms(1) show ?thesis
    by (auto simp: registry_step_def ffi_ok_def update_conv' less_Suc_eq)
next
  case (failed m e)
  with assms(1) show ?thesis by (intro registry_step_same) simp_all
qed

lemma close_registry: "ffi_ok s \<Longrightarrow> registry_step (SnapshotClose h) s (vmi_snapshot_close t h s)"
  by (auto simp: registry_step_def ffi_ok_def vmi_snapshot_close_def set_error_def delete_conv' split: if_splits)

lemma ffi_do_registry:
  assumes "ffi_ok s" "ffi_do env t c s = Some (s', r)"
  shows "registry_step c s s'"
proof (cases c)
  case (SnapshotOpen path format base out)
  then show ?thesis using assms open_registry by auto
next
  case (SnapshotRead h a out len)
  then show ?thesis using assms query_registry [OF assms(1) read_effect [of t h a out len s env]]
    by (auto simp: map_prod_def split: prod.splits)
next
  case (SegmentCount h out)
  then show ?thesis using assms query_registry [OF assms(1) segment_count_effect [of t h out s]]
    by (auto simp: map_prod_def split: prod.splits)
next
  case (Segment h index a b)
  then show ?thesis using assms query_registry [OF assms(1) segment_effect [of t h index a b s]]
    by (auto simp: map_prod_def split: prod.splits)
next
  case (SnapshotClose h)
  then show ?thesis using assms close_registry by auto
next
  case (LastError out len)
  then show ?thesis using assms
    by (auto simp: vmi_last_error_def Let_def map_prod_def intro!: registry_step_same split: if_splits)
qed

lemma ffi_ok_memory: "ffi_ok (s\<lparr>c_mem := m\<rparr>) \<longleftrightarrow> ffi_ok s"
  by (simp add: ffi_ok_def)

lemma ffi_run_registry:
  assumes "ffi_run env s cs s'" "ffi_ok s"
  shows "ffi_ok s' \<and> next_snapshot s \<le> next_snapshot s' \<and>
    (\<forall>k. k < next_snapshot s \<longrightarrow> k \<noteq> 0 \<longrightarrow> map_of (live_snapshots s') k =
       (if \<exists>h. SnapshotClose h \<in> set cs \<and> unat h = k then None else map_of (live_snapshots s) k))"
  using assms
proof (induction rule: ffi_run.induct)
  case (writes s cs s1 m)
  have same: "live_snapshots (s1\<lparr>c_mem := m\<rparr>) = live_snapshots s1" "next_snapshot (s1\<lparr>c_mem := m\<rparr>) = next_snapshot s1" by simp_all
  from writes.IH [OF writes.prems] show ?case unfolding ffi_ok_memory same .
next
  case (calls s cs s1 fs n t c s2 r)
  from calls.IH [OF calls.prems] have IH: "ffi_ok s1" "next_snapshot s \<le> next_snapshot s1" by blast+
  have step: "registry_step c s1 s2" using ffi_do_registry [OF IH(1) calls.hyps(2)] .
  have "map_of (live_snapshots s2) k =
      (if \<exists>h. SnapshotClose h \<in> set (cs @ [c]) \<and> unat h = k then None else map_of (live_snapshots s) k)"
    if "k < next_snapshot s" "k \<noteq> 0" for k
  proof -
    have "map_of (live_snapshots s2) k =
        (if \<exists>h. c = SnapshotClose h \<and> unat h = k then None else map_of (live_snapshots s1) k)"
      using step that IH(2) unfolding registry_step_def by (meson less_le_trans)
    moreover have "map_of (live_snapshots s1) k =
        (if \<exists>h. SnapshotClose h \<in> set cs \<and> unat h = k then None else map_of (live_snapshots s) k)"
      using calls.IH [OF calls.prems] that by blast
    ultimately show ?thesis by (cases "\<exists>h. c = SnapshotClose h \<and> unat h = k") auto
  qed
  with step IH(2) show ?case by (auto simp: registry_step_def)
qed simp


lemma read_dead:
  "map_of (live_snapshots s) (unat h) = None \<Longrightarrow> \<not> registry_poisoned s \<Longrightarrow>
   snd (vmi_snapshot_read env t h a out len s) = InvalidArgument"
  by (auto simp: vmi_snapshot_read_def validate_snapshot_def guarded_def returns_def)

lemma read_live:
  assumes "map_of (live_snapshots s) (unat h) = Some b" "h \<noteq> 0" "ffi_ok s" "out \<noteq> 0" "len \<le> isize_max"
    "vmi_snapshot_read env t h a out len s = (s', status)"
  shows "if \<forall>i < len. bundle_byte b (unat a + i) \<noteq> None
    then status = StatusOk \<and> (\<forall>i < len. bundle_byte b (unat a + i) = Some (c_mem s' (out + of_nat i)))
    else status = ReadError"
proof -
  let ?old = "c_read (c_mem s) out len"
  have valid: "validate_snapshot t h s = (s, Inr b)" using assms(1-3) by (simp add: validate_snapshot_def ffi_ok_def)
  have ok: "bundle_ok b" "length ?old < usize_bound"
    using assms(1,3,5) by (auto simp: ffi_ok_def isize_max_def usize_bound_def)
  from bundle_read_cases [OF ok, of "Gpa a"] show ?thesis
  proof (elim disjE exE conjE)
    fix buffer
    assume read: "bundle_read_into b (Gpa a) ?old = (buffer, Inr ())" "length buffer = length ?old"
      "\<forall>i < length ?old. bundle_byte b (unat (gpa_raw (Gpa a)) + i) = Some (buffer ! i)"
    then have result: "status = StatusOk" "c_mem s' = c_write (c_mem s) out buffer"
      using assms(4-6) valid by (auto simp: vmi_snapshot_read_def guarded_def returns_def set_error_def)
    have len: "length buffer = len" using read(2) by simp
    have "c_mem s' (out + of_nat i) = buffer ! i" if "i < len" for i
    proof -
      have "i < 2 ^ 64" using that assms(5) by (simp add: isize_max_def)
      then show ?thesis using that len by (simp add: result(2) c_write_def covers_def unat_of_nat)
    qed
    with read(3) result(1) show ?thesis by simp
  next
    fix i
    assume read: "bundle_read_into b (Gpa a) ?old = (?old, Inl (ReadFailed (gpa_raw (Gpa a)) (length ?old)))"
      and i: "i < length ?old" "bundle_byte b (unat (gpa_raw (Gpa a)) + i) = None"
    have "status = ReadError"
      using read assms(4-6) valid by (auto simp: vmi_snapshot_read_def guarded_def returns_def set_error_def)
    with i show ?thesis by auto
  qed
qed

text \<open>
  C38: Handles never alias. For calls of any threads in any order, an opening that succeeds gives a handle that is not null
  and was not live, for the artifact that the path names. From then on, after any further calls, a read through the handle
  delivers exactly the bytes of that artifact, or reports that a byte is missing, until the handle is closed; after that
  every read through it is refused, whatever is opened later.
\<close>

theorem ffi_handle_reads:
  assumes "ffi_run env (ffi_initial errors m0) cs s"
    "vmi_snapshot_open (env\<lparr>fe_files := fs, fe_spurious := n\<rparr>) t path format base out s = Some (s1, StatusOk)"
    "h = read_u64 (c_mem s1) out" "ffi_run env s1 ds s2" "buf \<noteq> 0" "len \<le> isize_max"
    "vmi_snapshot_read env t' h a buf len s2 = (s3, status)"
  shows "h \<noteq> 0 \<and> snd (validate_snapshot t h s) = Inl InvalidArgument \<and>
    (\<exists>bytes name b. c_string (c_mem s) path = Some bytes \<and> from_utf8 bytes = Inr name \<and>
      open_artifact (env\<lparr>fe_files := fs, fe_spurious := n\<rparr>) format name base = Some (Inr b) \<and>
      (if SnapshotClose h \<in> set ds then status = InvalidArgument
       else if \<forall>i < len. bundle_byte b (unat a + i) \<noteq> None
       then status = StatusOk \<and> (\<forall>i < len. bundle_byte b (unat a + i) = Some (c_mem s3 (buf + of_nat i)))
       else status = ReadError))"
proof -
  define k where "k = next_snapshot s"
  have ok: "ffi_ok s" using ffi_run_registry [OF assms(1) ffi_ok_initial] by blast
  then have k: "k \<noteq> 0" "k < 2 ^ 64" "map_of (live_snapshots s) k = None"
    by (auto simp: k_def ffi_ok_def usize_bound_def) (metis not_None_eq less_irrefl)
  from assms(2) obtain bytes name b where opened: "c_string (c_mem s) path = Some bytes" "from_utf8 bytes = Inr name"
      "open_artifact (env\<lparr>fe_files := fs, fe_spurious := n\<rparr>) format name base = Some (Inr b)"
      "s1 = s\<lparr>live_snapshots := AList.update k b (live_snapshots s), next_snapshot := k + 1,
        c_mem := write_u64 (write_u64 (c_mem s) out 0) out (of_nat k), last_error := (last_error s)(t := [])\<rparr>"
    by (cases rule: open_cases) (auto simp: k_def)
  have h: "h = of_nat k" using assms(3) opened(4) by simp
  then have unat_h: "unat h = k" using k(2) by (simp add: unat_of_nat)
  then have "h \<noteq> 0" using k(1) by auto
  have "ffi_ok s1" using open_registry [OF ok assms(2)] by (simp add: registry_step_def)
  from ffi_run_registry [OF assms(4) this] opened(4) k(1)
  have run: "ffi_ok s2" "map_of (live_snapshots s2) k =
      (if \<exists>g. SnapshotClose g \<in> set ds \<and> unat g = k then None else Some b)"
    by (auto simp: update_conv')
  have "(\<exists>g. SnapshotClose g \<in> set ds \<and> unat g = k) \<longleftrightarrow> SnapshotClose h \<in> set ds"
    using unat_h by (metis word_unat_eq_iff)
  with run(2) have live: "map_of (live_snapshots s2) (unat h) = (if SnapshotClose h \<in> set ds then None else Some b)"
    using unat_h by simp
  have "if SnapshotClose h \<in> set ds then status = InvalidArgument
      else if \<forall>i < len. bundle_byte b (unat a + i) \<noteq> None
      then status = StatusOk \<and> (\<forall>i < len. bundle_byte b (unat a + i) = Some (c_mem s3 (buf + of_nat i)))
      else status = ReadError"
  proof (cases "SnapshotClose h \<in> set ds")
    case True
    then show ?thesis using read_dead [of s2 h env t' a buf len] live run(1) assms(7) by (simp add: ffi_ok_def)
  next
    case False
    then show ?thesis using read_live [OF _ \<open>h \<noteq> 0\<close> run(1) assms(5,6,7)] live by simp
  qed
  moreover have "snd (validate_snapshot t h s) = Inl InvalidArgument"
    using ok k(3) unat_h by (simp add: validate_snapshot_def ffi_ok_def)
  ultimately show ?thesis using opened(1-3) \<open>h \<noteq> 0\<close> by blast
qed


definition path_memory :: c_memory where
  "path_memory = (\<lambda>x. if x = 64 then 109 else 0)"

lemma plain_artifact:
  "open_artifact plain_env 0 ''m'' 0x1000 = Some (Inr (from_raw ''m'' (Gpa 0x1000) [1, 2, 3, 4]))"
proof -
  have cap: "reservable (unat DEFAULT_MAX_ARTIFACT_SIZE)" "(4 :: u64) \<le> DEFAULT_MAX_ARTIFACT_SIZE" "DEFAULT_MAX_ARTIFACT_SIZE \<noteq> 0"
    by (simp_all add: DEFAULT_MAX_ARTIFACT_SIZE_def reservable_def isize_max_def)
  have "capture_loop texts DEFAULT_MAX_ARTIFACT_SIZE [] [Chunk [1, 2, 3, 4]] = Inr [1, 2, 3, 4]" for texts
    by (subst capture_loop_iff [OF cap(1)]) (simp add: DEFAULT_MAX_ARTIFACT_SIZE_def)
  then have "read_file_limited (fe_files plain_env) ''m'' DEFAULT_MAX_ARTIFACT_SIZE ''raw artifact'' = Inr [1, 2, 3, 4]"
    using cap by (simp add: read_file_limited_def plain_env_def script_fs_def script_file_def usize_of_u64_def usize_bound_def
        reservable_def isize_max_def not_less)
  then show ?thesis
    by (simp add: open_artifact_def raw_file_def raw_file_with_limit_def try_from_raw_def u64_of_usize_def u64_limit_def sat_add_u128_def
        u128_max_def)
qed

theorem ffi_handle_reads_witness:
  "\<exists>s1 s3. vmi_snapshot_open plain_env 0 64 0 0x1000 128 (ffi_initial (\<lambda>_. []) path_memory) = Some (s1, StatusOk) \<and>
     vmi_snapshot_read plain_env 1 (read_u64 (c_mem s1) 128) 0x1001 256 2 s1 = (s3, StatusOk) \<and>
     c_mem s3 256 = 2 \<and> c_mem s3 257 = 3"
proof -
  let ?s = "ffi_initial (\<lambda>_. []) path_memory"
  let ?b = "from_raw ''m'' (Gpa 0x1000) [1, 2, 3, 4]"
  have path: "c_string (c_mem ?s) 64 = Some [109]"
    by (rule c_string_bytes) (simp_all add: ffi_initial_def path_memory_def c_read_def)
  have name: "from_utf8 [109] = Inr ''m''" by (simp add: from_utf8_def utf8_width_def string_of_def) code_simp
  obtain s1 where s1: "vmi_snapshot_open plain_env 0 64 0 0x1000 128 ?s = Some (s1, StatusOk)"
    using path name plain_artifact
    by (simp add: vmi_snapshot_open_def open_path_def guarded_def register_snapshot_def returns_def next_snapshot_token_value
        usize_checked_add_def usize_bound_def reservable_def isize_max_def MAX_PATH_BYTES_def clear_snapshot_output_def ffi_initial_def)
  have env: "plain_env\<lparr>fe_files := fe_files plain_env, fe_spurious := fe_spurious plain_env\<rparr> = plain_env" by simp
  have s1': "vmi_snapshot_open (plain_env\<lparr>fe_files := fe_files plain_env, fe_spurious := fe_spurious plain_env\<rparr>) 0 64 0 0x1000 128 ?s =
      Some (s1, StatusOk)"
    unfolding env by (rule s1)
  obtain s3 status where read: "vmi_snapshot_read plain_env 1 (read_u64 (c_mem s1) 128) 0x1001 256 2 s1 = (s3, status)"
    by (cases "vmi_snapshot_read plain_env 1 (read_u64 (c_mem s1) 128) 0x1001 256 2 s1")
  have bytes: "bundle_byte ?b 0x1001 = Some 2" "bundle_byte ?b 0x1002 = Some 3"
    by (simp_all add: from_raw_def bundle_byte_def segment_new_def seg_start_def seg_end_def range_new_def u64_of_usize_def
        sat_add_u128_def u128_max_def)
  have two: "(\<forall>i < 2. P i) \<longleftrightarrow> P 0 \<and> P 1" for P :: "nat \<Rightarrow> bool" by (auto simp: less_2_cases_iff)
  have "\<forall>i < 2. bundle_byte ?b (unat (0x1001 :: u64) + i) \<noteq> None" unfolding two using bytes by simp
  with ffi_handle_reads [OF ffi_run.start s1' refl ffi_run.start _ _ read] path name plain_artifact
  have "status = StatusOk \<and> (\<forall>i < 2. bundle_byte ?b (unat (0x1001 :: u64) + i) = Some (c_mem s3 (256 + of_nat i)))"
    by (simp add: isize_max_def env)
  then have "status = StatusOk" "c_mem s3 256 = 2" "c_mem s3 257 = 3"
    unfolding two using bytes by simp_all
  then show ?thesis using s1 read by auto
qed

end
