(* ===== verification/Spec2Isabelle.thy ===== *)
theory Spec2Isabelle
  imports Fake_Provider Events Views Os_Linux Os_Windows Driver_Libvirt Driver_Virtualbox Driver_Xen Driver_Qemu Ffi
begin

text \<open>
  Verification of the libvmi-rust workspace: virtual machine introspection in Rust. The program attaches to a
  guest (a saved memory image, a crash dump, or a machine under libvirt, VirtualBox, Xen or QEMU), reads its physical memory, walks the
  guest's page tables, and decodes the kernel's own lists of processes, modules, files and handles.

  \<^bold>\<open>The parts and how they interact.\<close> An artifact on disk is parsed into a \<open>SnapshotBundle\<close>
  (crates/vmi-artifact); a connector (crates/vmi-driver-*) offers it as a provider; \<open>VmiSession::attach\<close>
  (crates/vmi-core) checks the requested capabilities and yields a session; a virtual read translates each page with an
  \<open>AddressTranslator\<close> (crates/vmi-arch-*), through a bounded translation cache, and copies from the provider's
  physical memory; an introspector (crates/vmi-os-*) decodes kernel structures with offsets from a profile
  (crates/vmi-profile). Events (crates/vmi-events) and memory views (crates/vmi-views) are shared state of live
  providers.

  \<^bold>\<open>Theories, and what they model.\<close>
  \<^item> \<open>Vmi_Prelude\<close>: machine integers, checked arithmetic, results, byte decoding, generic lemmas.
  \<^item> \<open>Vmi_Types\<close>: crates/vmi-types (addresses, capabilities, errors, scalars, descriptors).
  \<^item> \<open>Driver_Api\<close>: crates/vmi-driver-api; traits are records of operations over the implementation's
    state, a missing facet is \<open>None\<close>. Locale \<open>byte_memory\<close>: a memory that reads exactly its bytes.
  \<^item> \<open>Arch_Api\<close>, \<open>Arch_Amd64\<close>, \<open>Arch_Aarch64\<close>: the translators, equal to inductive
    paging relations. Locale \<open>page_translator\<close>: translation is uniform within a page.
  \<^item> \<open>Vmi_Core\<close>: crates/vmi-core (registry, sessions, translation cache, virtual transfers). Locales
    \<open>lossy_cache\<close> (a cache may forget but not lie) and \<open>cached_session\<close> (virtual reads over coherent sessions).
  \<^item> \<open>Artifact\<close>, \<open>Artifact_Parse\<close>, \<open>Artifact_Io\<close>: crates/vmi-artifact (bundles and
    physical reads; the ELF, KDMP, LiME and raw parsers; bounded file reads, compressed dumps, JSON manifests;
    that the file system resolves paths to canonical ones is a named hypothesis).
  \<^item> \<open>Std_Io\<close>, \<open>Std_Text\<close>: what the sources use of the standard library: readers, paths, the file
    system, UTF-8, decimal and hexadecimal text.
  \<^item> \<open>Events\<close>: crates/vmi-events, a step relation over pushes, closes, calls and wake-ups, with the condition
    variable's sleeping and notified consumers as part of the state; locale \<open>fifo_channel\<close>.
  \<^item> \<open>Views\<close>: crates/vmi-views, the identifier bitmap and the manager; locale \<open>view_registry\<close>.
  \<^item> \<open>Driver_Snapshot\<close>: crates/vmi-driver-dump and crates/vmi-driver-snapshot; locale \<open>attach_provider\<close>.
  \<^item> \<open>Publish\<close>, \<open>Fake_Provider\<close>: crates/vmi-testkit, with the atomic publication of acquired files over
    a disk whose calls may fail.
  \<^item> \<open>Profile\<close>: crates/vmi-profile (symbol tables from System.map, JSON and PDB).
  \<^item> \<open>Guest\<close>: what the introspectors share: reads that thread the session, whose cache they change, and loops
    with a cycle detector (\<open>walk\<close>). Locale \<open>guest_memory\<close>: over a coherent session such a loop succeeds
    exactly when the guest holds the list it follows.
  \<^item> \<open>Os_Linux\<close>, \<open>Os_Windows\<close>: crates/vmi-os-linux and crates/vmi-os-windows, every introspector operation.
  \<^item> \<open>Std_Format\<close>: numbers and lines that are printed are parsed back.
  \<^item> \<open>Driver_Command\<close>: commands run with bounded output and a deadline, the reader threads as interleaved
    steps with the retries of their shared counter; ranges of a dumped core. Locale \<open>core_reader\<close>: what the drivers rely on in an artifact reader.
  \<^item> \<open>Driver_Libvirt\<close>: crates/vmi-driver-libvirt (virsh: control, acquisition of cores and ranges).
  \<^item> \<open>Driver_Core_Dump\<close>, \<open>Driver_Virtualbox\<close>: crates/vmi-driver-virtualbox (VBoxManage: registers,
    live memory, control, acquisition); the first theory holds what the crate shares with crates/vmi-driver-xen.
  \<^item> \<open>Driver_Xen\<close>: crates/vmi-driver-xen (xl, xenctx, foreign pages mapped for reading or writing,
    the capabilities that a sequence of builder calls advertises).
  \<^item> \<open>Driver_Gdb\<close>, \<open>Driver_Qemu\<close>: crates/vmi-driver-qemu (the GDB remote protocol; QMP messages, requests
    and events, the monitor's output, the session). A socket is the script of what its reads and writes meet, so every way
    to cut a stream into pieces is a case of the theorems; the JSON library is a parameter.
  \<^item> \<open>Ffi\<close>: crates/vmi-ffi (the C interface over a byte store: pointers, handles, thread-local errors).
  \<^item> this theory: the composition, from a file on disk to a virtual read.

  \<^bold>\<open>What the lemmas show.\<close>
  \<^item> Translation: both architectures' walks compute the paging relation, with bounds on the result and the
    errors that can occur; the cache is transparent, virtual reads return exactly the mapped bytes, writes leave no
    stale translation.
  \<^item> Artifacts: what each parser accepts is well-formed, reads are exact, and encoded ranges parse back.
  \<^item> Shared state: events are delivered exactly once and in order and no wake-up is lost; view identifiers are allocated and listed exactly.
  \<^item> Providers: attaching, capability gating, atomic publication, and a read from a file on disk to virtual memory.
  \<^item> Introspection: symbol look-up, process lists, paths and handle tables are exact.
  \<^item> Live drivers: the capture of command output is complete or an error for every interleaving of its threads;
    acquired ranges are the bytes of the dumped core; register tables parse back; writes through foreign pages change exactly their bytes; QMP
    requests get their own replies and GDB commands accept exactly well-framed packets; the Xen
    connector advertises exactly what its transports provide.
  \<^item> The C interface: handles never alias, calls write only inside their outputs, errors are reported exactly.

  \<^bold>\<open>Modelling choices.\<close> \<open>u8\<close> to \<open>u64\<close> are words and wrap unless the source checks;
  \<open>usize\<close> is a natural number below \<open>2 ^ 64\<close>, with the checked operations written out. Errors are the
  values of \<open>vmi_error\<close>; each \<open>?\<close> and early return is a branch. \<open>try_reserve\<close> fails exactly above
  \<open>isize::MAX\<close> bytes (\<open>reservable\<close>). A mutex is a poison flag where an operation holds it throughout;
  threads that interleave are step relations. A reader is a finite script of the results of its calls, interruptions included.
  A disk is an association list, and its calls may fail by a parameter. Third-party code (bitflags, the JSON and
  PDB parsers, the decompressors) is a parameter.

  \<^bold>\<open>Bounds and fuel.\<close> Page walks recurse on the level; transfer and parse loops on what remains of
  their input; \<open>walk\<close> on the room left below the limit the code itself enforces, so that no fuel is added and each is
  total. The polling loops take the finite list of what they observe and return \<open>None\<close> when it ends first.

  \<^bold>\<open>Not modelled.\<close> Display texts of errors beyond the messages the code builds; the start and kill of
  child processes; crates/vmi (re-exports only); crates/vmi-cli (argument parsing and printing of the operations above);
  the sockets and the clock of crates/vmi-driver-qemu;
  tests, benches, examples, fuzz targets and documents.
\<close>

section \<open>From an artifact on disk to virtual memory\<close>

text \<open>A session that was just attached to a snapshot is coherent with the bundle it reads.\<close>

lemma attached_snapshot_coherent:
  assumes "vmi_attach (snapshot.as_connector fl c) rq = Inr s"
  shows "cache_coherent T s (bundle_read_into (bs_bundle c))"
proof -
  obtain ops st where con: "snapshot_connect fl c rq = Inr (ops, st)"
    and s: "s = \<lparr>session_ops = ops, session_state = st,
        translation_store = \<lparr>capacity = 4096, entries = [], order = []\<rparr>, cache_lock_poisoned = False\<rparr>"
    using assms by (auto simp: snapshot.attach_Inr)
  have "ops = snapshot_session_ops" "st = c"
    using con by (auto simp: snapshot_connect_def Let_def split: if_splits target_selector.splits)
  then have "vmi_memory s = Inr (bundle_read_into (bs_bundle c))"
    by (simp add: s vmi_memory_def session_memory_def facet_or_missing_def snapshot_session_ops_def
        snapshot_read_into_def)
  then show ?thesis
    by (simp add: cache_coherent_def) (simp add: s cache_ok_def cache_get_def)
qed

text \<open>
  C23: Introspection of a saved machine, end to end. When a VMware memory image has been opened, attached
  to and read through any of the translators, a virtual read returns exactly the bytes that the image holds
  at the translated addresses: it succeeds with \<open>bs\<close> if and only if every address of the request is
  mapped by the page tables inside the image to a byte of the image, and these bytes are \<open>bs\<close>.
\<close>

theorem opened_artifact_virtual_read:
  assumes "open_vmware_vmem fl fs architecture path base = Inr c"
    "vmi_attach (snapshot.as_connector fl c) rq = Inr s" "t \<in> builtin_translators" "reservable len"
  shows "\<exists>data. read_file_limited fs path DEFAULT_MAX_ARTIFACT_SIZE ''raw artifact'' = Inr data \<and>
    (snd (read_virtual s t root (Gva va) len) = Inr bs \<longleftrightarrow>
      length bs = len \<and> (\<forall>i < len. \<exists>x. unat va + i < 2 ^ 64 \<and>
        translate t (bundle_read_into (bs_bundle c)) root (Gva (of_nat (unat va + i))) = Inr x \<and>
        gpa_raw base \<le> gpa_raw (physical_address x) \<and>
        get_at data (unat (gpa_raw (physical_address x)) - unat (gpa_raw base)) = Some (bs ! i)))"
proof -
  obtain data b where data: "read_file_limited fs path DEFAULT_MAX_ARTIFACT_SIZE ''raw artifact'' = Inr data"
    and b: "try_from_raw path base data = Inr b" "bs_bundle c = b"
    using assms(1) snapshot_connector_new_fields
    by (fastforce simp: open_vmware_vmem_def raw_file_def raw_file_with_limit_def)
  have ok: "bundle_ok b" by (rule from_raw_ok [OF b(1)])
  have co: "cache_coherent builtin_translators s (bundle_read_into b)"
    using attached_snapshot_coherent [OF assms(2)] by (simp add: b(2))
  obtain s' r where loop: "read_virtual_loop (bundle_read_into b) t root va len s (replicate len 0) 0 = (s', r)"
    by fastforce
  have "snd (read_virtual s t root (Gva va) len) = r"
    using co assms(4) loop by (simp add: cache_coherent_def read_virtual_def)
  moreover have "r = Inr bs \<longleftrightarrow> length bs = len \<and>
      (\<forall>i < len. virtual_byte (bundle_read_into b) (bundle_byte b) t root (unat va + i) = Some (bs ! i))"
    using builtin.read_loop_correct [OF co assms(3) snap.memory_reads_bytes [OF ok] _ _ _ loop]
      reservable_less [OF assms(4)] by simp
  moreover have "virtual_byte (bundle_read_into b) (bundle_byte b) t root n = Some v \<longleftrightarrow>
      (\<exists>x. n < 2 ^ 64 \<and> translate t (bundle_read_into b) root (Gva (of_nat n)) = Inr x \<and>
        gpa_raw base \<le> gpa_raw (physical_address x) \<and>
        get_at data (unat (gpa_raw (physical_address x)) - unat (gpa_raw base)) = Some v)" for n v
    using raw_bundle_byte [OF b(1)] by (auto simp: virtual_byte_def split: sum.splits)
  ultimately show ?thesis
    using data by (simp add: b(2))
qed

theorem opened_artifact_virtual_read_witness:
  "\<exists>s. vmi_attach (snapshot.as_connector plain_flags (vmem_connector 0 [3, 0, 0, 0, 0, 0, 0, 0, 7, 9]))
      (attach_any (CapabilitySet 1)) = Inr s \<and>
     snd (read_virtual s (aarch64_as_translator \<lparr>granule = KiB4, address_bits = 13\<rparr>) (TranslationRoot 0) (Gva 8) 2) =
       Inr [7, 9]"
proof -
  let ?data = "[3, 0, 0, 0, 0, 0, 0, 0, 7, 9] :: u8 list"
  let ?c = "vmem_connector 0 ?data"
  let ?t = "aarch64_as_translator \<lparr>granule = KiB4, address_bits = 13\<rparr>"
  let ?b = "from_raw ''m.vmem'' (Gpa 0) ?data"
  have opens: "open_vmware_vmem plain_flags (vmem_fs ?data) Amd64 ''m.vmem'' (Gpa 0) = Inr ?c"
    and content: "read_file_limited (vmem_fs ?data) ''m.vmem'' DEFAULT_MAX_ARTIFACT_SIZE ''raw artifact'' = Inr ?data"
    using vmem_opens [of ?data 0] by simp_all
  have "\<exists>s. vmi_attach (snapshot.as_connector plain_flags ?c) (attach_any (CapabilitySet 1)) = Inr s"
    by (rule snapshot.attach_any_succeeds)
      (simp_all add: vmem_connector_def provider_descriptor_new_def from_caps_def insert_capability_def
        plain_flags_def difference_of_def)
  then obtain s where s: "vmi_attach (snapshot.as_connector plain_flags ?c) (attach_any (CapabilitySet 1)) = Inr s"
    by blast
  have t: "?t \<in> builtin_translators"
    unfolding builtin_translators_def
    by (intro UnI2 CollectI exI [of _ "\<lparr>granule = KiB4, address_bits = 13\<rparr>"] exI [of _ KiB4] exI [of _ 13])
      (simp add: aarch64_new_iff)
  have raw: "try_from_raw ''m.vmem'' (Gpa 0) ?data = Inr ?b"
    by (simp add: try_from_raw_def u64_of_usize_def sat_add_u128_def u128_max_def u64_limit_eq)
  have byte: "bundle_byte ?b n = get_at ?data n" if "n < 10" for n
    using raw_bundle_byte [OF raw, of "of_nat n"] that
    by (cases "get_at ?data n") (auto simp: unat_of_nat take_bit_nat_eq_self get_at_def)
  have entry: "read_scalar (bundle_read_into ?b) (Gpa 0) LittleEndian = Inr (3 :: u64)"
  proof -
    define d where "d = ?data"
    have len: "length d = 10" by (simp add: d_def)
    have "bundle_byte ?b i = get_at d i" if "i < 8" for i
      using that byte [of i] by (simp add: d_def)
    then have "bundle_byte ?b i = Some (take 8 d ! i)" if "i < 8" for i
      using that by (simp add: get_at_def len)
    then have "read_bytes (bundle_read_into ?b) (Gpa 0) 8 = Inr (take 8 d)"
      by (subst snap.read_bytes_Inr [OF from_raw_ok [OF raw]]) (auto simp: len reservable_8)
    then show ?thesis by (simp add: d_def read_scalar_u64 from_le_bytes_def)
  qed
  have c: "bs_bundle ?c = ?b" by (simp add: vmem_connector_def)
  have page: "translate ?t (bundle_read_into ?b) (TranslationRoot 0) (Gva n) = Inr (translation_new (Gpa n) 4096)"
    if "n \<in> {8, 9}" for n
    using that entry by (auto simp: aarch64_as_translator_def aarch64_eval intro!: exI [of _ 3])
  have bytes: "\<exists>x. unat (8 :: u64) + i < 2 ^ 64 \<and>
      translate ?t (bundle_read_into (bs_bundle ?c)) (TranslationRoot 0) (Gva (of_nat (unat (8 :: u64) + i))) = Inr x \<and>
      gpa_raw (Gpa 0) \<le> gpa_raw (physical_address x) \<and>
      get_at ?data (unat (gpa_raw (physical_address x)) - unat (gpa_raw (Gpa 0))) = Some ([7, 9] ! i)" if "i < 2" for i
  proof -
    from that consider "i = 0" | "i = 1" by linarith
    then show ?thesis
      unfolding c by cases (simp_all add: page translation_new_def get_at_def)
  qed
  have "reservable 2" by (simp add: reservable_def isize_max_def)
  from opened_artifact_virtual_read [OF opens s t this, of "TranslationRoot 0" 8 "[7, 9]"]
  have "snd (read_virtual s ?t (TranslationRoot 0) (Gva 8) 2) = Inr [7, 9] \<longleftrightarrow> length [7, 9 :: u8] = 2 \<and> (\<forall>i < 2.
      \<exists>x. unat (8 :: u64) + i < 2 ^ 64 \<and>
      translate ?t (bundle_read_into (bs_bundle ?c)) (TranslationRoot 0) (Gva (of_nat (unat (8 :: u64) + i))) = Inr x \<and>
      gpa_raw (Gpa 0) \<le> gpa_raw (physical_address x) \<and>
      get_at ?data (unat (gpa_raw (physical_address x)) - unat (gpa_raw (Gpa 0))) = Some ([7, 9] ! i))"
    unfolding content by (elim exE conjE) (simp only: sum.inject)
  with bytes have "snd (read_virtual s ?t (TranslationRoot 0) (Gva 8) 2) = Inr [7, 9]" by simp
  with s show ?thesis by blast
qed

end
